(* ===== verification/Prelude.thy ===== *)
theory Prelude
  imports Main "HOL-Library.Word"
begin

text \<open>
  Shared vocabulary of the development: bytes and characters in the classic \<open>"C"\<close> locale,
  the error sum of code that may throw, and the generic list facts the components use.
  Nothing here models a file of the program by itself.
\<close>

section \<open>Hint collections\<close>

text \<open>
  \<open>res_simps\<close> rewrites the error sum, \<open>kv_simps\<close> the keyed containers,
  \<open>resp_simps\<close> the response object, \<open>tok_simps\<close> the counting of pending activities.
\<close>

named_theorems res_simps
named_theorems kv_simps
named_theorems resp_simps
named_theorems tok_simps

section \<open>Bytes and characters\<close>

text \<open>
  On the supported target (x86-64 Linux) \<open>char\<close> is a signed byte: it is \<open>8 word\<close>, read by
  \<open>sint\<close> where the code compares.  A \<open>std::string\<close> is a list of bytes, written as HOL's
  \<open>string\<close>; \<open>size()\<close> is therefore a byte count.
\<close>

type_synonym schar = "8 word"
type_synonym i32 = "32 word"

definition byte_of :: "char \<Rightarrow> schar" where
  "byte_of c = of_char c"

definition char_of_byte :: "schar \<Rightarrow> char" where
  "char_of_byte b = char_of (unat b)"

lemma unat_of_char: "unat (of_char c :: schar) = of_char c"
proof -
  have "(of_char c :: schar) = of_nat (of_char c)" by (rule of_nat_of_char [symmetric])
  then have "unat (of_char c :: schar) = of_char c mod 2 ^ LENGTH(8)"
    by (simp only: unat_of_nat)
  then show ?thesis by simp
qed

lemma char_of_byte_of [simp]: "char_of_byte (byte_of c) = c"
  by (simp add: char_of_byte_def byte_of_def unat_of_char)

lemma byte_of_char_of_byte [simp]: "byte_of (char_of_byte b) = b"
proof -
  have "unat (byte_of (char_of_byte b)) = unat b mod 256"
    by (simp add: byte_of_def unat_of_char char_of_byte_def)
  also have "\<dots> = unat b" using unsigned_less [where ?'a = nat and w = b] by simp
  finally show ?thesis by (simp add: word_unat_eq_iff)
qed

lemma byte_of_eq_iff [simp]: "byte_of c = byte_of d \<longleftrightarrow> c = d"
  by (metis char_of_byte_of)

text \<open>\<open>std::toupper\<close> and \<open>std::isalnum\<close> of the classic locale.\<close>

definition ascii_upper :: "char \<Rightarrow> char" where
  "ascii_upper c =
     (let n = (of_char c :: nat) in if 97 \<le> n \<and> n \<le> 122 then char_of (n - 32) else c)"

definition ascii_alnum :: "char \<Rightarrow> bool" where
  "ascii_alnum c =
     (let n = (of_char c :: nat)
      in (48 \<le> n \<and> n \<le> 57) \<or> (65 \<le> n \<and> n \<le> 90) \<or> (97 \<le> n \<and> n \<le> 122))"

lemma ascii_upper_idem [simp]: "ascii_upper (ascii_upper c) = ascii_upper c"
  by (auto simp: ascii_upper_def Let_def)

lemma map_ascii_upper_idem [simp]: "map ascii_upper (map ascii_upper s) = map ascii_upper s"
  by simp

section \<open>The error sum\<close>

text \<open>\<open>Inl\<close> is the exception in flight, \<open>Inr\<close> the value; \<open>res_bind\<close> runs the rest of a body.\<close>

fun res_bind :: "'e + 'a \<Rightarrow> ('a \<Rightarrow> 'e + 'b) \<Rightarrow> 'e + 'b" where
  "res_bind (Inl e) f = Inl e"
| "res_bind (Inr x) f = f x"

lemma res_bind_Inr_iff [res_simps]: "res_bind m f = Inr y \<longleftrightarrow> (\<exists>x. m = Inr x \<and> f x = Inr y)"
  by (cases m) auto

lemma res_bind_Inl_iff [res_simps]:
  "res_bind m f = Inl e \<longleftrightarrow> m = Inl e \<or> (\<exists>x. m = Inr x \<and> f x = Inl e)"
  by (cases m) auto

lemma res_bind_assoc: "res_bind (res_bind m f) g = res_bind m (\<lambda>x. res_bind (f x) g)"
  by (cases m) auto

lemma res_bind_cong [fundef_cong]:
  "m = m' \<Longrightarrow> (\<And>x. m' = Inr x \<Longrightarrow> f x = f' x) \<Longrightarrow> res_bind m f = res_bind m' f'"
  by (cases m') auto

text \<open>A loop whose body may throw: \<open>for (x : xs) s = f(x, s)\<close>.\<close>

fun fold_res :: "('a \<Rightarrow> 's \<Rightarrow> 'e + 's) \<Rightarrow> 'a list \<Rightarrow> 's \<Rightarrow> 'e + 's" where
  "fold_res f [] s = Inr s"
| "fold_res f (x # xs) s = res_bind (f x s) (fold_res f xs)"

lemma fold_res_invariant:
  assumes "\<And>x s s'. x \<in> set xs \<Longrightarrow> I s \<Longrightarrow> f x s = Inr s' \<Longrightarrow> I s'"
    and "I s" and "fold_res f xs s = Inr s'"
  shows "I s'"
  using assms
proof (induction xs arbitrary: s)
  case Nil
  then show ?case by simp
next
  case (Cons x xs)
  from Cons.prems(3) obtain t where "f x s = Inr t" and "fold_res f xs t = Inr s'"
    by (auto simp: res_simps)
  with Cons.prems(1,2) Cons.IH show ?case by (metis list.set_intros)
qed

lemma fold_res_append:
  "fold_res f (xs @ ys) s = res_bind (fold_res f xs s) (fold_res f ys)"
proof (induction xs arbitrary: s)
  case (Cons x xs)
  then show ?case by (cases "f x s") auto
qed simp

end
