(* ===== verification/Url_Coding.thy ===== *)
theory Url_Coding
  imports Prelude
begin

unbundle bit_operations_syntax

text \<open>
  \<open>engine/src/utils/url_coding.cpp\<close>: percent encoding and decoding.  The index loops over a
  \<open>string_view\<close> become recursion over the part of the view not read yet; the two digits
  after a percent sign are read only when both are there, as the length test of the code
  makes sure.
\<close>

section \<open>Definitions\<close>

definition HexCharToBin :: "schar \<Rightarrow> schar" where
  "HexCharToBin ch =
     (if 48 \<le> sint ch \<and> sint ch \<le> 57 then ch - 48
      else if 97 \<le> sint ch \<and> sint ch \<le> 102 then ch - 97 + 10
      else if 65 \<le> sint ch \<and> sint ch \<le> 70 then ch - 65 + 10
      else -1)"

definition HexStrToBin :: "schar \<Rightarrow> schar \<Rightarrow> schar" where
  "HexStrToBin c0 c1 =
     (let high = HexCharToBin c0; low = HexCharToBin c1
      in if high = -1 \<or> low = -1 then -1 else push_bit 4 high OR low)"

text \<open>One digit of \<open>sprintf("%X")\<close>.\<close>

definition hex_digit :: "nat \<Rightarrow> char" where
  "hex_digit n = (if n < 10 then char_of (48 + n) else char_of (55 + n))"

fun UrlEncode :: "string \<Rightarrow> string" where
  "UrlEncode [] = []"
| "UrlEncode (ch # str) =
     (if ascii_alnum ch then ch # UrlEncode str
      else CHR ''%'' # hex_digit (unat (drop_bit 4 (byte_of ch)))
             # hex_digit (unat (byte_of ch AND 15)) # UrlEncode str)"

fun UrlDecode :: "string \<Rightarrow> string" where
  "UrlDecode [] = []"
| "UrlDecode (c # str) =
     (if c = CHR ''%'' then
        (case str of
           c0 # c1 # rest \<Rightarrow>
             (let ch = HexStrToBin (byte_of c0) (byte_of c1)
              in (if ch = -1 then [c, c0, c1] else [char_of_byte ch]) @ UrlDecode rest)
         | _ \<Rightarrow> c # str)
      else c # UrlDecode str)"

section \<open>Digits\<close>

lemma nibble_cases:
  assumes "n < (16::nat)"
  obtains "n = 0" | "n = 1" | "n = 2" | "n = 3" | "n = 4" | "n = 5" | "n = 6" | "n = 7"
    | "n = 8" | "n = 9" | "n = 10" | "n = 11" | "n = 12" | "n = 13" | "n = 14" | "n = 15"
  using assms by (simp add: numeral_eq_Suc less_Suc_eq) blast

lemma byte_of_char_of: "byte_of (char_of n) = of_nat (n mod 256)"
proof -
  have "byte_of (char_of n) = of_nat (of_char (char_of n))"
    by (simp only: byte_of_def of_nat_of_char)
  then show ?thesis by (simp only: of_char_of)
qed

lemma HexCharToBin_hex_digit:
  assumes "n < 16"
  shows "HexCharToBin (byte_of (hex_digit n)) = of_nat n"
  using assms
  by (cases rule: nibble_cases)
    (simp_all add: HexCharToBin_def hex_digit_def byte_of_char_of)

lemma of_nat_nibble_not_minus_1: "n < 16 \<Longrightarrow> (of_nat n :: schar) \<noteq> -1"
proof
  assume n: "n < 16" and "(of_nat n :: schar) = -1"
  then have "unat (of_nat n :: schar) = unat (-1 :: schar)" by simp
  moreover have "unat (-1 :: schar) = 255" by code_simp
  ultimately show False using n by (simp add: unat_of_nat)
qed

lemma hex_digit_not_special:
  assumes "n < 16"
  shows "ascii_alnum (hex_digit n)"
  using assms by (cases rule: nibble_cases) (simp_all add: hex_digit_def ascii_alnum_def)

lemma nibbles_join: "push_bit 4 (drop_bit 4 (b :: schar)) OR (b AND 15) = b"
proof -
  have "b AND 15 = take_bit 4 b" by (simp add: take_bit_eq_mask mask_eq_exp_minus_1)
  then show ?thesis
    by (auto intro!: bit_word_eqI simp: bit_simps)
qed

lemma drop_bit_4_bound: "unat (drop_bit 4 (b :: schar)) < 16"
proof -
  have "unat b < 256" using unsigned_less [where ?'a = nat and w = b] by simp
  moreover have "unat (drop_bit 4 b) = unat b div 16"
    by (simp only: unat_drop_bit_eq) (simp add: drop_bit_eq_div)
  ultimately show ?thesis by simp
qed

lemma low_nibble_bound: "unat ((b :: schar) AND 15) < 16"
proof -
  have "b AND 15 \<le> 15" by (rule word_and_le1)
  then have "unat (b AND 15) \<le> unat (15 :: schar)" by (simp only: word_le_nat_alt)
  then show ?thesis by simp
qed

lemma HexStrToBin_hex_digits:
  "HexStrToBin (byte_of (hex_digit (unat (drop_bit 4 b)))) (byte_of (hex_digit (unat (b AND 15)))) = b"
proof -
  have "(of_nat (unat (drop_bit 4 b)) :: schar) \<noteq> -1" and "(of_nat (unat (b AND 15)) :: schar) \<noteq> -1"
    by (rule of_nat_nibble_not_minus_1, rule drop_bit_4_bound low_nibble_bound)+
  then show ?thesis
    by (simp add: HexStrToBin_def Let_def HexCharToBin_hex_digit drop_bit_4_bound
        low_nibble_bound nibbles_join)
qed

section \<open>Encoding, then decoding\<close>

text \<open>
  The byte \<open>0xFF\<close> is \<open>-1\<close> as a \<open>char\<close>, the value the decoder takes for "no digit": its
  encoding comes back undecoded.  Every other byte survives.
\<close>

definition decoded_byte :: "char \<Rightarrow> string" where
  "decoded_byte c = (if byte_of c = -1 then ''%FF'' else [c])"

lemma not_alnum_percent [simp]: "\<not> ascii_alnum (CHR ''%'')"
  by (simp add: ascii_alnum_def)

lemma byte_of_minus_1: "byte_of c = -1 \<longleftrightarrow> c = CHR 0xFF"
proof -
  have "byte_of (CHR 0xFF) = -1" by (simp add: byte_of_def)
  then show ?thesis by (metis byte_of_eq_iff)
qed

lemma not_alnum_FF: "\<not> ascii_alnum (CHR 0xFF)"
  by (simp add: ascii_alnum_def)

lemma UrlDecode_UrlEncode_exact: "UrlDecode (UrlEncode s) = concat (map decoded_byte s)"
proof (induction s)
  case (Cons c s)
  show ?case
  proof (cases "ascii_alnum c")
    case True
    then have "c \<noteq> CHR ''%''" and "byte_of c \<noteq> -1"
      using not_alnum_FF by (auto simp: byte_of_minus_1)
    with True Cons show ?thesis by (simp add: decoded_byte_def)
  next
    case False
    then have "UrlDecode (UrlEncode (c # s)) =
        (if byte_of c = -1
         then [CHR ''%'', hex_digit (unat (drop_bit 4 (byte_of c))), hex_digit (unat (byte_of c AND 15))]
         else [c]) @ UrlDecode (UrlEncode s)"
      by (simp add: Let_def HexStrToBin_hex_digits)
    moreover have "byte_of c = -1 \<Longrightarrow>
        [CHR ''%'', hex_digit (unat (drop_bit 4 (byte_of c))), hex_digit (unat (byte_of c AND 15))] = ''%FF''"
      by (simp only:) code_simp
    ultimately show ?thesis using Cons by (simp add: decoded_byte_def)
  qed
qed simp

lemma decoded_eq_iff: "concat (map decoded_byte s) = s \<longleftrightarrow> CHR 0xFF \<notin> set s"
proof -
  have len: "length s \<le> length (concat (map decoded_byte s))" for s
    by (induction s) (auto simp: decoded_byte_def)
  show ?thesis
  proof (induction s)
    case (Cons c s)
    show ?case
    proof (cases "c = CHR 0xFF")
      case True
      have "length (concat (map decoded_byte (c # s))) > length (c # s)"
        using len [of s] True byte_of_minus_1 [of c] by (simp add: decoded_byte_def)
      with True show ?thesis by (metis less_irrefl list.set_intros(1))
    next
      case False
      then have "decoded_byte c = [c]" by (simp add: decoded_byte_def byte_of_minus_1)
      with Cons False show ?thesis by auto
    qed
  qed simp
qed

lemma UrlEncode_chars: "c \<in> set (UrlEncode s) \<Longrightarrow> ascii_alnum c \<or> c = CHR ''%''"
  by (induction s)
    (auto split: if_splits simp: hex_digit_not_special drop_bit_4_bound low_nibble_bound)

lemma UrlDecode_plain: "CHR ''%'' \<notin> set s \<Longrightarrow> UrlDecode s = s"
  by (induction s) auto

lemma UrlDecode_length: "length (UrlDecode s) \<le> length s"
proof (induction s rule: UrlDecode.induct)
  case (2 c str)
  show ?case
  proof (cases "\<exists>c0 c1 rest. c = CHR ''%'' \<and> str = c0 # c1 # rest")
    case True
    then obtain c0 c1 rest where s: "c = CHR ''%''" "str = c0 # c1 # rest" by blast
    from "2.IH"(1) [OF s(1,2) refl refl] s show ?thesis by (simp add: Let_def)
  next
    case False
    with "2.IH"(2) show ?thesis by (auto split: list.splits)
  qed
qed simp

lemma url_coding_roundtrip_iff: "UrlDecode (UrlEncode s) = s \<longleftrightarrow> CHR 0xFF \<notin> set s"
  by (simp only: UrlDecode_UrlEncode_exact decoded_eq_iff)

lemma UrlDecode_UrlEncode_id: "CHR 0xFF \<notin> set s \<Longrightarrow> UrlDecode (UrlEncode s) = s"
  by (rule url_coding_roundtrip_iff [THEN iffD2])

text \<open>
  C25: percent decoding undoes percent encoding exactly for the strings that do not hold
  the byte 0xFF.
\<close>

theorem url_coding_roundtrip: "UrlDecode (UrlEncode s) = s \<longleftrightarrow> CHR 0xFF \<notin> set s"
  by (rule url_coding_roundtrip_iff)

end
