(* ===== verification/Third_Party.thy ===== *)
theory Third_Party
  imports Url_Coding
begin

text \<open>
  The libraries the program links against and whose sources are not in the repository are
  a parameter of the model: the record \<open>lib\<close> has one field per library function the code
  calls, and every definition that uses one takes the record as an argument.  The
  predicates state what the documentation of each library promises; a property that rests
  on one names it as a hypothesis.  \<open>ref_lib\<close> is one concrete record, for witnesses.
\<close>

section \<open>JSON documents\<close>

text \<open>
  The values of \<open>nlohmann::json\<close> the code builds.  A \<open>double\<close> is its 64 bits.  An object is
  its list of members; the code only sets distinct member names on a fresh object and
  appends to a fresh array, and \<open>dump\<close> and \<open>parse\<close> stay parameters.
\<close>

datatype json =
    JNull
  | JInt i32
  | JDouble "64 word"
  | JString string
  | JArray "json list"
  | JObject "(string \<times> json) list"

text \<open>
  \<open>j.push_back(x)\<close>: on \<open>null\<close> it starts an array.  Other values throw in the library; the
  code only pushes on \<open>null\<close> or on an array, so the equation for them is never reached.
\<close>

fun json_push_back :: "json \<Rightarrow> json \<Rightarrow> json" where
  "json_push_back JNull x = JArray [x]"
| "json_push_back (JArray xs) x = JArray (xs @ [x])"
| "json_push_back j x = j"

text \<open>\<open>j.empty()\<close>.\<close>

fun json_empty :: "json \<Rightarrow> bool" where
  "json_empty JNull = True"
| "json_empty (JArray xs) = (xs = [])"
| "json_empty (JObject ms) = (ms = [])"
| "json_empty j = False"

fun json_elems :: "json \<Rightarrow> json list" where
  "json_elems (JArray xs) = xs"
| "json_elems j = []"

definition json_array_of :: "json list \<Rightarrow> json" where
  "json_array_of xs = fold (\<lambda>x j. json_push_back j x) xs JNull"

lemma json_array_of_append:
  "fold (\<lambda>x j. json_push_back j x) xs (JArray ys) = JArray (ys @ xs)"
  by (induction xs arbitrary: ys) auto

lemma json_array_of_eq: "json_array_of xs = (if xs = [] then JNull else JArray xs)"
  by (cases xs) (auto simp: json_array_of_def json_array_of_append)

lemma fold_push_back: "fold (\<lambda>x j. json_push_back j (f x)) xs JNull = json_array_of (map f xs)"
  by (simp add: json_array_of_def fold_map comp_def)

lemma json_push_back_array_of [simp]:
  "json_push_back (json_array_of xs) x = json_array_of (xs @ [x])"
  by (simp add: json_array_of_def)

lemma json_empty_array_of [simp]: "json_empty (json_array_of xs) \<longleftrightarrow> xs = []"
  by (simp add: json_array_of_eq)

lemma json_elems_array_of [simp]: "json_elems (json_array_of xs) = xs"
  by (simp add: json_array_of_eq)

section \<open>Configuration documents\<close>

text \<open>
  A \<open>YAML::Node\<close>: \<open>YUndefined\<close> is the node a subscript returns when there is no such key,
  \<open>YNull\<close> a default-constructed node.
\<close>

datatype yaml =
    YUndefined
  | YNull
  | YScalar string
  | YSequence "yaml list"
  | YMap "(yaml \<times> yaml) list"

definition IsDefined :: "yaml \<Rightarrow> bool" where
  "IsDefined n = (n \<noteq> YUndefined)"

definition IsMap :: "yaml \<Rightarrow> bool" where
  "IsMap n = (case n of YMap _ \<Rightarrow> True | _ \<Rightarrow> False)"

section \<open>The library record\<close>

text \<open>
  Boost.Bimap (\<open>lib_bimap_accepts l r\<close>: does an insertion succeed when the left key is
  already present iff \<open>l\<close> and the right key iff \<open>r\<close>), Boost.ContainerHash, Boost.StringAlgo,
  nlohmann::json, \<open>boost::multiprecision::cpp_dec_float_50\<close> (type \<open>'d\<close>), \<open>std::from_chars\<close> for
  \<open>double\<close>, yaml-cpp's subscript, conversions and iteration (\<open>None\<close>: the call
  throws), Boost.URL's parsers, Beast's rule for the \<open>Connection\<close> header of an HTTP
  version, and what is left in a string that was moved from.
\<close>

record 'd lib =
  lib_bimap_accepts :: "bool \<Rightarrow> bool \<Rightarrow> bool"
  lib_hash_combine :: "64 word \<Rightarrow> char \<Rightarrow> 64 word"
  lib_iequals :: "string \<Rightarrow> string \<Rightarrow> bool"
  lib_to_upper :: "string \<Rightarrow> string"
  lib_split :: "(char \<Rightarrow> bool) \<Rightarrow> string \<Rightarrow> string list"
  lib_json_dump :: "json \<Rightarrow> string"
  lib_json_parse :: "string \<Rightarrow> json option"
  lib_dec_of_string :: "string \<Rightarrow> 'd option"
  lib_dec_one :: 'd
  lib_dec_mul :: "'d \<Rightarrow> 'd \<Rightarrow> 'd"
  lib_dec_div :: "'d \<Rightarrow> 'd \<Rightarrow> 'd"
  lib_dec_str2 :: "'d \<Rightarrow> string"
  lib_from_chars_double :: "string \<Rightarrow> (64 word) option"
  lib_yaml_sub :: "yaml \<Rightarrow> string \<Rightarrow> yaml option"
  lib_yaml_as_string :: "yaml \<Rightarrow> string option"
  lib_yaml_as_size_t :: "yaml \<Rightarrow> (64 word) option"
  lib_yaml_entries :: "yaml \<Rightarrow> (yaml \<times> yaml) list"
  lib_parse_origin_form :: "string \<Rightarrow> (string \<times> string) option"
  lib_parse_query :: "string \<Rightarrow> (string \<times> string option) list option"
  lib_parse_path :: "string \<Rightarrow> string list option"
  lib_pct_decode :: "string \<Rightarrow> string"
  lib_arg_id :: "string \<Rightarrow> string option"
  lib_segment :: "string \<Rightarrow> string \<times> string"
  lib_keep_alive_set :: "nat \<Rightarrow> bool \<Rightarrow> string option"
  lib_keep_alive_get :: "nat \<Rightarrow> string option \<Rightarrow> bool"
  lib_moved_string :: "string \<Rightarrow> string"

section \<open>Documented behaviour\<close>

text \<open>Boost.Bimap with sets on both sides refuses a relation if either key is taken.\<close>

definition bimap_laws :: "'d lib \<Rightarrow> bool" where
  "bimap_laws L \<longleftrightarrow> (\<forall>l r. lib_bimap_accepts L l r = (\<not> l \<and> \<not> r))"

text \<open>
  \<open>boost::algorithm::iequals\<close> compares character by character after \<open>std::toupper\<close>;
  \<open>to_upper\<close> applies \<open>std::toupper\<close> to every character.
\<close>

definition string_algo_laws :: "'d lib \<Rightarrow> bool" where
  "string_algo_laws L \<longleftrightarrow>
     (\<forall>a b. lib_iequals L a b = (map ascii_upper a = map ascii_upper b)) \<and>
     (\<forall>s. lib_to_upper L s = map ascii_upper s)"

text \<open>
  \<open>boost::split\<close> without token compression: the parts between separators, in order, at
  least one of them.
\<close>

definition split_laws :: "'d lib \<Rightarrow> bool" where
  "split_laws L \<longleftrightarrow>
     (\<forall>p. lib_split L p [] = [[]]) \<and>
     (\<forall>p c s. p c \<longrightarrow> lib_split L p (c # s) = [] # lib_split L p s) \<and>
     (\<forall>p c s. \<not> p c \<longrightarrow>
        lib_split L p (c # s) = (c # hd (lib_split L p s)) # tl (lib_split L p s))"

text \<open>
  yaml-cpp: a subscript of a map finds the value of the first such key or the undefined
  node, a subscript of \<open>null\<close> is undefined, a subscript of an undefined node throws; the
  entries of a map come in order; a scalar converts to its text.
\<close>

definition yaml_laws :: "'d lib \<Rightarrow> bool" where
  "yaml_laws L \<longleftrightarrow>
     (\<forall>ms k. lib_yaml_sub L (YMap ms) k =
        Some (case map_of ms (YScalar k) of None \<Rightarrow> YUndefined | Some n \<Rightarrow> n)) \<and>
     (\<forall>k. lib_yaml_sub L YNull k = Some YUndefined) \<and>
     (\<forall>k. lib_yaml_sub L YUndefined k = None) \<and>
     (\<forall>ms. lib_yaml_entries L (YMap ms) = ms) \<and>
     (\<forall>s. lib_yaml_as_string L (YScalar s) = Some s)"

text \<open>
  Beast: \<open>keep_alive(b)\<close> writes the \<open>Connection\<close> header that tells a peer of the message's
  current version to keep the connection (\<open>b\<close>) or to close it, and \<open>keep_alive()\<close> reads it
  back; without the header HTTP/1.1 (\<open>11\<close>) keeps a connection and HTTP/1.0 (\<open>10\<close>) closes it.
\<close>

definition keep_alive_laws :: "'d lib \<Rightarrow> bool" where
  "keep_alive_laws L \<longleftrightarrow>
     (\<forall>v b. lib_keep_alive_get L v (lib_keep_alive_set L v b) = b) \<and>
     lib_keep_alive_set L 11 True = None \<and>
     lib_keep_alive_set L 11 False = Some ''close'' \<and>
     lib_keep_alive_get L 10 None = False \<and>
     lib_keep_alive_get L 10 (Some ''close'') = False"

section \<open>One concrete library\<close>

fun ref_split :: "(char \<Rightarrow> bool) \<Rightarrow> string \<Rightarrow> string list" where
  "ref_split p [] = [[]]"
| "ref_split p (c # s) =
     (if p c then [] # ref_split p s
      else (case ref_split p s of [] \<Rightarrow> [[c]] | w # ws \<Rightarrow> (c # w) # ws))"

lemma ref_split_nonempty [simp]: "ref_split p s \<noteq> []"
  by (induction s) (auto split: list.splits)

text \<open>A path segment ends at the next \<open>/\<close>.\<close>

definition ref_segment :: "string \<Rightarrow> string \<times> string" where
  "ref_segment s = (takeWhile (\<lambda>c. c \<noteq> CHR ''/'') s, dropWhile (\<lambda>c. c \<noteq> CHR ''/'') s)"

text \<open>An argument id is a non-empty word of letters, digits and underscores.\<close>

definition ref_arg_id :: "string \<Rightarrow> string option" where
  "ref_arg_id s =
     (let w = takeWhile (\<lambda>c. ascii_alnum c \<or> c = CHR ''_'') s
      in if w = [] then None else Some (drop (length w) s))"

definition ref_parse_path :: "string \<Rightarrow> string list option" where
  "ref_parse_path s =
     (case s of [] \<Rightarrow> Some []
      | c # cs \<Rightarrow> if c = CHR ''/'' then (if cs = [] then Some [] else Some (ref_split (\<lambda>x. x = CHR ''/'') cs))
                 else Some (ref_split (\<lambda>x. x = CHR ''/'') s))"

fun ref_digits :: "nat \<Rightarrow> string \<Rightarrow> nat option" where
  "ref_digits n [] = Some n"
| "ref_digits n (c # cs) =
     (let d = (of_char c :: nat)
      in if 48 \<le> d \<and> d \<le> 57 then ref_digits (10 * n + (d - 48)) cs else None)"

definition ref_nat_of_string :: "string \<Rightarrow> nat option" where
  "ref_nat_of_string s = (if s = [] then None else ref_digits 0 s)"

definition ref_pair_of_param :: "string \<Rightarrow> string \<times> string option" where
  "ref_pair_of_param p =
     (case ref_split (\<lambda>c. c = CHR ''='') p of
        k # v # _ \<Rightarrow> (k, Some v) | k # [] \<Rightarrow> (k, None) | [] \<Rightarrow> ([], None))"

definition ref_parse_query :: "string \<Rightarrow> (string \<times> string option) list option" where
  "ref_parse_query s =
     (if CHR '' '' \<in> set s then None
      else if s = [] then Some []
      else Some (map ref_pair_of_param (ref_split (\<lambda>c. c = CHR ''&'') s)))"

definition ref_parse_origin_form :: "string \<Rightarrow> (string \<times> string) option" where
  "ref_parse_origin_form t =
     (case t of
        [] \<Rightarrow> None
      | c # cs \<Rightarrow>
          if c = CHR ''/'' then
            (case ref_split (\<lambda>x. x = CHR ''?'') t of
               p # q # _ \<Rightarrow> Some (p, q) | p # [] \<Rightarrow> Some (p, []) | [] \<Rightarrow> None)
          else None)"

text \<open>
  Decimals are whole numbers here, which is enough to run the handlers in a witness; a
  document is dumped as the names and strings it contains.
\<close>

fun ref_dump :: "json \<Rightarrow> string" and ref_dump_list :: "json list \<Rightarrow> string"
  and ref_dump_members :: "(string \<times> json) list \<Rightarrow> string" where
  "ref_dump JNull = ''null''"
| "ref_dump (JInt i) = ''int''"
| "ref_dump (JDouble d) = ''double''"
| "ref_dump (JString s) = s"
| "ref_dump (JArray xs) = ''['' @ ref_dump_list xs @ '']''"
| "ref_dump (JObject ms) = ''{'' @ ref_dump_members ms @ ''}''"
| "ref_dump_list [] = []"
| "ref_dump_list (x # xs) = ref_dump x @ '','' @ ref_dump_list xs"
| "ref_dump_members [] = []"
| "ref_dump_members ((k, x) # ms) = k @ '':'' @ ref_dump x @ '','' @ ref_dump_members ms"

definition ref_yaml_sub :: "yaml \<Rightarrow> string \<Rightarrow> yaml option" where
  "ref_yaml_sub n k =
     (case n of
        YMap ms \<Rightarrow> Some (case map_of ms (YScalar k) of None \<Rightarrow> YUndefined | Some v \<Rightarrow> v)
      | YNull \<Rightarrow> Some YUndefined
      | YSequence _ \<Rightarrow> Some YUndefined
      | YScalar _ \<Rightarrow> None
      | YUndefined \<Rightarrow> None)"

definition ref_yaml_as_string :: "yaml \<Rightarrow> string option" where
  "ref_yaml_as_string n = (case n of YScalar s \<Rightarrow> Some s | _ \<Rightarrow> None)"

definition ref_lib :: "nat lib" where
  "ref_lib =
    \<lparr> lib_bimap_accepts = (\<lambda>l r. \<not> l \<and> \<not> r),
      lib_hash_combine = (\<lambda>h c. 31 * h + of_char c),
      lib_iequals = (\<lambda>a b. map ascii_upper a = map ascii_upper b),
      lib_to_upper = map ascii_upper,
      lib_split = ref_split,
      lib_json_dump = ref_dump,
      lib_json_parse = (\<lambda>s. if s = ''{'' then None else Some JNull),
      lib_dec_of_string = ref_nat_of_string,
      lib_dec_one = 1,
      lib_dec_mul = (*),
      lib_dec_div = (div),
      lib_dec_str2 = (\<lambda>n. replicate n (CHR ''1'')),
      lib_from_chars_double = (\<lambda>s. Some (of_nat (length s))),
      lib_yaml_sub = ref_yaml_sub,
      lib_yaml_as_string = ref_yaml_as_string,
      lib_yaml_as_size_t = (\<lambda>n. case ref_yaml_as_string n of
          None \<Rightarrow> None | Some s \<Rightarrow> map_option of_nat (ref_nat_of_string s)),
      lib_yaml_entries = (\<lambda>n. case n of YMap ms \<Rightarrow> ms | _ \<Rightarrow> []),
      lib_parse_origin_form = ref_parse_origin_form,
      lib_parse_query = ref_parse_query,
      lib_parse_path = ref_parse_path,
      lib_pct_decode = UrlDecode,
      lib_arg_id = ref_arg_id,
      lib_segment = ref_segment,
      lib_keep_alive_set = (\<lambda>v b. if v < 11 then (if b then Some ''keep-alive'' else None)
                                  else (if b then None else Some ''close'')),
      lib_keep_alive_get = (\<lambda>v h. if v < 11 then h = Some ''keep-alive'' else h \<noteq> Some ''close''),
      lib_moved_string = (\<lambda>s. []) \<rparr>"

lemma ref_lib_bimap_laws [simp]: "bimap_laws ref_lib"
  by (simp add: bimap_laws_def ref_lib_def)

lemma ref_lib_string_algo_laws [simp]: "string_algo_laws ref_lib"
  by (simp add: string_algo_laws_def ref_lib_def)

lemma ref_lib_yaml_laws [simp]: "yaml_laws ref_lib"
  by (simp add: yaml_laws_def ref_lib_def ref_yaml_sub_def ref_yaml_as_string_def)

lemma ref_lib_keep_alive_laws [simp]: "keep_alive_laws ref_lib"
  by (simp add: keep_alive_laws_def ref_lib_def)

lemma ref_lib_split_laws [simp]: "split_laws ref_lib"
  by (auto simp: split_laws_def ref_lib_def split: list.splits)

end
