(* ===== verification/Containers.thy ===== *)
theory Containers
  imports Prelude "HOL-Library.Multiset"
begin

text \<open>
  The keyed containers of the program: \<open>std::unordered_map\<close> and \<open>cuckoohash_map\<close>, both with
  a key equality chosen by the program.  A container is the list of its entries;
  \<open>kv_find\<close>, \<open>kv_insert\<close> (keeps an entry that is already there) and
  \<open>kv_insert_or_assign\<close> are the three operations the code uses.  The order in which a loop
  sees the entries is unspecified, so a loop takes an arbitrary permutation
  (\<open>iteration_order\<close>).
\<close>

section \<open>Operations\<close>

type_synonym ('k, 'v) kv = "('k \<times> 'v) list"

fun kv_find :: "('k \<Rightarrow> 'k \<Rightarrow> bool) \<Rightarrow> 'k \<Rightarrow> ('k, 'v) kv \<Rightarrow> 'v option" where
  "kv_find eq k [] = None"
| "kv_find eq k ((k', v) # m) = (if eq k' k then Some v else kv_find eq k m)"

definition kv_contains :: "('k \<Rightarrow> 'k \<Rightarrow> bool) \<Rightarrow> 'k \<Rightarrow> ('k, 'v) kv \<Rightarrow> bool" where
  "kv_contains eq k m = (kv_find eq k m \<noteq> None)"

definition kv_insert ::
  "('k \<Rightarrow> 'k \<Rightarrow> bool) \<Rightarrow> 'k \<Rightarrow> 'v \<Rightarrow> ('k, 'v) kv \<Rightarrow> ('k, 'v) kv" where
  "kv_insert eq k v m = (if kv_find eq k m = None then m @ [(k, v)] else m)"

fun kv_insert_or_assign ::
  "('k \<Rightarrow> 'k \<Rightarrow> bool) \<Rightarrow> 'k \<Rightarrow> 'v \<Rightarrow> ('k, 'v) kv \<Rightarrow> ('k, 'v) kv" where
  "kv_insert_or_assign eq k v [] = [(k, v)]"
| "kv_insert_or_assign eq k v ((k', w) # m) =
     (if eq k' k then (k', v) # m else (k', w) # kv_insert_or_assign eq k v m)"

text \<open>No two entries have equal keys.\<close>

fun kv_distinct :: "('k \<Rightarrow> 'k \<Rightarrow> bool) \<Rightarrow> ('k, 'v) kv \<Rightarrow> bool" where
  "kv_distinct eq [] = True"
| "kv_distinct eq ((k, v) # m) = (kv_find eq k m = None \<and> kv_distinct eq m)"

definition iteration_order :: "(('k, 'v) kv \<Rightarrow> ('k, 'v) kv) \<Rightarrow> bool" where
  "iteration_order ord \<longleftrightarrow> (\<forall>m. mset (ord m) = mset m)"

lemma iteration_order_id [simp]: "iteration_order (\<lambda>m. m)"
  by (simp add: iteration_order_def)

lemma iteration_order_rev [simp]: "iteration_order rev"
  by (simp add: iteration_order_def)

lemma set_iteration_order: "iteration_order ord \<Longrightarrow> set (ord m) = set m"
  by (metis iteration_order_def set_mset_mset)

lemma iteration_order_Nil_iff: "iteration_order ord \<Longrightarrow> ord m = [] \<longleftrightarrow> m = []"
  by (metis iteration_order_def mset_zero_iff)

section \<open>The interface and its laws\<close>

text \<open>
  A key equality must be an equivalence; under it lookups after an insertion return what
  the container's documentation says, and entries stay distinct.
\<close>

locale key_equality =
  fixes eq :: "'k \<Rightarrow> 'k \<Rightarrow> bool"
  assumes eq_refl: "eq k k"
    and eq_sym: "eq k k' \<Longrightarrow> eq k' k"
    and eq_trans: "eq k k' \<Longrightarrow> eq k' k'' \<Longrightarrow> eq k k''"
begin

lemma eq_iff: "eq k k' \<Longrightarrow> eq x k \<longleftrightarrow> eq x k'"
  by (blast intro: eq_sym eq_trans)

lemma find_cong: "eq k k' \<Longrightarrow> kv_find eq k m = kv_find eq k' m"
  by (induction m) (auto simp: eq_iff)

lemma find_append:
  "kv_find eq k (m @ m') = (case kv_find eq k m of None \<Rightarrow> kv_find eq k m' | Some v \<Rightarrow> Some v)"
  by (induction m) auto

lemma find_insert:
  "kv_find eq k' (kv_insert eq k v m) =
     (if eq k k' \<and> kv_find eq k m = None then Some v else kv_find eq k' m)"
  by (auto simp: kv_insert_def find_append split: option.splits dest: find_cong [where m = m])

lemma find_insert_or_assign:
  "kv_find eq k' (kv_insert_or_assign eq k v m) = (if eq k k' then Some v else kv_find eq k' m)"
proof (induction m)
  case (Cons x m)
  obtain a b where x: "x = (a, b)" by (cases x)
  show ?case
  proof (cases "eq k k'")
    case True
    then have "eq a k \<longleftrightarrow> eq a k'" by (rule eq_iff)
    with Cons x True show ?thesis by auto
  next
    case False
    then have "\<not> (eq a k \<and> eq a k')" by (blast intro: eq_sym eq_trans)
    with Cons x False show ?thesis by auto
  qed
qed simp

lemma distinct_snoc:
  "kv_distinct eq (m @ [(k, v)]) \<longleftrightarrow> kv_distinct eq m \<and> kv_find eq k m = None"
  by (induction m) (auto simp: find_append split: option.splits if_splits intro: eq_sym)

lemma distinct_insert: "kv_distinct eq m \<Longrightarrow> kv_distinct eq (kv_insert eq k v m)"
  by (simp add: kv_insert_def distinct_snoc)

lemma distinct_insert_or_assign:
  "kv_distinct eq m \<Longrightarrow> kv_distinct eq (kv_insert_or_assign eq k v m)"
  by (induction m) (auto simp: find_insert_or_assign dest: eq_sym)

lemma find_SomeD: "kv_find eq k m = Some v \<Longrightarrow> \<exists>k'. eq k' k \<and> (k', v) \<in> set m"
  by (induction m) (auto split: if_splits)

lemma find_None_iff: "kv_find eq k m = None \<longleftrightarrow> (\<forall>(k', v) \<in> set m. \<not> eq k' k)"
  by (induction m) (auto split: if_splits)

lemma find_entry: "kv_distinct eq m \<Longrightarrow> (k, v) \<in> set m \<Longrightarrow> kv_find eq k m = Some v"
proof (induction m)
  case (Cons x m)
  obtain k' w where x: "x = (k', w)" by (cases x)
  show ?case
  proof (cases "x = (k, v)")
    case True
    then show ?thesis by (simp add: eq_refl)
  next
    case False
    with Cons x have v: "(k, v) \<in> set m" "kv_find eq k m = Some v" by auto
    have "\<not> eq k' k"
    proof
      assume "eq k' k"
      with v(2) have "kv_find eq k' m = Some v" using find_cong by metis
      with Cons.prems(1) x show False by simp
    qed
    with v x show ?thesis by simp
  qed
qed simp

lemma insert_or_assign_entry:
  "p \<in> set (kv_insert_or_assign eq k v m) \<Longrightarrow> p \<in> set m \<or> (snd p = v \<and> eq (fst p) k)"
  by (induction m) (auto simp: eq_refl split: if_splits)

lemma insert_entry: "p \<in> set (kv_insert eq k v m) \<Longrightarrow> p \<in> set m \<or> p = (k, v)"
  by (auto simp: kv_insert_def split: if_splits)

lemma set_insert_or_assign:
  "snd ` set (kv_insert_or_assign eq k v m) \<subseteq> insert v (snd ` set m)"
proof (induction m)
  case (Cons x m)
  then show ?case by (cases x) (fastforce split: if_splits)
qed simp

end

interpretation std_key: key_equality "(=)"
  by unfold_locales auto

section \<open>Plain keys: the container is a partial map\<close>

abbreviation map_find :: "'k \<Rightarrow> ('k, 'v) kv \<Rightarrow> 'v option" where
  "map_find \<equiv> kv_find (=)"

lemma map_find_eq_map_of: "map_find k m = map_of m k"
  by (induction m) auto

lemma map_of_insert:
  "map_of (kv_insert (=) k v m) = (if k \<in> dom (map_of m) then map_of m else (map_of m)(k \<mapsto> v))"
  by (auto simp: fun_eq_iff map_find_eq_map_of [symmetric] std_key.find_insert domIff)

lemma map_of_insert_or_assign [kv_simps]:
  "map_of (kv_insert_or_assign (=) k v m) = (map_of m)(k \<mapsto> v)"
  by (auto simp: fun_eq_iff map_find_eq_map_of [symmetric] std_key.find_insert_or_assign)

lemma kv_distinct_iff_distinct: "kv_distinct (=) m \<longleftrightarrow> distinct (map fst m)"
  by (induction m) (force simp: map_find_eq_map_of map_of_eq_None_iff)+

lemma map_of_iteration_order:
  assumes "iteration_order ord" and "distinct (map fst m)"
  shows "map_of (ord m) = map_of m"
proof -
  have "mset (map fst (ord m)) = mset (map fst m)"
    using assms(1) by (simp add: iteration_order_def)
  then have "distinct (map fst (ord m))"
    using assms(2) mset_eq_imp_distinct_iff by blast
  with assms show ?thesis
    by (simp add: map_of_inject_set set_iteration_order)
qed

end
