(* ===== verification/Case_Insensitive.thy ===== *)
theory Case_Insensitive
  imports Third_Party Containers
begin

text \<open>
  \<open>engine/src/utils/case_insensitive_hash.hpp\<close> and \<open>engine/src/utils/bimap.hpp\<close>: the key
  equality and hash of the case-insensitive containers, and the tables built from
  initializer lists.
\<close>

section \<open>Equality and hash\<close>

definition IEqualTo :: "'d lib \<Rightarrow> string \<Rightarrow> string \<Rightarrow> bool" where
  "IEqualTo L lhs rhs = lib_iequals L lhs rhs"

definition IHash :: "'d lib \<Rightarrow> string \<Rightarrow> 64 word" where
  "IHash L data = fold (\<lambda>c seed. lib_hash_combine L seed (ascii_upper c)) data 0"

text \<open>The equality the documentation of \<open>iequals\<close> gives.\<close>

definition same_upper :: "string \<Rightarrow> string \<Rightarrow> bool" where
  "same_upper a b = (map ascii_upper a = map ascii_upper b)"

interpretation ci_key: key_equality same_upper
  by unfold_locales (auto simp: same_upper_def)

lemma IEqualTo_same_upper: "string_algo_laws L \<Longrightarrow> IEqualTo L = same_upper"
  by (simp add: fun_eq_iff IEqualTo_def same_upper_def string_algo_laws_def)

lemma IEqualTo_key_equality: "string_algo_laws L \<Longrightarrow> key_equality (IEqualTo L)"
  by (simp add: IEqualTo_same_upper ci_key.key_equality_axioms)

lemma IHash_map_upper: "IHash L (map ascii_upper s) = IHash L s"
  by (simp add: IHash_def fold_map comp_def)

text \<open>
  The contract of an unordered container: keys that compare equal have the same hash.
\<close>

lemma IHash_respects_same_upper: "same_upper a b \<Longrightarrow> IHash L a = IHash L b"
  by (metis IHash_map_upper same_upper_def)

section \<open>Tables with two key sides\<close>

type_synonym ('k, 'v) bimap = "('k \<times> 'v) list"

definition bimap_left_find :: "('k \<Rightarrow> 'k \<Rightarrow> bool) \<Rightarrow> 'k \<Rightarrow> ('k, 'v) bimap \<Rightarrow> 'v option" where
  "bimap_left_find eq k m = kv_find eq k m"

definition bimap_right_find :: "'v \<Rightarrow> ('k, 'v) bimap \<Rightarrow> 'k option" where
  "bimap_right_find v m = map_find v (map prod.swap m)"

definition bimap_insert ::
  "'d lib \<Rightarrow> ('k \<Rightarrow> 'k \<Rightarrow> bool) \<Rightarrow> 'k \<times> 'v \<Rightarrow> ('k, 'v) bimap \<Rightarrow> ('k, 'v) bimap" where
  "bimap_insert L eq r m =
     (if lib_bimap_accepts L (kv_contains eq (fst r) m) (kv_contains (=) (snd r) (map prod.swap m))
      then m @ [r] else m)"

definition MakeBimap ::
  "'d lib \<Rightarrow> ('k \<Rightarrow> 'k \<Rightarrow> bool) \<Rightarrow> ('k \<times> 'v) list \<Rightarrow> ('k, 'v) bimap" where
  "MakeBimap L eq list = fold (bimap_insert L eq) list []"

text \<open>\<open>bimap_list_ok\<close>: an initializer list whose keys are fresh on both sides.\<close>

definition bimap_list_ok :: "('k \<Rightarrow> 'k \<Rightarrow> bool) \<Rightarrow> ('k \<times> 'v) list \<Rightarrow> bool" where
  "bimap_list_ok eq xs \<longleftrightarrow> kv_distinct eq xs \<and> distinct (map snd xs)"

context key_equality
begin

lemma fold_bimap_insert:
  assumes "bimap_laws L" and "kv_distinct eq (m @ xs)" and "distinct (map snd (m @ xs))"
  shows "fold (bimap_insert L eq) xs m = m @ xs"
  using assms(2,3)
proof (induction xs arbitrary: m)
  case (Cons r xs)
  obtain k v where r: "r = (k, v)" by (cases r)
  from Cons.prems(1) r have "kv_find eq k m = None"
  proof (induction m)
    case (Cons x m)
    then show ?case by (cases x) (auto simp: find_append split: option.splits if_splits intro: eq_sym)
  qed simp
  moreover have "map_find v (map prod.swap m) = None"
    using Cons.prems(2) r
    by (auto simp: map_find_eq_map_of map_of_eq_None_iff image_image)
  ultimately have "bimap_insert L eq r m = m @ [r]"
    using assms(1) r by (simp add: bimap_insert_def kv_contains_def bimap_laws_def)
  with Cons.IH [of "m @ [r]"] Cons.prems show ?case by simp
qed simp

lemma MakeBimap_all: "bimap_laws L \<Longrightarrow> bimap_list_ok eq xs \<Longrightarrow> MakeBimap L eq xs = xs"
  using fold_bimap_insert [of L "[]" xs] by (simp add: MakeBimap_def bimap_list_ok_def)

text \<open>Whatever the list, a relation of the table stands in the list.\<close>

lemma MakeBimap_subset: "set (MakeBimap L eq xs) \<subseteq> set xs"
proof -
  have "set (fold (bimap_insert L eq) xs m) \<subseteq> set m \<union> set xs" for m
  proof (induction xs arbitrary: m)
    case (Cons r xs)
    have "set (bimap_insert L eq r m) \<subseteq> insert r (set m)" by (auto simp: bimap_insert_def)
    with Cons.IH [of "bimap_insert L eq r m"] show ?case by auto
  qed simp
  from this [of "[]"] show ?thesis by (simp add: MakeBimap_def)
qed

text \<open>The right keys of a table are distinct, even when those of the list are not.\<close>

lemma MakeBimap_right_distinct:
  assumes "bimap_laws L"
  shows "distinct (map snd (MakeBimap L eq xs))"
proof -
  have "distinct (map snd m) \<Longrightarrow> distinct (map snd (fold (bimap_insert L eq) xs m))" for m
  proof (induction xs arbitrary: m)
    case (Cons r xs)
    have "distinct (map snd (bimap_insert L eq r m))"
      using Cons.prems assms
      by (auto simp: bimap_insert_def bimap_laws_def kv_contains_def map_find_eq_map_of
          map_of_eq_None_iff image_image)
    then show ?case using Cons.IH by simp
  qed simp
  then show ?thesis by (simp add: MakeBimap_def)
qed

end

end
