(* ===== verification/Http_Status.thy ===== *)
theory Http_Status
  imports Case_Insensitive
begin

text \<open>
  \<open>engine/src/http_server/http_status.hpp\<close> and \<open>http_status.cpp\<close>: the program's status
  enumeration, its table to \<open>http::status\<close>, and the exceptions that carry a status
  (\<open>exceptions.hpp\<close>, \<open>exceptions.cpp\<close>).
\<close>

section \<open>The enumeration\<close>

datatype (plugins only: code) HttpStatus =
    kContinue | kSwitchingProtocols | kProcessing | kOk | kCreated | kAccepted
    | kNonAuthoritativeInformation | kNoContent | kResetContent | kPartialContent
    | kMultiStatus | kAlreadyReported | kImUsed | kMultipleChoices | kMovedPermanently
    | kFound | kSeeOther | kNotModified | kUseProxy | kTemporaryRedirect
    | kPermanentRedirect | kBadRequest | kUnauthorized | kPaymentRequired | kForbidden
    | kNotFound | kMethodNotAllowed | kNotAcceptable | kProxyAuthenticationRequired
    | kRequestTimeout | kConflict | kGone | kLengthRequired | kPreconditionFailed
    | kPayloadTooLarge | kUriTooLong | kUnsupportedMediaType | kRangeNotSatisfiable
    | kExpectationFailed | kMisdirectedRequest | kUnprocessableEntity | kLocked
    | kFailedDependency | kUpgradeRequired | kPreconditionRequired | kTooManyRequests
    | kRequestHeaderFieldsTooLarge | kUnavailableForLegalReasons | kClientClosedRequest
    | kInternalServerError | kNotImplemented | kBadGateway | kServiceUnavailable
    | kGatewayTimeout | kHttpVersionNotSupported | kVariantAlsoNegotiates
    | kInsufficientStorage | kLoopDetected | kNotExtended | kNetworkAuthenticationRequired

primrec http_status_value :: "HttpStatus \<Rightarrow> nat" where
  "http_status_value kContinue = 100"
| "http_status_value kSwitchingProtocols = 101"
| "http_status_value kProcessing = 102"
| "http_status_value kOk = 200"
| "http_status_value kCreated = 201"
| "http_status_value kAccepted = 202"
| "http_status_value kNonAuthoritativeInformation = 203"
| "http_status_value kNoContent = 204"
| "http_status_value kResetContent = 205"
| "http_status_value kPartialContent = 206"
| "http_status_value kMultiStatus = 207"
| "http_status_value kAlreadyReported = 208"
| "http_status_value kImUsed = 226"
| "http_status_value kMultipleChoices = 300"
| "http_status_value kMovedPermanently = 301"
| "http_status_value kFound = 302"
| "http_status_value kSeeOther = 303"
| "http_status_value kNotModified = 304"
| "http_status_value kUseProxy = 305"
| "http_status_value kTemporaryRedirect = 307"
| "http_status_value kPermanentRedirect = 308"
| "http_status_value kBadRequest = 400"
| "http_status_value kUnauthorized = 401"
| "http_status_value kPaymentRequired = 402"
| "http_status_value kForbidden = 403"
| "http_status_value kNotFound = 404"
| "http_status_value kMethodNotAllowed = 405"
| "http_status_value kNotAcceptable = 406"
| "http_status_value kProxyAuthenticationRequired = 407"
| "http_status_value kRequestTimeout = 408"
| "http_status_value kConflict = 409"
| "http_status_value kGone = 410"
| "http_status_value kLengthRequired = 411"
| "http_status_value kPreconditionFailed = 412"
| "http_status_value kPayloadTooLarge = 413"
| "http_status_value kUriTooLong = 414"
| "http_status_value kUnsupportedMediaType = 415"
| "http_status_value kRangeNotSatisfiable = 416"
| "http_status_value kExpectationFailed = 417"
| "http_status_value kMisdirectedRequest = 421"
| "http_status_value kUnprocessableEntity = 422"
| "http_status_value kLocked = 423"
| "http_status_value kFailedDependency = 424"
| "http_status_value kUpgradeRequired = 426"
| "http_status_value kPreconditionRequired = 428"
| "http_status_value kTooManyRequests = 429"
| "http_status_value kRequestHeaderFieldsTooLarge = 431"
| "http_status_value kUnavailableForLegalReasons = 451"
| "http_status_value kClientClosedRequest = 499"
| "http_status_value kInternalServerError = 500"
| "http_status_value kNotImplemented = 501"
| "http_status_value kBadGateway = 502"
| "http_status_value kServiceUnavailable = 503"
| "http_status_value kGatewayTimeout = 504"
| "http_status_value kHttpVersionNotSupported = 505"
| "http_status_value kVariantAlsoNegotiates = 506"
| "http_status_value kInsufficientStorage = 507"
| "http_status_value kLoopDetected = 508"
| "http_status_value kNotExtended = 510"
| "http_status_value kNetworkAuthenticationRequired = 511"

text \<open>
  \<open>http::status\<close>, Beast's enumeration, by the names the table uses, and the integer each
  name stands for on the wire (\<open>result_int()\<close>).
\<close>

datatype (plugins only: code) beast_status =
    bs_unknown | bs_continue | bs_switching_protocols | bs_processing | bs_ok | bs_created
    | bs_accepted | bs_non_authoritative_information | bs_no_content | bs_reset_content
    | bs_partial_content | bs_multi_status | bs_already_reported | bs_im_used
    | bs_multiple_choices | bs_moved_permanently | bs_found | bs_see_other | bs_not_modified
    | bs_use_proxy | bs_temporary_redirect | bs_permanent_redirect | bs_bad_request
    | bs_unauthorized | bs_payment_required | bs_forbidden | bs_not_found
    | bs_method_not_allowed | bs_not_acceptable | bs_proxy_authentication_required
    | bs_request_timeout | bs_conflict | bs_gone | bs_length_required
    | bs_precondition_failed | bs_payload_too_large | bs_uri_too_long
    | bs_unsupported_media_type | bs_range_not_satisfiable | bs_expectation_failed
    | bs_misdirected_request | bs_unprocessable_entity | bs_locked | bs_failed_dependency
    | bs_upgrade_required | bs_precondition_required | bs_too_many_requests
    | bs_request_header_fields_too_large | bs_unavailable_for_legal_reasons
    | bs_client_closed_request | bs_internal_server_error | bs_not_implemented
    | bs_bad_gateway | bs_service_unavailable | bs_gateway_timeout
    | bs_http_version_not_supported | bs_variant_also_negotiates | bs_insufficient_storage
    | bs_loop_detected | bs_not_extended | bs_network_authentication_required

primrec beast_status_int :: "beast_status \<Rightarrow> nat" where
  "beast_status_int bs_unknown = 0"
| "beast_status_int bs_continue = 100"
| "beast_status_int bs_switching_protocols = 101"
| "beast_status_int bs_processing = 102"
| "beast_status_int bs_ok = 200"
| "beast_status_int bs_created = 201"
| "beast_status_int bs_accepted = 202"
| "beast_status_int bs_non_authoritative_information = 203"
| "beast_status_int bs_no_content = 204"
| "beast_status_int bs_reset_content = 205"
| "beast_status_int bs_partial_content = 206"
| "beast_status_int bs_multi_status = 207"
| "beast_status_int bs_already_reported = 208"
| "beast_status_int bs_im_used = 226"
| "beast_status_int bs_multiple_choices = 300"
| "beast_status_int bs_moved_permanently = 301"
| "beast_status_int bs_found = 302"
| "beast_status_int bs_see_other = 303"
| "beast_status_int bs_not_modified = 304"
| "beast_status_int bs_use_proxy = 305"
| "beast_status_int bs_temporary_redirect = 307"
| "beast_status_int bs_permanent_redirect = 308"
| "beast_status_int bs_bad_request = 400"
| "beast_status_int bs_unauthorized = 401"
| "beast_status_int bs_payment_required = 402"
| "beast_status_int bs_forbidden = 403"
| "beast_status_int bs_not_found = 404"
| "beast_status_int bs_method_not_allowed = 405"
| "beast_status_int bs_not_acceptable = 406"
| "beast_status_int bs_proxy_authentication_required = 407"
| "beast_status_int bs_request_timeout = 408"
| "beast_status_int bs_conflict = 409"
| "beast_status_int bs_gone = 410"
| "beast_status_int bs_length_required = 411"
| "beast_status_int bs_precondition_failed = 412"
| "beast_status_int bs_payload_too_large = 413"
| "beast_status_int bs_uri_too_long = 414"
| "beast_status_int bs_unsupported_media_type = 415"
| "beast_status_int bs_range_not_satisfiable = 416"
| "beast_status_int bs_expectation_failed = 417"
| "beast_status_int bs_misdirected_request = 421"
| "beast_status_int bs_unprocessable_entity = 422"
| "beast_status_int bs_locked = 423"
| "beast_status_int bs_failed_dependency = 424"
| "beast_status_int bs_upgrade_required = 426"
| "beast_status_int bs_precondition_required = 428"
| "beast_status_int bs_too_many_requests = 429"
| "beast_status_int bs_request_header_fields_too_large = 431"
| "beast_status_int bs_unavailable_for_legal_reasons = 451"
| "beast_status_int bs_client_closed_request = 499"
| "beast_status_int bs_internal_server_error = 500"
| "beast_status_int bs_not_implemented = 501"
| "beast_status_int bs_bad_gateway = 502"
| "beast_status_int bs_service_unavailable = 503"
| "beast_status_int bs_gateway_timeout = 504"
| "beast_status_int bs_http_version_not_supported = 505"
| "beast_status_int bs_variant_also_negotiates = 506"
| "beast_status_int bs_insufficient_storage = 507"
| "beast_status_int bs_loop_detected = 508"
| "beast_status_int bs_not_extended = 510"
| "beast_status_int bs_network_authentication_required = 511"

section \<open>The table\<close>

definition beast_status_list :: "(HttpStatus \<times> beast_status) list" where
  "beast_status_list =
    [(kContinue, bs_continue), (kSwitchingProtocols, bs_switching_protocols),
     (kProcessing, bs_processing), (kOk, bs_ok), (kCreated, bs_created),
     (kAccepted, bs_accepted),
     (kNonAuthoritativeInformation, bs_non_authoritative_information),
     (kNoContent, bs_no_content), (kResetContent, bs_reset_content),
     (kPartialContent, bs_partial_content), (kMultiStatus, bs_multi_status),
     (kAlreadyReported, bs_already_reported), (kImUsed, bs_im_used),
     (kMultipleChoices, bs_multiple_choices), (kMovedPermanently, bs_moved_permanently),
     (kFound, bs_found), (kSeeOther, bs_see_other), (kNotModified, bs_not_modified),
     (kUseProxy, bs_use_proxy), (kTemporaryRedirect, bs_temporary_redirect),
     (kPermanentRedirect, bs_permanent_redirect), (kBadRequest, bs_bad_request),
     (kUnauthorized, bs_unauthorized), (kPaymentRequired, bs_payment_required),
     (kForbidden, bs_forbidden), (kNotFound, bs_not_found),
     (kMethodNotAllowed, bs_method_not_allowed), (kNotAcceptable, bs_not_acceptable),
     (kProxyAuthenticationRequired, bs_proxy_authentication_required),
     (kRequestTimeout, bs_request_timeout), (kConflict, bs_conflict), (kGone, bs_gone),
     (kLengthRequired, bs_length_required), (kPreconditionFailed, bs_precondition_failed),
     (kPayloadTooLarge, bs_payload_too_large), (kUriTooLong, bs_uri_too_long),
     (kUnsupportedMediaType, bs_unsupported_media_type),
     (kRangeNotSatisfiable, bs_range_not_satisfiable),
     (kExpectationFailed, bs_expectation_failed),
     (kMisdirectedRequest, bs_misdirected_request),
     (kUnprocessableEntity, bs_unprocessable_entity), (kLocked, bs_locked),
     (kFailedDependency, bs_failed_dependency), (kUpgradeRequired, bs_upgrade_required),
     (kPreconditionRequired, bs_precondition_required),
     (kTooManyRequests, bs_too_many_requests),
     (kRequestHeaderFieldsTooLarge, bs_request_header_fields_too_large),
     (kUnavailableForLegalReasons, bs_unavailable_for_legal_reasons),
     (kClientClosedRequest, bs_client_closed_request),
     (kInternalServerError, bs_internal_server_error),
     (kNotImplemented, bs_not_implemented), (kBadGateway, bs_bad_gateway),
     (kServiceUnavailable, bs_service_unavailable), (kGatewayTimeout, bs_gateway_timeout),
     (kHttpVersionNotSupported, bs_http_version_not_supported),
     (kVariantAlsoNegotiates, bs_variant_also_negotiates),
     (kInsufficientStorage, bs_insufficient_storage), (kLoopDetected, bs_loop_detected),
     (kNotExtended, bs_not_extended),
     (kNetworkAuthenticationRequired, bs_network_authentication_required)]"

definition beast_status_by_http_status :: "'d lib \<Rightarrow> (HttpStatus, beast_status) bimap" where
  "beast_status_by_http_status L = MakeBimap L (=) beast_status_list"

definition HttpStatusEnumToBeastStatus :: "'d lib \<Rightarrow> HttpStatus \<Rightarrow> beast_status" where
  "HttpStatusEnumToBeastStatus L http_status =
     (case bimap_left_find (=) http_status (beast_status_by_http_status L) of
        Some st \<Rightarrow> st
      | None \<Rightarrow> bs_unknown)"

section \<open>Exceptions\<close>

text \<open>
  What \<open>catch\<close> can tell apart: the program's \<open>HttpException\<close> with its message and status, any
  other \<open>std::exception\<close> with its message, and anything else.
\<close>

datatype exn =
    HttpException string HttpStatus
  | StdException string
  | UnknownException

primrec what :: "exn \<Rightarrow> string" where
  "what (HttpException msg st) = msg"
| "what (StdException msg) = msg"
| "what UnknownException = []"

text \<open>
  A body either throws or runs into undefined behaviour, here the dereference of an empty
  \<open>boost::system::result\<close>; no handler catches the second.
\<close>

datatype fault = Throws exn | Undefined

type_synonym 'a res = "fault + 'a"

abbreviation throw_exn :: "exn \<Rightarrow> 'a res" where
  "throw_exn e \<equiv> Inl (Throws e)"

primrec GetHttpStatus :: "exn \<Rightarrow> HttpStatus option" where
  "GetHttpStatus (HttpException msg st) = Some st"
| "GetHttpStatus (StdException msg) = None"
| "GetHttpStatus UnknownException = None"

section \<open>Facts\<close>

lemma beast_status_list_left: "map (http_status_value \<circ> fst) beast_status_list =
    map (beast_status_int \<circ> snd) beast_status_list"
  by (simp add: beast_status_list_def)

lemma beast_status_list_distinct: "distinct (map (beast_status_int \<circ> snd) beast_status_list)"
  by (simp add: beast_status_list_def)

lemma beast_status_list_ok: "bimap_list_ok (=) beast_status_list"
proof -
  have "distinct (map (http_status_value \<circ> fst) beast_status_list)"
    by (simp only: beast_status_list_left beast_status_list_distinct)
  then have "distinct (map fst beast_status_list)"
    by (metis distinct_map list.map_comp)
  moreover have "distinct (map snd beast_status_list)"
    using beast_status_list_distinct by (metis distinct_map list.map_comp)
  ultimately show ?thesis by (simp add: bimap_list_ok_def kv_distinct_iff_distinct)
qed

lemma beast_status_table: "bimap_laws L \<Longrightarrow> beast_status_by_http_status L = beast_status_list"
  by (simp add: beast_status_by_http_status_def std_key.MakeBimap_all beast_status_list_ok)

lemma beast_status_list_total: "\<exists>b. map_find st beast_status_list = Some b \<and>
    beast_status_int b = http_status_value st"
  by (cases st) (simp_all add: beast_status_list_def)

lemma HttpStatusEnumToBeastStatus_int:
  "bimap_laws L \<Longrightarrow>
    beast_status_int (HttpStatusEnumToBeastStatus L st) = http_status_value st"
  using beast_status_list_total [of st]
  by (auto simp: HttpStatusEnumToBeastStatus_def beast_status_table bimap_left_find_def)

end
