(* ===== verification/Form_Data.thy ===== *)
theory Form_Data
  imports Http_Status
begin

text \<open>
  \<open>engine/src/utils/x_www_form_urlencoded.cpp\<close>: the body of a POST or PATCH request.
  The result is an \<open>unordered_map\<close> from field names to values; a repeated name keeps its
  first value.  The separator set is the C++ literal \<open>"\\&"\<close>, a backslash and an ampersand.
\<close>

section \<open>Definitions\<close>

type_synonym form_data = "(string, string) kv"

definition pair_separator :: "char \<Rightarrow> bool" where
  "pair_separator c = (c = CHR 0x5C \<or> c = CHR ''&'')"

definition form_error :: "string" where
  "form_error = ''Error while parsing x-www-form-urlencoded string''"

definition insert_pair :: "'d lib \<Rightarrow> string \<Rightarrow> form_data \<Rightarrow> form_data res" where
  "insert_pair L pair flds =
     (let key_value = lib_split L (\<lambda>c. c = CHR ''='') pair; size = length key_value
      in if size = 0 \<or> size > 2 then throw_exn (StdException form_error)
         else Inr (kv_insert (=) (UrlDecode (key_value ! 0))
                (if size = 2 then UrlDecode (key_value ! 1) else []) flds))"

definition ParseXWWWWFormUrlencodedStr :: "'d lib \<Rightarrow> string \<Rightarrow> form_data res" where
  "ParseXWWWWFormUrlencodedStr L str =
     (if str = [] then Inr []
      else let pairs = lib_split L pair_separator str
           in if pairs = [] then throw_exn (StdException form_error)
              else fold_res (insert_pair L) pairs [])"

section \<open>Splitting\<close>

lemma split_no_separator:
  assumes "split_laws L" and "\<forall>c \<in> set s. \<not> p c"
  shows "lib_split L p s = [s]"
  using assms by (induction s) (auto simp: split_laws_def)

lemma split_at_separator:
  assumes "split_laws L" and "\<forall>c \<in> set a. \<not> p c" and "p x"
  shows "lib_split L p (a @ x # s) = a # lib_split L p s"
  using assms by (induction a) (auto simp: split_laws_def)

lemma split_nonempty: "split_laws L \<Longrightarrow> lib_split L p s \<noteq> []"
proof (induction s)
  case (Cons c s)
  then show ?case by (cases "p c") (auto simp: split_laws_def)
qed (simp add: split_laws_def)

section \<open>Encoding a form\<close>

definition encode_pair :: "string \<times> string \<Rightarrow> string" where
  "encode_pair kv = UrlEncode (fst kv) @ CHR ''='' # UrlEncode (snd kv)"

fun encode_form :: "(string \<times> string) list \<Rightarrow> string" where
  "encode_form [] = []"
| "encode_form [kv] = encode_pair kv"
| "encode_form (kv # kvs) = encode_pair kv @ CHR ''&'' # encode_form kvs"

definition encodable :: "string \<times> string \<Rightarrow> bool" where
  "encodable kv \<longleftrightarrow> CHR 0xFF \<notin> set (fst kv) \<and> CHR 0xFF \<notin> set (snd kv)"

lemma alnum_not_separator:
  "ascii_alnum c \<or> c = CHR ''%'' \<Longrightarrow> \<not> pair_separator c \<and> c \<noteq> CHR ''=''"
  by (auto simp: pair_separator_def ascii_alnum_def)

lemma UrlEncode_no_separator:
  "c \<in> set (UrlEncode s) \<Longrightarrow> \<not> pair_separator c \<and> c \<noteq> CHR ''=''"
  using UrlEncode_chars alnum_not_separator by blast

lemma encode_pair_no_separator: "c \<in> set (encode_pair kv) \<Longrightarrow> \<not> pair_separator c"
  by (auto simp: encode_pair_def pair_separator_def dest: UrlEncode_no_separator)

lemma encode_pair_nonempty: "encode_pair kv \<noteq> []"
  by (simp add: encode_pair_def)

lemma split_encode_form:
  "split_laws L \<Longrightarrow> kvs \<noteq> [] \<Longrightarrow>
     lib_split L pair_separator (encode_form kvs) = map encode_pair kvs"
proof (induction kvs rule: encode_form.induct)
  case (2 kv)
  then show ?case by (simp add: split_no_separator encode_pair_no_separator)
next
  case (3 kv kv' kvs)
  have "lib_split L pair_separator (encode_pair kv @ CHR ''&'' # encode_form (kv' # kvs)) =
      encode_pair kv # lib_split L pair_separator (encode_form (kv' # kvs))"
    by (rule split_at_separator)
      (auto simp: 3 encode_pair_no_separator, simp add: pair_separator_def)
  with 3 show ?case by simp
qed simp

lemma insert_encoded_pair:
  assumes "split_laws L" and "encodable kv"
  shows "insert_pair L (encode_pair kv) flds = Inr (kv_insert (=) (fst kv) (snd kv) flds)"
proof -
  have "lib_split L (\<lambda>c. c = CHR ''='') (encode_pair kv) = [UrlEncode (fst kv), UrlEncode (snd kv)]"
    using assms(1) unfolding encode_pair_def
    by (subst split_at_separator) (auto dest: UrlEncode_no_separator intro!: split_no_separator)
  with assms(2) show ?thesis
    by (simp add: insert_pair_def encodable_def UrlDecode_UrlEncode_id)
qed

lemma fold_insert_encoded:
  assumes "split_laws L" and "\<forall>kv \<in> set kvs. encodable kv"
    and "distinct (map fst (flds @ kvs))"
  shows "fold_res (insert_pair L) (map encode_pair kvs) flds = Inr (flds @ kvs)"
  using assms(2,3)
proof (induction kvs arbitrary: flds)
  case (Cons kv kvs)
  have "map_find (fst kv) flds = None"
    using Cons.prems(2) by (auto simp: map_find_eq_map_of map_of_eq_None_iff)
  then have "insert_pair L (encode_pair kv) flds = Inr (flds @ [kv])"
    using Cons.prems(1) assms(1) by (simp add: insert_encoded_pair kv_insert_def)
  with Cons.IH [of "flds @ [kv]"] Cons.prems show ?case by simp
qed simp

lemma encode_form_nonempty: "kvs \<noteq> [] \<Longrightarrow> encode_form kvs \<noteq> []"
  by (induction kvs rule: encode_form.induct) (auto simp: encode_pair_nonempty)

text \<open>
  C24: a form whose fields have distinct names and no byte 0xFF is read back from its
  encoding, field by field and in order.
\<close>

theorem form_roundtrip:
  assumes "split_laws L" and "distinct (map fst kvs)" and "\<forall>kv \<in> set kvs. encodable kv"
  shows "ParseXWWWWFormUrlencodedStr L (encode_form kvs) = Inr kvs"
proof (cases "kvs = []")
  case False
  with assms show ?thesis
    using fold_insert_encoded [of L kvs "[]"]
    by (simp add: ParseXWWWWFormUrlencodedStr_def encode_form_nonempty split_encode_form)
qed (simp add: ParseXWWWWFormUrlencodedStr_def)

theorem form_roundtrip_witness:
  "ParseXWWWWFormUrlencodedStr ref_lib (encode_form [(''rate'', ''1.5''), (''name'', ''a&b'')]) =
     Inr [(''rate'', ''1.5''), (''name'', ''a&b'')]"
  by (rule form_roundtrip) (simp_all add: encodable_def)

section \<open>Every branch of the parser\<close>

text \<open>
  Only the number of equal signs in a pair can make the parser fail.
\<close>

definition pair_ok :: "'d lib \<Rightarrow> string \<Rightarrow> bool" where
  "pair_ok L pair \<longleftrightarrow> length (lib_split L (\<lambda>c. c = CHR ''='') pair) \<in> {1, 2}"

lemma insert_pair_result:
  assumes "split_laws L"
  shows "insert_pair L pair flds =
     (if pair_ok L pair then insert_pair L pair flds else throw_exn (StdException form_error))"
  and "pair_ok L pair \<Longrightarrow> \<exists>flds'. insert_pair L pair flds = Inr flds'"
  using split_nonempty [OF assms, of "\<lambda>c. c = CHR ''=''" pair]
  by (auto simp: insert_pair_def pair_ok_def Let_def neq_Nil_conv not_less_eq_eq le_Suc_eq
      dest!: not_less [THEN iffD1])

lemma fold_insert_result:
  assumes "split_laws L"
  shows "(\<forall>p \<in> set ps. pair_ok L p) \<Longrightarrow> \<exists>fs. fold_res (insert_pair L) ps flds = Inr fs"
    and "\<not> (\<forall>p \<in> set ps. pair_ok L p) \<Longrightarrow>
           fold_res (insert_pair L) ps flds = throw_exn (StdException form_error)"
proof (induction ps arbitrary: flds)
  case (Cons p ps)
  {
    case 1
    then obtain fs where "insert_pair L p flds = Inr fs"
      using insert_pair_result(2) [OF assms, of p flds] by auto
    with 1 Cons.IH(1) show ?case by simp
  next
    case 2
    show ?case
    proof (cases "pair_ok L p")
      case True
      then obtain fs where "insert_pair L p flds = Inr fs"
        using insert_pair_result(2) [OF assms, of p flds] by auto
      with 2 True Cons.IH(2) show ?thesis by simp
    next
      case False
      then show ?thesis using insert_pair_result(1) [OF assms, of p flds] by simp
    qed
  }
qed simp_all

lemma insert_pair_distinct:
  "insert_pair L p flds = Inr flds' \<Longrightarrow> distinct (map fst flds) \<Longrightarrow> distinct (map fst flds')"
  by (auto simp: insert_pair_def Let_def kv_distinct_iff_distinct [symmetric]
      std_key.distinct_insert split: if_splits)

lemma ParseForm_distinct:
  "ParseXWWWWFormUrlencodedStr L s = Inr flds \<Longrightarrow> distinct (map fst flds)"
  using fold_res_invariant [where I = "\<lambda>fs. distinct (map fst fs)" and f = "insert_pair L"
      and xs = "lib_split L pair_separator s" and s = "[]"]
  by (auto simp: ParseXWWWWFormUrlencodedStr_def Let_def insert_pair_distinct split: if_splits)

end
