(* ===== verification/Logger.thy ===== *)
theory Logger
  imports Case_Insensitive
begin

text \<open>
  \<open>engine/src/utils/logger.hpp\<close> and \<open>logger.cpp\<close>: levels, their names, the filter of the
  \<open>LOG\<close> macro and the default logger.  An \<open>spdlog\<close> logger is its name, level, pattern and
  the list of records it was handed.
\<close>

section \<open>Levels\<close>

datatype Level = lvl_trace | lvl_debug | lvl_info | lvl_warn | lvl_error | lvl_critical | lvl_off

primrec level_int :: "Level \<Rightarrow> int" where
  "level_int lvl_trace = 0"
| "level_int lvl_debug = 1"
| "level_int lvl_info = 2"
| "level_int lvl_warn = 3"
| "level_int lvl_error = 4"
| "level_int lvl_critical = 5"
| "level_int lvl_off = 6"

lemma level_int_inject [simp]: "level_int a = level_int b \<longleftrightarrow> a = b"
  by (cases a; cases b) simp_all

text \<open>The enumeration is compared by its integer values.\<close>

instantiation Level :: linorder
begin

definition less_eq_Level :: "Level \<Rightarrow> Level \<Rightarrow> bool" where
  "less_eq_Level a b = (level_int a \<le> level_int b)"

definition less_Level :: "Level \<Rightarrow> Level \<Rightarrow> bool" where
  "less_Level a b = (level_int a < level_int b)"

instance
  by standard (auto simp: less_eq_Level_def less_Level_def)

end

definition log_level_list :: "(string \<times> Level) list" where
  "log_level_list =
    [(''trace'', lvl_trace), (''debug'', lvl_debug), (''info'', lvl_info), (''warn'', lvl_warn),
     (''error'', lvl_error), (''critical'', lvl_critical), (''off'', lvl_off)]"

definition log_level_enum_by_string :: "'d lib \<Rightarrow> (string, Level) bimap" where
  "log_level_enum_by_string L = MakeBimap L (IEqualTo L) log_level_list"

definition ToLogLevelEnum :: "'d lib \<Rightarrow> string \<Rightarrow> Level option" where
  "ToLogLevelEnum L lvl = bimap_left_find (IEqualTo L) lvl (log_level_enum_by_string L)"

section \<open>Loggers\<close>

record logger =
  lg_name :: string
  lg_level :: Level
  lg_pattern :: string
  lg_records :: "(Level \<times> string) list"

definition kDefaultLogFormat :: string where
  "kDefaultLogFormat = ''[%Y-%m-%d %T.%e][%t][%l] [%g:%#] %v''"

definition GetLevel :: "logger \<Rightarrow> Level" where
  "GetLevel lg = lg_level lg"

definition SetLevel :: "logger \<Rightarrow> Level \<Rightarrow> logger" where
  "SetLevel lg lvl = lg\<lparr>lg_level := lvl\<rparr>"

definition SetLogFormat :: "logger \<Rightarrow> string \<Rightarrow> logger" where
  "SetLogFormat lg fmt = lg\<lparr>lg_pattern := fmt\<rparr>"

text \<open>A fresh \<open>spdlog\<close> logger has level \<open>info\<close>; the base constructor sets the pattern.\<close>

definition LoggerBase :: "string \<Rightarrow> logger" where
  "LoggerBase name =
     SetLogFormat \<lparr>lg_name = name, lg_level = lvl_info, lg_pattern = [], lg_records = []\<rparr>
       kDefaultLogFormat"

definition Logger_new :: "string \<Rightarrow> Level \<Rightarrow> logger" where
  "Logger_new log_path lvl = SetLevel (LoggerBase ''main'') lvl"

definition StdoutLogger :: "string \<Rightarrow> logger" where
  "StdoutLogger logger_name = SetLevel (LoggerBase logger_name) lvl_trace"

definition MakeLogger :: "string \<Rightarrow> Level \<Rightarrow> logger" where
  "MakeLogger log_path lvl = Logger_new log_path lvl"

definition Log :: "logger \<Rightarrow> Level \<Rightarrow> string \<Rightarrow> logger" where
  "Log lg lvl msg = lg\<lparr>lg_records := lg_records lg @ [(lvl, msg)]\<rparr>"

definition CHECK_LOG_LEVEL :: "logger \<Rightarrow> Level \<Rightarrow> bool" where
  "CHECK_LOG_LEVEL lg lvl = (lvl \<ge> GetLevel lg)"

definition LOG_TO_LOGGER :: "logger \<Rightarrow> Level \<Rightarrow> string \<Rightarrow> logger" where
  "LOG_TO_LOGGER lg lvl msg = (if CHECK_LOG_LEVEL lg lvl then Log lg lvl msg else lg)"

text \<open>The static default logger, and replacing it.\<close>

definition StaticDefaultLogger :: logger where
  "StaticDefaultLogger = StdoutLogger ''stdout''"

definition SetDefaultLogger :: "logger \<Rightarrow> logger \<Rightarrow> logger" where
  "SetDefaultLogger old l = l"

section \<open>Facts\<close>

lemma log_level_list_ok: "bimap_list_ok same_upper log_level_list"
  by (simp add: bimap_list_ok_def log_level_list_def same_upper_def ascii_upper_def)

lemma log_level_table:
  "bimap_laws L \<Longrightarrow> string_algo_laws L \<Longrightarrow> log_level_enum_by_string L = log_level_list"
  by (simp add: log_level_enum_by_string_def IEqualTo_same_upper ci_key.MakeBimap_all
      log_level_list_ok)

lemma ToLogLevelEnum_eq:
  "bimap_laws L \<Longrightarrow> string_algo_laws L \<Longrightarrow>
     ToLogLevelEnum L s = kv_find same_upper s log_level_list"
  by (simp add: ToLogLevelEnum_def log_level_table bimap_left_find_def IEqualTo_same_upper)

lemma log_level_names:
  "map (\<lambda>p. kv_find same_upper (fst p) log_level_list) log_level_list =
     map (\<lambda>p. Some (snd p)) log_level_list"
  by (simp add: log_level_list_def same_upper_def ascii_upper_def)

lemma LOG_keeps_records: "\<exists>rs. lg_records (LOG_TO_LOGGER lg lvl msg) = lg_records lg @ rs"
  by (simp add: LOG_TO_LOGGER_def Log_def)

text \<open>Every record of a run of \<open>LOG\<close> calls on a fresh logger passed the level filter.\<close>

fun log_all :: "logger \<Rightarrow> (Level \<times> string) list \<Rightarrow> logger" where
  "log_all lg [] = lg"
| "log_all lg ((lvl, msg) # ms) = log_all (LOG_TO_LOGGER lg lvl msg) ms"

lemma log_all_level [simp]: "lg_level (log_all lg ms) = lg_level lg"
  by (induction lg ms rule: log_all.induct) (auto simp: LOG_TO_LOGGER_def Log_def)

lemma log_all_records:
  "lg_records (log_all lg ms) = lg_records lg @ filter (\<lambda>(lvl, msg). lg_level lg \<le> lvl) ms"
  by (induction lg ms rule: log_all.induct)
    (auto simp: LOG_TO_LOGGER_def Log_def CHECK_LOG_LEVEL_def GetLevel_def)

end
