(* ===== verification/Models.thy ===== *)
theory Models
  imports Http_Status
begin

text \<open>
  The rows of the service: \<open>src/src/models\<close>, the SQL statements of \<open>src/src/sql/sql.hpp\<close> with
  their parameters, \<open>calcs.cpp\<close>, \<open>make_error.cpp\<close> and the JSON documents of \<open>dto.cpp\<close>.
\<close>

section \<open>Rows\<close>

record currency =
  currency_id :: i32
  code :: string
  full_name :: string
  sign :: string

record exchange_rate =
  exchange_rate_id :: i32
  base_currency_id :: i32
  target_currency_id :: i32
  rate :: string

record exchange_rate_with_currencies =
  wc_exchange_rate_id :: i32
  wc_base_currency_id :: i32
  wc_base_currency_code :: string
  wc_base_currency_full_name :: string
  wc_base_currency_sign :: string
  wc_target_currency_id :: i32
  wc_target_currency_code :: string
  wc_target_currency_full_name :: string
  wc_target_currency_sign :: string
  wc_rate :: string

section \<open>Statements\<close>

text \<open>A raw string literal, line by line.\<close>

fun sql_lines :: "string list \<Rightarrow> string" where
  "sql_lines [] = []"
| "sql_lines [l] = l"
| "sql_lines (l # ls) = l @ CHR 0x0A # sql_lines ls"

definition kInsertNewCurrency :: string where
  "kInsertNewCurrency = sql_lines
    ['''',
     ''INSERT INTO '',
     ''    curr_exchange.currencies(code, full_name, sign) '',
     ''VALUES '',
     ''    ($1, $2, $3)'',
     ''RETURNING '',
     ''    currency_id, full_name, code, sign'',
     '''']"

definition kInsertNewExchangeRate :: string where
  "kInsertNewExchangeRate = sql_lines
    ['''',
     ''INSERT INTO '',
     ''    curr_exchange.exchange_rates(base_currency_id, target_currency_id, rate) '',
     ''VALUES'',
     ''    ($1, $2, $3::numeric(8,6)) '',
     ''RETURNING '',
     ''    exchange_rate_id'',
     '''']"

definition kSelectExchangeRateWithCurrenciesById :: string where
  "kSelectExchangeRateWithCurrenciesById = sql_lines
    ['''',
     ''SELECT '',
     ''    exchange_rate_id, '',
     ''    base_curr.currency_id as base_currency_id, '',
     ''    base_curr.code as base_currency_code, '',
     ''    base_curr.full_name as base_currency_full_name, '',
     ''    base_curr.sign as base_currency_sign,'',
     ''    target_curr.currency_id as target_currency_id, '',
     ''    target_curr.code as target_currency_code, '',
     ''    target_curr.full_name as target_currency_full_name, '',
     ''    target_curr.sign as target_currency_sign,'',
     ''    rate::text'',
     ''FROM '',
     ''    curr_exchange.exchange_rates AS exch_rates'',
     ''INNER JOIN '',
     ''    curr_exchange.currencies AS base_curr '',
     ''ON '',
     ''    base_curr.currency_id = exch_rates.base_currency_id '',
     ''INNER JOIN '',
     ''    curr_exchange.currencies AS target_curr '',
     ''ON '',
     ''    target_curr.currency_id = exch_rates.target_currency_id WHERE exchange_rate_id = $1'',
     '''']"

definition kUpdateExchangeRateByCurrPair :: string where
  "kUpdateExchangeRateByCurrPair = sql_lines
    ['''',
     ''UPDATE '',
     ''    curr_exchange.exchange_rates AS exch_rates '',
     ''SET '',
     ''    rate=$1::numeric(8,6) '',
     ''WHERE '',
     ''    exch_rates.base_currency_id=$2 AND'',
     ''    exch_rates.target_currency_id=$3'',
     ''RETURNING '',
     ''    exchange_rate_id'',
     '''']"

definition kUpdateCurrenciesCache :: string where
  "kUpdateCurrenciesCache = sql_lines
    ['''',
     ''SELECT '',
     ''    currency_id, code, full_name, sign '',
     ''FROM '',
     ''    curr_exchange.currencies '',
     ''WHERE'',
     ''    updated_at > $1::timestamptz'',
     '''']"

definition kFullUpdateCurrenciesCache :: string where
  "kFullUpdateCurrenciesCache = sql_lines
    ['''',
     ''SELECT '',
     ''    currency_id, code, full_name, sign '',
     ''FROM '',
     ''    curr_exchange.currencies'',
     '''']"

definition kUpdateExchangeRatesCache :: string where
  "kUpdateExchangeRatesCache = sql_lines
    ['''',
     ''SELECT '',
     ''    exchange_rate_id, base_currency_id, target_currency_id, rate::text '',
     ''FROM '',
     ''    curr_exchange.exchange_rates '',
     ''WHERE '',
     ''    updated_at > $1::timestamptz'',
     '''']"

definition kFullUpdateExchangeRatesCache :: string where
  "kFullUpdateExchangeRatesCache = sql_lines
    ['''',
     ''SELECT '',
     ''    exchange_rate_id, base_currency_id, target_currency_id, rate::text'',
     ''FROM '',
     ''    curr_exchange.exchange_rates'',
     '''']"

text \<open>
  A query is a statement and the values bound to \<open>$1\<close>, \<open>$2\<close>, and so on; \<open>placeholders\<close> is the
  number of values a statement asks for, the largest number after a dollar sign.
\<close>

datatype sql_value = PgInt i32 | PgText string

type_synonym query = "string \<times> sql_value list"

definition make_query :: "string \<Rightarrow> sql_value list \<Rightarrow> query" where
  "make_query sql params = (sql, params)"

fun placeholders :: "string \<Rightarrow> nat" where
  "placeholders (c # d # s) =
     (if c = CHR ''$'' \<and> 48 \<le> (of_char d :: nat) \<and> (of_char d :: nat) \<le> 57
      then max (of_char d - 48) (placeholders s) else placeholders (d # s))"
| "placeholders s = 0"

section \<open>Calculations\<close>

definition CalcConvAmount :: "'d lib \<Rightarrow> 'd \<Rightarrow> 'd \<Rightarrow> 'd" where
  "CalcConvAmount L rt amount = lib_dec_mul L amount rt"

definition CalcReverseRate :: "'d lib \<Rightarrow> 'd \<Rightarrow> 'd" where
  "CalcReverseRate L rt = lib_dec_div L (lib_dec_one L) rt"

text \<open>The constructor of \<open>Decimal\<close> throws on text that is not a number.\<close>

definition Decimal :: "'d lib \<Rightarrow> string \<Rightarrow> 'd res" where
  "Decimal L s =
     (case lib_dec_of_string L s of
        None \<Rightarrow> throw_exn (StdException ''Decimal'') | Some d \<Rightarrow> Inr d)"

definition CalcRateByUsdExchRates :: "'d lib \<Rightarrow> string \<Rightarrow> string \<Rightarrow> 'd res" where
  "CalcRateByUsdExchRates L usd_base_rate usd_target_rate =
     res_bind (Decimal L usd_target_rate) (\<lambda>t.
     res_bind (Decimal L usd_base_rate) (\<lambda>b. Inr (lib_dec_div L t b)))"

section \<open>Documents\<close>

definition MakeError :: "'d lib \<Rightarrow> string \<Rightarrow> string" where
  "MakeError L msg = lib_json_dump L (JObject [(''msg'', JString msg)])"

definition FromChars_double :: "'d lib \<Rightarrow> string \<Rightarrow> (64 word) res" where
  "FromChars_double L s =
     (case lib_from_chars_double L s of
        None \<Rightarrow> throw_exn (StdException ''FromChars error'') | Some v \<Rightarrow> Inr v)"

definition MakeCurrencyDtoJson :: "currency \<Rightarrow> json" where
  "MakeCurrencyDtoJson cy = JObject
     [(''currency_id'', JInt (currency_id cy)),
      (''code'', JString (code cy)),
      (''full_name'', JString (full_name cy)),
      (''sign'', JString (sign cy))]"

text \<open>\<open>FromChars<double>(Decimal{rate}.str(2, std::ios::fixed))\<close>.\<close>

definition rate_to_double :: "'d lib \<Rightarrow> string \<Rightarrow> (64 word) res" where
  "rate_to_double L r =
     res_bind (Decimal L r) (\<lambda>d. FromChars_double L (lib_dec_str2 L d))"

definition MakeExchangeRateDtoJson ::
  "'d lib \<Rightarrow> exchange_rate \<Rightarrow> json \<Rightarrow> json \<Rightarrow> json res" where
  "MakeExchangeRateDtoJson L exch_rate base_curr target_curr =
     res_bind (rate_to_double L (rate exch_rate)) (\<lambda>r. Inr (JObject
       [(''id'', JInt (exchange_rate_id exch_rate)),
        (''baseCurrency'', base_curr),
        (''targetCurrency'', target_curr),
        (''rate'', JDouble r)]))"

definition MakeExchangeRateWithCurrDtoJson ::
  "'d lib \<Rightarrow> exchange_rate_with_currencies \<Rightarrow> json res" where
  "MakeExchangeRateWithCurrDtoJson L r =
     (let base_curr_json = JObject
            [(''currency_id'', JInt (wc_base_currency_id r)),
             (''code'', JString (wc_base_currency_code r)),
             (''full_name'', JString (wc_base_currency_full_name r)),
             (''sign'', JString (wc_base_currency_sign r))];
          target_curr_json = JObject
            [(''currency_id'', JInt (wc_target_currency_id r)),
             (''code'', JString (wc_target_currency_code r)),
             (''full_name'', JString (wc_target_currency_full_name r)),
             (''sign'', JString (wc_target_currency_sign r))]
      in res_bind (rate_to_double L (wc_rate r)) (\<lambda>v. Inr (JObject
           [(''id'', JInt (wc_exchange_rate_id r)),
            (''baseCurrency'', base_curr_json),
            (''targetCurrency'', target_curr_json),
            (''rate'', JDouble v)])))"

definition MakeConvertedAmountDtoJson ::
  "'d lib \<Rightarrow> currency \<Rightarrow> currency \<Rightarrow> string \<Rightarrow> string \<Rightarrow> string \<Rightarrow> json res" where
  "MakeConvertedAmountDtoJson L base_curr target_curr rate_str amount_str converted_amount_str =
     res_bind (FromChars_double L rate_str) (\<lambda>r.
     res_bind (FromChars_double L amount_str) (\<lambda>a.
     res_bind (FromChars_double L converted_amount_str) (\<lambda>c. Inr (JObject
       [(''baseCurrency'', JObject
          [(''currency_id'', JInt (currency_id base_curr)),
           (''code'', JString (code base_curr)),
           (''full_name'', JString (full_name base_curr)),
           (''sign'', JString (sign base_curr))]),
        (''targetCurrency'', JObject
          [(''currency_id'', JInt (currency_id target_curr)),
           (''code'', JString (code target_curr)),
           (''full_name'', JString (full_name target_curr)),
           (''sign'', JString (sign target_curr))]),
        (''rate'', JDouble r),
        (''amount'', JDouble a),
        (''convertedAmount'', JDouble c)]))))"

section \<open>Facts\<close>

lemma placeholders_of_statements:
  "map placeholders
     [kInsertNewCurrency, kInsertNewExchangeRate, kSelectExchangeRateWithCurrenciesById,
      kUpdateExchangeRateByCurrPair, kUpdateCurrenciesCache, kFullUpdateCurrenciesCache,
      kUpdateExchangeRatesCache, kFullUpdateExchangeRatesCache] = [3, 3, 1, 3, 1, 0, 1, 0]"
  by code_simp

end
