(* ===== verification/Http_Tables.thy ===== *)
theory Http_Tables
  imports Http_Status
begin

text \<open>
  The other tables of the HTTP engine: \<open>http_method.cpp\<close> (methods by name and by Beast
  verb) and \<open>content_type.cpp\<close> (content types by name and by file extension).
\<close>

section \<open>Methods\<close>

datatype HttpMethod =
    kGet | kHead | kPost | kPut | kDelete | kConnect | kOptions | kTrace | kPatch | kUnknown

text \<open>
  \<open>http::verb\<close> has many more values than the table; all of them are one constructor here.
\<close>

datatype beast_verb =
    verb_get | verb_head | verb_post | verb_put | verb_delete | verb_connect | verb_options
  | verb_trace | verb_patch | verb_other string

definition http_method_list :: "(string \<times> HttpMethod) list" where
  "http_method_list =
    [(''get'', kGet),
     (''head'', kHead),
     (''post'', kPost),
     (''put'', kPut),
     (''delete'', kDelete),
     (''connect'', kConnect),
     (''options'', kOptions),
     (''trace'', kTrace),
     (''patch'', kPatch)]"

definition beast_verb_list :: "(beast_verb \<times> HttpMethod) list" where
  "beast_verb_list =
    [(verb_get, kGet),
     (verb_head, kHead),
     (verb_post, kPost),
     (verb_put, kPut),
     (verb_delete, kDelete),
     (verb_connect, kConnect),
     (verb_options, kOptions),
     (verb_trace, kTrace),
     (verb_patch, kPatch)]"

definition http_method_enum_by_string :: "'d lib \<Rightarrow> (string, HttpMethod) bimap" where
  "http_method_enum_by_string L = MakeBimap L (IEqualTo L) http_method_list"

definition http_method_by_beast_verb :: "'d lib \<Rightarrow> (beast_verb, HttpMethod) bimap" where
  "http_method_by_beast_verb L = MakeBimap L (=) beast_verb_list"

definition ToHttpMethodEnum :: "'d lib \<Rightarrow> string \<Rightarrow> HttpMethod" where
  "ToHttpMethodEnum L string_http_method =
     (case bimap_left_find (IEqualTo L) string_http_method (http_method_enum_by_string L) of
        Some m \<Rightarrow> m | None \<Rightarrow> kUnknown)"

definition ToHttpMethodEnum_verb :: "'d lib \<Rightarrow> beast_verb \<Rightarrow> HttpMethod" where
  "ToHttpMethodEnum_verb L beast_http_method =
     (case bimap_left_find (=) beast_http_method (http_method_by_beast_verb L) of
        Some m \<Rightarrow> m | None \<Rightarrow> kUnknown)"

definition ToString_method :: "'d lib \<Rightarrow> HttpMethod \<Rightarrow> string" where
  "ToString_method L method =
     (case bimap_right_find method (http_method_enum_by_string L) of
        Some s \<Rightarrow> s | None \<Rightarrow> [])"

section \<open>Content types\<close>

datatype ContentType =
    kApplicationJson | kTextHtml | kTextCss | kTextPlain | kApplicationXml | kImagePng
  | kImageGif | kImageJpeg | kImageBmp | kAudioMpeg | kTextJavascript | kImageSvg | kTextXml
  | kImageXIco | kApplicationOctetStream | kApplicationXWWWFormUrlencoded

definition content_type_list :: "(ContentType \<times> string) list" where
  "content_type_list =
    [(kApplicationJson, ''application/json''),
     (kTextHtml, ''text/html''),
     (kTextCss, ''text/css''),
     (kTextPlain, ''text/plain''),
     (kImagePng, ''image/png''),
     (kImageJpeg, ''image/jpeg''),
     (kImageGif, ''image/gif''),
     (kImageBmp, ''image/bmp''),
     (kAudioMpeg, ''audio/mpeg''),
     (kTextJavascript, ''text/javascript''),
     (kImageSvg, ''image/svg+xml''),
     (kTextXml, ''text/xml''),
     (kApplicationXWWWFormUrlencoded, ''application/x-www-form-urlencoded''),
     (kApplicationOctetStream, ''application/octet-stream'')]"

definition file_extension_list :: "(string \<times> ContentType) list" where
  "file_extension_list =
    [(''.txt'', kTextPlain),
     (''.json'', kApplicationJson),
     (''.jpe'', kImageJpeg),
     (''.jpeg'', kImageJpeg),
     (''.jpg'', kImageJpeg),
     (''.htm'', kTextHtml),
     (''.html'', kTextHtml),
     (''.css'', kTextCss),
     (''.js'', kTextJavascript),
     (''.svg'', kImageSvg),
     (''.svgz'', kImageSvg),
     (''.xml'', kTextXml),
     (''.png'', kImagePng),
     (''.gif'', kImageGif),
     (''.ico'', kImageXIco),
     (''.bmp'', kImageBmp),
     (''.mp3'', kAudioMpeg)]"

definition string_by_content_type_enum :: "'d lib \<Rightarrow> (ContentType, string) bimap" where
  "string_by_content_type_enum L = MakeBimap L (=) content_type_list"

definition content_type_by_file_extension :: "'d lib \<Rightarrow> (string, ContentType) bimap" where
  "content_type_by_file_extension L = MakeBimap L (IEqualTo L) file_extension_list"

definition ToString_content_type :: "'d lib \<Rightarrow> ContentType \<Rightarrow> string" where
  "ToString_content_type L content_type =
     (case bimap_left_find (=) content_type (string_by_content_type_enum L) of
        Some s \<Rightarrow> s | None \<Rightarrow> ''application/octet-stream'')"

definition GetContentTypeByFileExtenstion :: "'d lib \<Rightarrow> string \<Rightarrow> ContentType" where
  "GetContentTypeByFileExtenstion L extension =
     (case bimap_left_find (IEqualTo L) extension (content_type_by_file_extension L) of
        Some ct \<Rightarrow> ct | None \<Rightarrow> kApplicationOctetStream)"

section \<open>Facts about the method tables\<close>

lemma http_method_list_ok: "bimap_list_ok same_upper http_method_list"
  by (simp add: bimap_list_ok_def http_method_list_def same_upper_def ascii_upper_def)

lemma beast_verb_list_ok: "bimap_list_ok (=) beast_verb_list"
  by (simp add: bimap_list_ok_def beast_verb_list_def)

lemma http_method_table:
  "bimap_laws L \<Longrightarrow> string_algo_laws L \<Longrightarrow> http_method_enum_by_string L = http_method_list"
  by (simp add: http_method_enum_by_string_def IEqualTo_same_upper ci_key.MakeBimap_all
      http_method_list_ok)

lemma beast_verb_table: "bimap_laws L \<Longrightarrow> http_method_by_beast_verb L = beast_verb_list"
  by (simp add: http_method_by_beast_verb_def std_key.MakeBimap_all beast_verb_list_ok)

lemma ToHttpMethodEnum_case_insensitive:
  assumes "string_algo_laws L" and "same_upper a b"
  shows "ToHttpMethodEnum L a = ToHttpMethodEnum L b"
  using assms ci_key.find_cong [of a b "http_method_enum_by_string L"]
  by (simp add: ToHttpMethodEnum_def bimap_left_find_def IEqualTo_same_upper)

lemma method_name_exists:
  "m \<noteq> kUnknown \<Longrightarrow> \<exists>s. map_find m (map prod.swap http_method_list) = Some s \<and>
     kv_find same_upper s http_method_list = Some m"
  by (cases m) (simp_all add: http_method_list_def same_upper_def ascii_upper_def)

lemma ToHttpMethodEnum_ToString:
  "bimap_laws L \<Longrightarrow> string_algo_laws L \<Longrightarrow> m \<noteq> kUnknown \<Longrightarrow>
     ToHttpMethodEnum L (ToString_method L m) = m"
  using method_name_exists [of m]
  by (auto simp: ToHttpMethodEnum_def ToString_method_def http_method_table bimap_left_find_def
      bimap_right_find_def IEqualTo_same_upper)

section \<open>Facts about the content-type tables\<close>

lemma content_type_list_ok: "bimap_list_ok (=) content_type_list"
  by (simp add: bimap_list_ok_def content_type_list_def)

lemma content_type_table: "bimap_laws L \<Longrightarrow> string_by_content_type_enum L = content_type_list"
  by (simp add: string_by_content_type_enum_def std_key.MakeBimap_all content_type_list_ok)

text \<open>
  Five extensions name a type an earlier extension already holds; the table is keyed by
  the type as well and drops them.
\<close>

definition kept_extensions :: "(string \<times> ContentType) list" where
  "kept_extensions =
    [(''.txt'', kTextPlain), (''.json'', kApplicationJson), (''.jpe'', kImageJpeg),
     (''.htm'', kTextHtml), (''.css'', kTextCss), (''.js'', kTextJavascript),
     (''.svg'', kImageSvg), (''.xml'', kTextXml), (''.png'', kImagePng), (''.gif'', kImageGif),
     (''.ico'', kImageXIco), (''.bmp'', kImageBmp), (''.mp3'', kAudioMpeg)]"

lemma file_extension_table:
  "bimap_laws L \<Longrightarrow> string_algo_laws L \<Longrightarrow> content_type_by_file_extension L = kept_extensions"
  by (simp add: content_type_by_file_extension_def MakeBimap_def bimap_insert_def kv_contains_def
      IEqualTo_same_upper same_upper_def ascii_upper_def bimap_laws_def file_extension_list_def
      kept_extensions_def)

text \<open>The extension table as the list in the source reads, without the dropped entries.\<close>

lemma GetContentTypeByFileExtenstion_kept:
  "bimap_laws L \<Longrightarrow> string_algo_laws L \<Longrightarrow>
     GetContentTypeByFileExtenstion L ext =
       (case kv_find same_upper ext kept_extensions of
          Some ct \<Rightarrow> ct | None \<Rightarrow> kApplicationOctetStream)"
  by (simp add: GetContentTypeByFileExtenstion_def bimap_left_find_def file_extension_table
      IEqualTo_same_upper)

end
