(* ===== verification/Http_Message.thy ===== *)
theory Http_Message
  imports Http_Tables
begin

text \<open>
  \<open>http_request.cpp\<close>, \<open>http_response.hpp\<close> and \<open>http_response.cpp\<close>.  A response object is the
  Beast message it builds and the calls it made on its session, in order; the session
  itself is the subject of the theory \<open>Session\<close>.
\<close>

section \<open>Requests\<close>

record beast_request =
  bq_method :: beast_verb
  bq_target :: string
  bq_version :: nat
  bq_keep_alive :: bool
  bq_body :: string

text \<open>A match result: the ids of the path template with the segments they matched.\<close>

type_synonym match_result = "(string \<times> string) list"

text \<open>\<open>match_result[id]\<close> is \<open>at(id)\<close>: the first match with the id, or \<open>std::out_of_range\<close>.\<close>

definition matches_at :: "match_result \<Rightarrow> string \<Rightarrow> string res" where
  "matches_at m i =
     (case map_find i m of Some s \<Rightarrow> Inr s | None \<Rightarrow> throw_exn (StdException []))"

text \<open>
  The other look-ups of \<open>matches_base\<close>, by position; iterators are positions.  The position of
  \<open>operator[]\<close> is only asserted.
\<close>

definition matches_at_pos :: "match_result \<Rightarrow> nat \<Rightarrow> string res" where
  "matches_at_pos m pos = (if pos < length m then Inr (snd (m ! pos)) else throw_exn (StdException []))"

definition matches_subscript :: "match_result \<Rightarrow> nat \<Rightarrow> string res" where
  "matches_subscript m pos = (if pos < length m then Inr (snd (m ! pos)) else Inl Undefined)"

fun matches_find :: "match_result \<Rightarrow> string \<Rightarrow> nat" where
  "matches_find [] i = 0"
| "matches_find ((i', s) # m) i = (if i' = i then 0 else Suc (matches_find m i))"

definition matches_end :: "match_result \<Rightarrow> nat" where
  "matches_end m = length m"

definition matches_empty :: "match_result \<Rightarrow> bool" where
  "matches_empty m \<longleftrightarrow> length m = 0"

text \<open>The search by id in its two forms: \<open>at\<close> throws exactly when \<open>find\<close> returns \<open>end\<close>.\<close>

lemma matches_at_find: "matches_at m i = matches_at_pos m (matches_find m i)"
  by (induction m i rule: matches_find.induct) (auto simp: matches_at_def matches_at_pos_def)

lemma matches_find_end: "matches_find m i = matches_end m \<longleftrightarrow> map_find i m = None"
  by (induction m i rule: matches_find.induct) (auto simp: matches_end_def)

record http_request =
  rq_match_result :: match_result
  rq_request :: beast_request
  rq_path :: string
  rq_query :: string

text \<open>
  The constructor dereferences the result of \<open>parse_origin_form\<close> unchecked: a target that is
  not in origin form is undefined behaviour.  \<open>path()\<close> and \<open>query()\<close> are decoded.
\<close>

definition HttpRequestImpl :: "'d lib \<Rightarrow> beast_request \<Rightarrow> http_request res" where
  "HttpRequestImpl L request =
     (case lib_parse_origin_form L (bq_target request) of
        None \<Rightarrow> Inl Undefined
      | Some (path, query) \<Rightarrow>
          Inr \<lparr>rq_match_result = [], rq_request = request,
               rq_path = lib_pct_decode L path, rq_query = lib_pct_decode L query\<rparr>)"

definition MakeHttpRequest :: "'d lib \<Rightarrow> beast_request \<Rightarrow> http_request res" where
  "MakeHttpRequest L request = HttpRequestImpl L request"

definition GetUri :: "http_request \<Rightarrow> string" where
  "GetUri rq = bq_target (rq_request rq)"

definition GetPath :: "http_request \<Rightarrow> string" where
  "GetPath rq = rq_path rq"

definition GetQuery :: "'d lib \<Rightarrow> http_request \<Rightarrow> (string \<times> string option) list option" where
  "GetQuery L rq = lib_parse_query L (rq_query rq)"

definition GetMethod :: "'d lib \<Rightarrow> http_request \<Rightarrow> HttpMethod" where
  "GetMethod L rq = ToHttpMethodEnum_verb L (bq_method (rq_request rq))"

definition GetMatchResult :: "http_request \<Rightarrow> match_result" where
  "GetMatchResult rq = rq_match_result rq"

definition GetBody :: "http_request \<Rightarrow> string" where
  "GetBody rq = bq_body (rq_request rq)"

definition SetMatchResult :: "http_request \<Rightarrow> match_result \<Rightarrow> http_request" where
  "SetMatchResult rq m = rq\<lparr>rq_match_result := m\<rparr>"

definition GetKeepAlive :: "http_request \<Rightarrow> bool" where
  "GetKeepAlive rq = bq_keep_alive (rq_request rq)"

definition GetHttpVersion :: "http_request \<Rightarrow> nat" where
  "GetHttpVersion rq = bq_version (rq_request rq)"

section \<open>Responses\<close>

record beast_response =
  br_status :: beast_status
  br_version :: nat
  br_connection :: "string option"
  br_content_type :: string
  br_body :: string

text \<open>A default-constructed Beast response: HTTP/1.1, status 200, no fields, no body.\<close>

definition beast_response_default :: beast_response where
  "beast_response_default =
     \<lparr>br_status = bs_ok, br_version = 11, br_connection = None, br_content_type = [],
      br_body = []\<rparr>"

text \<open>
  The calls on the session: \<open>Write\<close> of a string body, \<open>Write\<close> of a file body (the file named
  instead of its bytes), and \<open>Close\<close>.
\<close>

datatype session_call =
    Write beast_response
  | WriteFile beast_response string
  | Close_session

record http_response =
  rs_response :: beast_response
  rs_calls :: "session_call list"

definition HttpResponseImpl :: http_response where
  "HttpResponseImpl = \<lparr>rs_response = beast_response_default, rs_calls = []\<rparr>"

definition SetContentType :: "'d lib \<Rightarrow> ContentType \<Rightarrow> http_response \<Rightarrow> http_response" where
  "SetContentType L content_type rs =
     rs\<lparr>rs_response := (rs_response rs)\<lparr>br_content_type := ToString_content_type L content_type\<rparr>\<rparr>"

definition SetKeepAlive :: "'d lib \<Rightarrow> bool \<Rightarrow> http_response \<Rightarrow> http_response" where
  "SetKeepAlive L keep_alive rs =
     rs\<lparr>rs_response := (rs_response rs)
         \<lparr>br_connection := lib_keep_alive_set L (br_version (rs_response rs)) keep_alive\<rparr>\<rparr>"

definition SetStatusCode :: "'d lib \<Rightarrow> HttpStatus \<Rightarrow> http_response \<Rightarrow> http_response" where
  "SetStatusCode L http_status rs =
     rs\<lparr>rs_response := (rs_response rs)
         \<lparr>br_status := HttpStatusEnumToBeastStatus L http_status\<rparr>\<rparr>"

definition SetHttpVersion :: "nat \<Rightarrow> http_response \<Rightarrow> http_response" where
  "SetHttpVersion http_version rs =
     rs\<lparr>rs_response := (rs_response rs)\<lparr>br_version := http_version\<rparr>\<rparr>"

text \<open>
  Beast's \<open>prepare_payload()\<close> sets the content length.  It throws \<open>std::invalid_argument\<close> if
  there is a body that the status does not allow: 1xx, 204 and 304 have none.
\<close>

definition bodiless :: "nat \<Rightarrow> bool" where
  "bodiless st \<longleftrightarrow> st div 100 = 1 \<or> st = 204 \<or> st = 304"

definition prepare_payload :: "nat \<Rightarrow> beast_response \<Rightarrow> unit res" where
  "prepare_payload payload_size r =
     (if 0 < payload_size \<and> bodiless (beast_status_int (br_status r))
      then throw_exn (StdException ''invalid response body'') else Inr ())"

text \<open>
  What \<open>std::move\<close> leaves behind: the fields are gone and the body is a moved-from string;
  status and version are copied.
\<close>

definition moved_from :: "'d lib \<Rightarrow> beast_response \<Rightarrow> beast_response" where
  "moved_from L r =
     r\<lparr>br_connection := None, br_content_type := [], br_body := lib_moved_string L (br_body r)\<rparr>"

text \<open>A call on a response object: the object after it, and the exception it threw, if any.\<close>

type_synonym response_call = "http_response \<times> unit res"

definition Send :: "'d lib \<Rightarrow> string \<Rightarrow> http_response \<Rightarrow> response_call" where
  "Send L data rs =
     (let r = (if data \<noteq> [] then (rs_response rs)\<lparr>br_body := data\<rparr> else rs_response rs)
      in case prepare_payload (length (br_body r)) r of
           Inl e \<Rightarrow> (rs\<lparr>rs_response := r\<rparr>, Inl e)
         | Inr u \<Rightarrow> (\<lparr>rs_response = moved_from L r, rs_calls = rs_calls rs @ [Write r]\<rparr>, Inr ()))"

definition Close :: "http_response \<Rightarrow> http_response" where
  "Close rs = rs\<lparr>rs_calls := rs_calls rs @ [Close_session]\<rparr>"

section \<open>Files\<close>

text \<open>
  \<open>std::filesystem::path::extension()\<close>: from the last dot of the file name, unless there is
  none or it starts the name.
\<close>

definition path_filename :: "string \<Rightarrow> string" where
  "path_filename path = rev (takeWhile (\<lambda>c. c \<noteq> CHR ''/'') (rev path))"

definition path_extension :: "string \<Rightarrow> string" where
  "path_extension path =
     (let name = path_filename path;
          tail = takeWhile (\<lambda>c. c \<noteq> CHR ''.'') (rev name)
      in if name = ''.'' \<or> name = ''..'' \<or> CHR ''.'' \<notin> set name \<or> length name = Suc (length tail)
         then [] else CHR ''.'' # rev tail)"

text \<open>
  A file system says of a path whether it exists and whether it can be opened
  (\<open>Some code\<close>: the error code of \<open>open\<close>), and its size.
\<close>

record file_system =
  fs_exists :: "string \<Rightarrow> bool"
  fs_open :: "string \<Rightarrow> string option"
  fs_size :: "string \<Rightarrow> nat"

definition OpenFileBody :: "file_system \<Rightarrow> string \<Rightarrow> string res" where
  "OpenFileBody fs path =
     (if \<not> fs_exists fs path then throw_exn (StdException (''File '' @ path @ '' doesn't exist''))
      else case fs_open fs path of
             Some err \<Rightarrow> throw_exn (StdException
               (''Error opening file \"'' @ path @ ''\". Error: '' @ err))
           | None \<Rightarrow> Inr path)"

definition SendFile :: "'d lib \<Rightarrow> file_system \<Rightarrow> string \<Rightarrow> http_response \<Rightarrow> http_response res" where
  "SendFile L fs path rs =
     res_bind (OpenFileBody fs path) (\<lambda>file_body.
       let v = br_version (rs_response rs);
           ka = lib_keep_alive_get L v (br_connection (rs_response rs));
           response = \<lparr>br_status = br_status (rs_response rs), br_version = v,
                       br_connection = lib_keep_alive_set L v ka,
                       br_content_type = ToString_content_type L
                         (GetContentTypeByFileExtenstion L (path_extension path)),
                       br_body = []\<rparr>
       in res_bind (prepare_payload (fs_size fs file_body) response) (\<lambda>_.
            Inr (rs\<lparr>rs_calls := rs_calls rs @ [WriteFile response file_body]\<rparr>)))"

section \<open>Construction\<close>

definition MakeHttpResponse :: "'d lib \<Rightarrow> bool \<Rightarrow> nat \<Rightarrow> ContentType \<Rightarrow> http_response" where
  "MakeHttpResponse L keep_alive http_version content_type =
     SetHttpVersion http_version
       (SetStatusCode L kOk (SetKeepAlive L keep_alive
         (SetContentType L content_type HttpResponseImpl)))"

definition MakeBeastResponse ::
  "'d lib \<Rightarrow> beast_status \<Rightarrow> nat \<Rightarrow> bool \<Rightarrow> string \<Rightarrow> ContentType \<Rightarrow> beast_response res" where
  "MakeBeastResponse L st http_version keep_alive content content_type =
     (let response = \<lparr>br_status = st, br_version = http_version,
            br_connection = lib_keep_alive_set L http_version keep_alive,
            br_content_type = ToString_content_type L content_type, br_body = content\<rparr>
      in res_bind (prepare_payload (length content) response) (\<lambda>_. Inr response))"

text \<open>
  \<open>keep_alive()\<close> of a message; a response with a content length needs the end of the stream
  (\<open>need_eof()\<close>) iff its connection is not kept.
\<close>

definition keep_alive_of :: "'d lib \<Rightarrow> beast_response \<Rightarrow> bool" where
  "keep_alive_of L r = lib_keep_alive_get L (br_version r) (br_connection r)"

definition need_eof :: "'d lib \<Rightarrow> beast_response \<Rightarrow> bool" where
  "need_eof L r = (\<not> keep_alive_of L r)"

section \<open>Facts\<close>

text \<open>The responses written so far, and the calls each operation adds.\<close>

fun is_write :: "session_call \<Rightarrow> bool" where
  "is_write (Write r) = True"
| "is_write (WriteFile r p) = True"
| "is_write Close_session = False"

definition writes :: "http_response \<Rightarrow> nat" where
  "writes rs = length (filter is_write (rs_calls rs))"

lemma calls_setters [resp_simps]:
  "rs_calls (SetContentType L ct rs) = rs_calls rs"
  "rs_calls (SetKeepAlive L k rs) = rs_calls rs"
  "rs_calls (SetStatusCode L st rs) = rs_calls rs"
  "rs_calls (SetHttpVersion v rs) = rs_calls rs"
  "rs_calls (MakeHttpResponse L k v ct) = []"
  by (simp_all add: SetContentType_def SetKeepAlive_def SetStatusCode_def SetHttpVersion_def
      MakeHttpResponse_def HttpResponseImpl_def)

lemma writes_setters [resp_simps]:
  "writes (SetStatusCode L st rs) = writes rs"
  "writes (MakeHttpResponse L k v ct) = 0"
  by (simp_all add: writes_def resp_simps)

text \<open>
  A response whose status allows a body: then \<open>Send\<close> writes \<open>message_of\<close>, and the object is
  left as \<open>Sent\<close>.
\<close>

definition takes_body :: "http_response \<Rightarrow> bool" where
  "takes_body rs \<longleftrightarrow> \<not> bodiless (beast_status_int (br_status (rs_response rs)))"

definition message_of :: "string \<Rightarrow> http_response \<Rightarrow> beast_response" where
  "message_of data rs = (if data \<noteq> [] then (rs_response rs)\<lparr>br_body := data\<rparr> else rs_response rs)"

definition Sent :: "'d lib \<Rightarrow> string \<Rightarrow> http_response \<Rightarrow> http_response" where
  "Sent L data rs =
     \<lparr>rs_response = moved_from L (message_of data rs), rs_calls = rs_calls rs @ [Write (message_of data rs)]\<rparr>"

lemma message_of_sel [simp]:
  "br_status (message_of data rs) = br_status (rs_response rs)"
  "br_version (message_of data rs) = br_version (rs_response rs)"
  "br_connection (message_of data rs) = br_connection (rs_response rs)"
  "data \<noteq> [] \<Longrightarrow> br_body (message_of data rs) = data"
  by (simp_all add: message_of_def)

lemma Send_takes_body [simp]: "takes_body rs \<Longrightarrow> Send L data rs = (Sent L data rs, Inr ())"
  by (simp add: Send_def Sent_def message_of_def prepare_payload_def takes_body_def Let_def)

lemma Send_refused:
  assumes "\<not> takes_body rs" and "br_body (message_of data rs) \<noteq> []"
  shows "Send L data rs = (rs\<lparr>rs_response := message_of data rs\<rparr>, throw_exn (StdException ''invalid response body''))"
  using assms by (auto simp: Send_def message_of_def prepare_payload_def takes_body_def Let_def)

lemma takes_body_Sent [simp]: "takes_body (Sent L data rs) = takes_body rs"
  by (simp add: takes_body_def Sent_def moved_from_def)

lemma takes_body_SetStatusCode [simp]:
  "bimap_laws L \<Longrightarrow> takes_body (SetStatusCode L st rs) \<longleftrightarrow> \<not> bodiless (http_status_value st)"
  by (simp add: takes_body_def SetStatusCode_def HttpStatusEnumToBeastStatus_int)

lemma takes_body_MakeHttpResponse [simp]: "bimap_laws L \<Longrightarrow> takes_body (MakeHttpResponse L k v ct)"
  by (simp add: MakeHttpResponse_def SetHttpVersion_def takes_body_def SetStatusCode_def
      HttpStatusEnumToBeastStatus_int bodiless_def)

lemma takes_body_HttpResponseImpl: "takes_body HttpResponseImpl"
  by (simp add: takes_body_def HttpResponseImpl_def beast_response_default_def bodiless_def)

lemma not_bodiless [simp]: "200 \<le> st \<Longrightarrow> st \<noteq> 204 \<Longrightarrow> st \<noteq> 304 \<Longrightarrow> \<not> bodiless st"
  by (auto simp: bodiless_def)

lemma calls_Sent [resp_simps]: "rs_calls (Sent L data rs) = rs_calls rs @ [Write (message_of data rs)]"
  by (simp add: Sent_def)

lemma writes_Sent [resp_simps]: "writes (Sent L data rs) = Suc (writes rs)"
  by (simp add: writes_def resp_simps)

lemma writes_Close [resp_simps]: "writes (Close rs) = writes rs"
  by (simp add: writes_def Close_def)

lemma status_SetStatusCode [resp_simps]:
  "br_status (rs_response (SetStatusCode L st rs)) = HttpStatusEnumToBeastStatus L st"
  by (simp add: SetStatusCode_def)

lemma writes_SendFile: "SendFile L fs path rs = Inr rs' \<Longrightarrow> writes rs' = Suc (writes rs)"
  by (auto simp: SendFile_def prepare_payload_def res_simps Let_def writes_def split: if_splits)

text \<open>
  The response of a request: \<open>SetKeepAlive\<close> runs before \<open>SetHttpVersion\<close>, so the header is
  the one for HTTP/1.1 whatever the version.
\<close>

lemma response_MakeHttpResponse:
  "br_version (rs_response (MakeHttpResponse L k v ct)) = v"
  "br_connection (rs_response (MakeHttpResponse L k v ct)) = lib_keep_alive_set L 11 k"
  by (simp_all add: MakeHttpResponse_def SetHttpVersion_def SetStatusCode_def SetKeepAlive_def
      SetContentType_def HttpResponseImpl_def beast_response_default_def)

lemma keep_alive_MakeHttpResponse:
  assumes "keep_alive_laws L"
  shows "keep_alive_of L (rs_response (MakeHttpResponse L k 11 ct)) = k"
    and "keep_alive_of L (rs_response (MakeHttpResponse L k 10 ct)) = False"
proof -
  show "keep_alive_of L (rs_response (MakeHttpResponse L k 11 ct)) = k"
    using assms by (simp add: keep_alive_of_def response_MakeHttpResponse keep_alive_laws_def)
  have "lib_keep_alive_get L 10 (lib_keep_alive_set L 11 k) = False"
    using assms by (cases k) (simp_all only: keep_alive_laws_def)
  then show "keep_alive_of L (rs_response (MakeHttpResponse L k 10 ct)) = False"
    by (simp add: keep_alive_of_def response_MakeHttpResponse)
qed

lemma MakeBeastResponse_keep_alive:
  "keep_alive_laws L \<Longrightarrow> MakeBeastResponse L st v k c ct = Inr r \<Longrightarrow> keep_alive_of L r = k"
  by (auto simp: MakeBeastResponse_def prepare_payload_def res_simps Let_def keep_alive_of_def keep_alive_laws_def
      split: if_splits)

text \<open>
  C36: sending the first answer of a kept HTTP/1.1 connection writes one message, with the
  status that was set, the body that was given and the keep-alive flag of the request; the
  same connection under HTTP/1.0 is always closed, even when its client asked to keep it.
  With a status that has no body (1xx, 204, 304) \<open>Send\<close> of a text throws instead and writes
  nothing.
\<close>

theorem first_response:
  assumes "keep_alive_laws L" and "bimap_laws L" and "data \<noteq> []" and "v = 10 \<or> v = 11"
  shows "case Send L data (SetStatusCode L st (MakeHttpResponse L k v ct)) of
      (rs, Inr _) \<Rightarrow> \<not> bodiless (http_status_value st) \<and>
        (\<exists>r. rs_calls rs = [Write r] \<and> beast_status_int (br_status r) = http_status_value st \<and>
          br_body r = data \<and> br_version r = v \<and> need_eof L r = (v = 10 \<or> \<not> k))
    | (rs, Inl e) \<Rightarrow> bodiless (http_status_value st) \<and> rs_calls rs = [] \<and>
        e = Throws (StdException ''invalid response body'')"
proof -
  let ?rs = "SetStatusCode L st (MakeHttpResponse L k v ct)"
  let ?r = "message_of data ?rs"
  have body: "br_body ?r = data" using assms(3) by simp
  show ?thesis
  proof (cases "takes_body ?rs")
    case False
    with Send_refused [OF False, of data L] assms(2,3) body show ?thesis by (simp add: resp_simps)
  next
    case True
    have "beast_status_int (br_status ?r) = http_status_value st"
      using HttpStatusEnumToBeastStatus_int [OF assms(2)] by (simp add: resp_simps)
    moreover have "br_version ?r = v"
      by (simp add: SetStatusCode_def MakeHttpResponse_def SetHttpVersion_def)
    moreover have "keep_alive_of L ?r = keep_alive_of L (rs_response (MakeHttpResponse L k v ct))"
      by (simp add: keep_alive_of_def SetStatusCode_def)
    then have "need_eof L ?r = (v = 10 \<or> \<not> k)"
      using assms(4) keep_alive_MakeHttpResponse [OF assms(1)] by (auto simp: need_eof_def)
    ultimately show ?thesis using True body assms(2) by (simp add: resp_simps)
  qed
qed

theorem first_response_witness:
  "\<exists>rs r. Send ref_lib ''x'' (SetStatusCode ref_lib kConflict
        (MakeHttpResponse ref_lib True 11 kApplicationJson)) = (rs, Inr ()) \<and> rs_calls rs = [Write r] \<and>
     beast_status_int (br_status r) = 409 \<and> br_body r = ''x'' \<and> br_version r = 11 \<and>
     need_eof ref_lib r = False"
  using first_response [of ref_lib "''x''" 11 kConflict True kApplicationJson] by (auto split: prod.splits sum.splits)

end
