(* ===== verification/Pg_Client.thy ===== *)
theory Pg_Client
  imports Models Http_Message
begin

text \<open>
  \<open>engine/src/postgres/pg_client.hpp\<close>: asynchronous statements.  A body that talks to the
  database is a \<open>flow\<close>: it has ended (with the response object it leaves, or with no
  object at all), it has thrown, or it waits for the reply to one statement, to be
  continued by its completion handler.  There is one \<open>Await\<close> constructor for each row type
  the program instantiates \<open>Execute\<close> with.
\<close>

section \<open>Replies\<close>

text \<open>The error codes the program tells apart, and a reply: the code, if any, and the rows.\<close>

datatype pg_error = UniqueViolation | OtherPgError

type_synonym 'r pg_reply = "pg_error option \<times> 'r list"

record pg_server =
  pg_currencies :: "query \<Rightarrow> currency pg_reply"
  pg_ids :: "query \<Rightarrow> i32 pg_reply"
  pg_rates :: "query \<Rightarrow> exchange_rate_with_currencies pg_reply"

text \<open>A statement with a value for each of its placeholders.\<close>

definition well_bound :: "query \<Rightarrow> bool" where
  "well_bound q \<longleftrightarrow> length (snd q) = placeholders (fst q)"

section \<open>Flows\<close>

datatype flow =
    Finished "http_response option"
  | Raised fault "http_response option"
  | AwaitCurrencies query "currency pg_reply \<Rightarrow> flow"
  | AwaitIds query "i32 pg_reply \<Rightarrow> flow"
  | AwaitRates query "exchange_rate_with_currencies pg_reply \<Rightarrow> flow"

text \<open>
  \<open>Execute<T>(query, completion_token)\<close>: the statement is sent and the completion handler
  runs on its reply, which the 5000 ms timeout turns into an error reply at the latest.
\<close>

definition Execute_CurrenciesVec :: "query \<Rightarrow> (currency pg_reply \<Rightarrow> flow) \<Rightarrow> flow" where
  "Execute_CurrenciesVec q completion_token = AwaitCurrencies q (\<lambda>r. completion_token r)"

definition Execute_ExchangeRateIDs :: "query \<Rightarrow> (i32 pg_reply \<Rightarrow> flow) \<Rightarrow> flow" where
  "Execute_ExchangeRateIDs q completion_token = AwaitIds q (\<lambda>r. completion_token r)"

definition Execute_ExchangeRateWithCurrenciesVec ::
  "query \<Rightarrow> (exchange_rate_with_currencies pg_reply \<Rightarrow> flow) \<Rightarrow> flow" where
  "Execute_ExchangeRateWithCurrenciesVec q completion_token = AwaitRates q (\<lambda>r. completion_token r)"

text \<open>
  What follows a call on the response: its exception ends the body.  \<open>answered\<close>: the call is
  the last thing the body does.
\<close>

fun sent :: "response_call \<Rightarrow> (http_response \<Rightarrow> flow) \<Rightarrow> flow" where
  "sent (rs, Inr u) k = k rs"
| "sent (rs, Inl e) k = Raised e (Some rs)"

abbreviation answered :: "response_call \<Rightarrow> flow" where
  "answered c \<equiv> sent c (\<lambda>rs. Finished (Some rs))"

text \<open>A statement-free body: its last call, or the exception it threw on the response it had.\<close>

fun returning :: "http_response \<Rightarrow> response_call res \<Rightarrow> flow" where
  "returning rs (Inr c) = answered c"
| "returning rs (Inl e) = Raised e (Some rs)"

text \<open>
  An execution against a database: every statement gets its reply.  The exception of a
  completion handler leaves the flow by way of the event loop, not of the code that started
  the statement, so it stays \<open>Raised\<close>.
\<close>

primrec run_flow :: "pg_server \<Rightarrow> flow \<Rightarrow> flow" where
  "run_flow db (Finished rs) = Finished rs"
| "run_flow db (Raised e rs) = Raised e rs"
| "run_flow db (AwaitCurrencies q k) = run_flow db (k (pg_currencies db q))"
| "run_flow db (AwaitIds q k) = run_flow db (k (pg_ids db q))"
| "run_flow db (AwaitRates q k) = run_flow db (k (pg_rates db q))"

text \<open>Did the body throw before it returned to its caller?\<close>

fun raises_exn :: "flow \<Rightarrow> bool" where
  "raises_exn (Raised (Throws e) rs) = True"
| "raises_exn f = False"

text \<open>The statements of an execution, in order.\<close>

primrec statements :: "pg_server \<Rightarrow> flow \<Rightarrow> query list" where
  "statements db (Finished rs) = []"
| "statements db (Raised e rs) = []"
| "statements db (AwaitCurrencies q k) = q # statements db (k (pg_currencies db q))"
| "statements db (AwaitIds q k) = q # statements db (k (pg_ids db q))"
| "statements db (AwaitRates q k) = q # statements db (k (pg_rates db q))"

lemmas Execute_defs = Execute_CurrenciesVec_def Execute_ExchangeRateIDs_def
  Execute_ExchangeRateWithCurrenciesVec_def

lemma run_flow_ends: "\<exists>rs. run_flow db f = Finished rs \<or> (\<exists>e. run_flow db f = Raised e rs)"
  by (induction f) auto

lemma run_flow_idem [simp]: "run_flow db (run_flow db f) = run_flow db f"
  by (induction f) auto

lemma run_answered [simp]: "run_flow db (answered c) = answered c"
  by (induction c "\<lambda>rs. Finished (Some rs)" rule: sent.induct) auto

lemma run_returning [simp]: "run_flow db (returning rs m) = returning rs m"
  by (cases m) auto

lemma statements_answered [simp]: "statements db (answered c) = []"
  by (induction c "\<lambda>rs. Finished (Some rs)" rule: sent.induct) auto

lemma answered_Finished_iff: "answered c = Finished x \<longleftrightarrow> snd c = Inr () \<and> x = Some (fst c)"
  by (induction c "\<lambda>rs. Finished (Some rs)" rule: sent.induct) auto

lemma answered_Raised_iff: "answered c = Raised e x \<longleftrightarrow> snd c = Inl e \<and> x = Some (fst c)"
  by (induction c "\<lambda>rs. Finished (Some rs)" rule: sent.induct) auto

end
