(* ===== verification/Http_Handler.thy ===== *)
theory Http_Handler
  imports Pg_Client
begin

text \<open>
  \<open>engine/src/http_server/http_handler.cpp\<close> and \<open>exceptions_handler.cpp\<close>: the frame around the
  body of a handler.  The two shared pointers the frame receives may be null: they are
  options.  Log lines are left out here (the logger is the subject of \<open>Logger\<close>).
\<close>

section \<open>Reporting an exception\<close>

definition ReportHttpError :: "'d lib \<Rightarrow> string \<Rightarrow> HttpStatus \<Rightarrow> http_response \<Rightarrow> response_call" where
  "ReportHttpError L msg st response = Send L msg (SetStatusCode L st response)"

definition ReportError :: "'d lib \<Rightarrow> http_response \<Rightarrow> response_call" where
  "ReportError L response = Send L [] (SetStatusCode L kInternalServerError response)"

definition ReportUnkownError :: "http_response \<Rightarrow> response_call" where
  "ReportUnkownError response = (Close response, Inr ())"

text \<open>A null exception pointer is reported like a \<open>std::exception\<close>.\<close>

definition HandleException ::
  "'d lib \<Rightarrow> http_request \<Rightarrow> http_response \<Rightarrow> exn option \<Rightarrow> response_call" where
  "HandleException L request response ex_ptr =
     (case (case ex_ptr of Some ex \<Rightarrow> ex | None \<Rightarrow> StdException ''std::exception'') of
        HttpException msg st \<Rightarrow> ReportHttpError L msg st response
      | StdException msg \<Rightarrow> ReportError L response
      | UnknownException \<Rightarrow> ReportUnkownError response)"

type_synonym exceptions_handler = "http_request \<Rightarrow> http_response \<Rightarrow> exn option \<Rightarrow> response_call"

definition ExceptionsHandlerImpl :: "'d lib \<Rightarrow> exceptions_handler" where
  "ExceptionsHandlerImpl L request response ex_ptr = HandleException L request response ex_ptr"

text \<open>
  \<open>try { body } catch (...) { exceptions_handler(...) }\<close>: what a completion handler throws
  later is outside the block, and so is undefined behaviour.  The exceptions handler reports on
  the response object as the body left it, and what it throws itself leaves the block.
\<close>

fun try_catch :: "exceptions_handler \<Rightarrow> http_request \<Rightarrow> http_response \<Rightarrow> flow \<Rightarrow> flow" where
  "try_catch xh request response (Raised (Throws ex) rs) =
     answered (xh request (case rs of Some r \<Rightarrow> r | None \<Rightarrow> response) (Some ex))"
| "try_catch xh request response f = f"

section \<open>Handlers\<close>

type_synonym handler = "http_request \<Rightarrow> http_response \<Rightarrow> flow"
type_synonym json_handler = "http_request \<Rightarrow> http_response \<Rightarrow> json \<Rightarrow> flow"

definition HttpHandlerBase_Process ::
  "handler \<Rightarrow> exceptions_handler \<Rightarrow> http_request option \<Rightarrow> http_response option \<Rightarrow> flow" where
  "HttpHandlerBase_Process HandleRequest xh request response =
     (case response of
        None \<Rightarrow> Finished None
      | Some rs \<Rightarrow>
          (case request of
             None \<Rightarrow> Finished (Some (Close rs))
           | Some rq \<Rightarrow> try_catch xh rq rs (HandleRequest rq rs)))"

definition HttpHandlerJson_HandleRequest :: "'d lib \<Rightarrow> json_handler \<Rightarrow> handler" where
  "HttpHandlerJson_HandleRequest L HandleRequestJson request response =
     (let body = GetBody request
      in if body = [] then HandleRequestJson request response JNull
         else (case lib_json_parse L body of
                 Some j \<Rightarrow> HandleRequestJson request response j
               | None \<Rightarrow> Raised (Throws (StdException ''parse_error'')) (Some response)))"

section \<open>Facts\<close>

lemma Process_Raised:
  "HandleRequest rq rs = Raised (Throws ex) (Some rs') \<Longrightarrow>
    HttpHandlerBase_Process HandleRequest xh (Some rq) (Some rs) = answered (xh rq rs' (Some ex))"
  by (simp add: HttpHandlerBase_Process_def)

lemma Process_Finished:
  "HandleRequest rq rs = Finished (Some rs') \<Longrightarrow>
    HttpHandlerBase_Process HandleRequest xh (Some rq) (Some rs) = Finished (Some rs')"
  by (simp add: HttpHandlerBase_Process_def)

text \<open>
  An exception is reported by one message if its status allows the text.  A body is \<open>benign\<close> if
  it ends without undefined behaviour or with such an exception; under the frame a benign
  body that writes at most once writes once.
\<close>

fun reportable :: "exn \<Rightarrow> bool" where
  "reportable (HttpException msg st) = (\<not> bodiless (http_status_value st))"
| "reportable (StdException msg) = True"
| "reportable UnknownException = False"

fun benign :: "'a res \<Rightarrow> bool" where
  "benign (Inr x) = True"
| "benign (Inl (Throws ex)) = reportable ex"
| "benign (Inl Undefined) = False"

lemma benign_bind: "benign m \<Longrightarrow> (\<And>x. m = Inr x \<Longrightarrow> benign (f x)) \<Longrightarrow> benign (res_bind m f)"
  by (cases m rule: benign.cases) auto

definition one_write :: "http_response \<Rightarrow> http_response \<Rightarrow> bool" where
  "one_write rs rs' \<longleftrightarrow> (\<exists>r. rs_calls rs' = rs_calls rs @ [Write r])"

lemma one_write_Sent [simp]: "one_write rs (Sent L data rs)" "one_write rs (Sent L data (SetStatusCode L st rs))"
  by (simp_all add: one_write_def resp_simps)

text \<open>A call on a response that is one message and does not throw.\<close>

definition one_message :: "http_response \<Rightarrow> response_call \<Rightarrow> bool" where
  "one_message rs c \<longleftrightarrow> (\<exists>rs'. c = (rs', Inr ()) \<and> one_write rs rs')"

lemma one_message_pair [simp]: "one_message rs (rs', Inr u) \<longleftrightarrow> one_write rs rs'"
  by (simp add: one_message_def)

lemma one_message_HandleException:
  "bimap_laws L \<Longrightarrow> reportable ex \<Longrightarrow> one_message rs (ExceptionsHandlerImpl L rq rs (Some ex))"
  by (cases ex) (simp_all add: ExceptionsHandlerImpl_def HandleException_def ReportHttpError_def ReportError_def)

lemma one_message_answered: "one_message rs c \<Longrightarrow> \<exists>rs'. answered c = Finished (Some rs') \<and> one_write rs rs'"
  by (auto simp: one_message_def)

text \<open>
  A flow that ends with one message more than it started with, whatever databases of \<open>D\<close>
  reply to its statements.
\<close>

primrec answers_once :: "pg_server set \<Rightarrow> http_response \<Rightarrow> flow \<Rightarrow> bool" where
  "answers_once D rs (Finished x) = (\<exists>rs'. x = Some rs' \<and> one_write rs rs')"
| "answers_once D rs (Raised e x) = False"
| "answers_once D rs (AwaitCurrencies q k) = (\<forall>db \<in> D. answers_once D rs (k (pg_currencies db q)))"
| "answers_once D rs (AwaitIds q k) = (\<forall>db \<in> D. answers_once D rs (k (pg_ids db q)))"
| "answers_once D rs (AwaitRates q k) = (\<forall>db \<in> D. answers_once D rs (k (pg_rates db q)))"

lemma answers_once_run:
  "answers_once D rs f \<Longrightarrow> db \<in> D \<Longrightarrow> \<exists>rs'. run_flow db f = Finished (Some rs') \<and> one_write rs rs'"
  by (induction f) auto

lemma answers_once_answered: "one_message rs c \<Longrightarrow> answers_once D rs (answered c)"
  by (auto simp: one_message_def)

lemma Process_benign_returning:
  assumes "HandleRequest rq rs = returning rs m" and "bimap_laws L" and "benign m"
    and "\<And>c. m = Inr c \<Longrightarrow> one_message rs c"
  shows "\<exists>rs'. HttpHandlerBase_Process HandleRequest (ExceptionsHandlerImpl L) (Some rq) (Some rs) =
    Finished (Some rs') \<and> one_write rs rs'"
proof (cases m)
  case (Inl e)
  with assms(3) obtain ex where "e = Throws ex" "reportable ex" by (cases e) auto
  with Inl assms(1) one_message_answered [OF one_message_HandleException [OF assms(2) this(2), of rs rq]]
  show ?thesis by (simp add: Process_Raised)
next
  case (Inr c)
  with one_message_answered [OF assms(4) [OF Inr]] assms(1) show ?thesis by (auto simp: Process_Finished)
qed

text \<open>
  C23: an exception thrown by a handler before it returns is reported once: an \<open>HttpException\<close>
  by one message with its status and its text, another \<open>std::exception\<close> by one message with
  status 500 and the body the response already had, anything else by closing the connection
  without a message.  But the report of an \<open>HttpException\<close> whose status has no body (1xx, 204,
  304) throws itself when there is a text: then nothing is written and the exception leaves
  the handler's frame.
\<close>

theorem thrown_exception_is_reported:
  assumes "bimap_laws L" and "HandleRequest rq rs = Raised (Throws ex) (Some rs')"
  shows "case ex of
      HttpException msg st \<Rightarrow>
        (let body = (if msg = [] then br_body (rs_response rs') else msg)
         in if body \<noteq> [] \<and> bodiless (http_status_value st)
            then \<exists>rs''. HttpHandlerBase_Process HandleRequest (ExceptionsHandlerImpl L) (Some rq) (Some rs) =
                Raised (Throws (StdException ''invalid response body'')) (Some rs'') \<and> rs_calls rs'' = rs_calls rs'
            else \<exists>rs'' r. HttpHandlerBase_Process HandleRequest (ExceptionsHandlerImpl L) (Some rq) (Some rs) =
                Finished (Some rs'') \<and> rs_calls rs'' = rs_calls rs' @ [Write r] \<and>
                beast_status_int (br_status r) = http_status_value st \<and> br_body r = body)
    | StdException msg \<Rightarrow>
        (\<exists>rs'' r. HttpHandlerBase_Process HandleRequest (ExceptionsHandlerImpl L) (Some rq) (Some rs) =
            Finished (Some rs'') \<and> rs_calls rs'' = rs_calls rs' @ [Write r] \<and>
            beast_status_int (br_status r) = 500 \<and> br_body r = br_body (rs_response rs'))
    | UnknownException \<Rightarrow>
        (\<exists>rs''. HttpHandlerBase_Process HandleRequest (ExceptionsHandlerImpl L) (Some rq) (Some rs) =
            Finished (Some rs'') \<and> rs_calls rs'' = rs_calls rs' @ [Close_session])"
proof -
  have body: "br_body (rs_response (SetStatusCode L st rs')) = br_body (rs_response rs')" for st
    by (simp add: SetStatusCode_def)
  have st: "beast_status_int (HttpStatusEnumToBeastStatus L st) = http_status_value st" for st
    by (rule HttpStatusEnumToBeastStatus_int [OF assms(1)])
  have send: "Send L msg (SetStatusCode L st rs') =
      (if (if msg = [] then br_body (rs_response rs') else msg) \<noteq> [] \<and> bodiless (http_status_value st)
       then ((SetStatusCode L st rs')\<lparr>rs_response := message_of msg (SetStatusCode L st rs')\<rparr>,
         throw_exn (StdException ''invalid response body''))
       else (Sent L msg (SetStatusCode L st rs'), Inr ()))" for msg st
    by (auto simp: Send_def Sent_def prepare_payload_def message_of_def body resp_simps st Let_def)
  have msg: "br_body (message_of msg (SetStatusCode L st rs')) = (if msg = [] then br_body (rs_response rs') else msg)"
    for msg st by (simp add: message_of_def body)
  show ?thesis
    by (cases ex) (auto simp: Process_Raised [of HandleRequest, OF assms(2)] ExceptionsHandlerImpl_def HandleException_def
        ReportHttpError_def ReportError_def ReportUnkownError_def send resp_simps st msg Close_def Let_def)
qed

theorem thrown_exception_is_reported_witness:
  "\<exists>rs'. HttpHandlerBase_Process (\<lambda>rq rs. Raised (Throws (HttpException ''no'' kNotFound)) (Some rs))
      (ExceptionsHandlerImpl ref_lib)
      (Some \<lparr>rq_match_result = [], rq_request = \<lparr>bq_method = verb_get, bq_target = ''/'',
             bq_version = 11, bq_keep_alive = True, bq_body = []\<rparr>, rq_path = ''/'', rq_query = []\<rparr>)
      (Some HttpResponseImpl) = Finished (Some rs') \<and>
    (\<exists>r. rs_calls rs' = [Write r] \<and> beast_status_int (br_status r) = 404 \<and> br_body r = ''no'')"
  using thrown_exception_is_reported [of ref_lib
      "\<lambda>rq rs. Raised (Throws (HttpException ''no'' kNotFound)) (Some rs)"
      "\<lparr>rq_match_result = [], rq_request = \<lparr>bq_method = verb_get, bq_target = ''/'',
        bq_version = 11, bq_keep_alive = True, bq_body = []\<rparr>, rq_path = ''/'', rq_query = []\<rparr>"
      HttpResponseImpl "HttpException ''no'' kNotFound" HttpResponseImpl]
  by (auto simp: HttpResponseImpl_def Let_def bodiless_def)

end
