(* ===== verification/Currencies_Cache.thy ===== *)
theory Currencies_Cache
  imports Models
begin

text \<open>
  \<open>src/src/caches/currencies_cache.cpp\<close>: the table of currencies in memory, with an index by
  id, an index by code (keys compared without case), a plain map for iteration and the JSON
  text of the whole table.  Updates run on one strand, so each is one step here; \<open>ord\<close> is the
  unspecified iteration order of the plain map.
\<close>

section \<open>State\<close>

record currency_entry =
  ce_model :: currency
  ce_dto_json :: json

definition make_currency_entry :: "currency \<Rightarrow> currency_entry" where
  "make_currency_entry row = \<lparr>ce_model = row, ce_dto_json = MakeCurrencyDtoJson row\<rparr>"

record currencies_cache =
  currency_by_id :: "(i32, currency_entry) kv"
  currency_by_code :: "(string, currency_entry) kv"
  all_currencies_json :: string
  currency_by_id_std_map :: "(i32, currency_entry) kv"

type_synonym currency_order = "(i32, currency_entry) kv \<Rightarrow> (i32, currency_entry) kv"

definition CurrenciesCache :: currencies_cache where
  "CurrenciesCache =
     \<lparr>currency_by_id = [], currency_by_code = [], all_currencies_json = [],
      currency_by_id_std_map = []\<rparr>"

section \<open>Operations\<close>

text \<open>\<open>insert\<close> keeps the entry that is already there, in all three containers.\<close>

fun full_update_currency ::
  "'d lib \<Rightarrow> currency \<Rightarrow>
     (i32, currency_entry) kv \<times> (string, currency_entry) kv \<times> (i32, currency_entry) kv \<times> json \<Rightarrow>
     (i32, currency_entry) kv \<times> (string, currency_entry) kv \<times> (i32, currency_entry) kv \<times> json" where
  "full_update_currency L row (by_id, by_code, std_map, all_json) =
     (let e = make_currency_entry row
      in (kv_insert (=) (currency_id row) e by_id, kv_insert (IEqualTo L) (code row) e by_code,
          kv_insert (=) (currency_id row) e std_map, json_push_back all_json (ce_dto_json e)))"

definition CurrenciesCache_FullUpdateCache ::
  "'d lib \<Rightarrow> currency list \<Rightarrow> currencies_cache \<Rightarrow> currencies_cache" where
  "CurrenciesCache_FullUpdateCache L rows c =
     (case fold (full_update_currency L) rows ([], [], [], JNull) of
        (by_id, by_code, std_map, all_json) \<Rightarrow>
          \<lparr>currency_by_id = by_id, currency_by_code = by_code,
           all_currencies_json = (if json_empty all_json then [] else lib_json_dump L all_json),
           currency_by_id_std_map = std_map\<rparr>)"

definition AllCurrenciesToJson :: "'d lib \<Rightarrow> currency_order \<Rightarrow> currencies_cache \<Rightarrow> string" where
  "AllCurrenciesToJson L ord c =
     (if currency_by_id_std_map c = [] then []
      else lib_json_dump L
        (fold (\<lambda>e j. json_push_back j (ce_dto_json (snd e))) (ord (currency_by_id_std_map c)) JNull))"

definition update_currency :: "'d lib \<Rightarrow> currency \<Rightarrow> currencies_cache \<Rightarrow> currencies_cache" where
  "update_currency L row c =
     (let e = make_currency_entry row
      in c\<lparr>currency_by_id := kv_insert_or_assign (=) (currency_id row) e (currency_by_id c),
           currency_by_code := kv_insert_or_assign (IEqualTo L) (code row) e (currency_by_code c),
           currency_by_id_std_map :=
             kv_insert_or_assign (=) (currency_id row) e (currency_by_id_std_map c)\<rparr>)"

definition CurrenciesCache_UpdateCache ::
  "'d lib \<Rightarrow> currency_order \<Rightarrow> currency list \<Rightarrow> currencies_cache \<Rightarrow> currencies_cache" where
  "CurrenciesCache_UpdateCache L ord rows c =
     (if rows = [] then c
      else let c' = fold (update_currency L) rows c
           in c'\<lparr>all_currencies_json := AllCurrenciesToJson L ord c'\<rparr>)"

definition GetAllCurrenciesJson :: "currencies_cache \<Rightarrow> string" where
  "GetAllCurrenciesJson c = all_currencies_json c"

text \<open>A missing key makes \<open>find\<close> throw \<open>std::out_of_range\<close>, which is turned into \<open>nullptr\<close>.\<close>

definition GetCurrencyById :: "currencies_cache \<Rightarrow> i32 \<Rightarrow> currency_entry option" where
  "GetCurrencyById c i = map_find i (currency_by_id c)"

definition GetCurrencyByCode :: "'d lib \<Rightarrow> currencies_cache \<Rightarrow> string \<Rightarrow> currency_entry option" where
  "GetCurrencyByCode L c cd = kv_find (IEqualTo L) cd (currency_by_code c)"

section \<open>The contract of a currency directory\<close>

text \<open>
  What the handlers and the cache of rates rely on: an entry is found under its own id and
  under a code equal to its own without case, and its document is the one of its row.
\<close>

locale currency_directory =
  fixes good :: "'c \<Rightarrow> bool"
    and find_id :: "'c \<Rightarrow> i32 \<Rightarrow> currency_entry option"
    and find_code :: "'c \<Rightarrow> string \<Rightarrow> currency_entry option"
  assumes find_id_entry:
      "good c \<Longrightarrow> find_id c i = Some e \<Longrightarrow>
        e = make_currency_entry (ce_model e) \<and> currency_id (ce_model e) = i"
    and find_code_entry:
      "good c \<Longrightarrow> find_code c s = Some e \<Longrightarrow>
        e = make_currency_entry (ce_model e) \<and> same_upper (code (ce_model e)) s"
begin

lemma find_id_dto:
  "good c \<Longrightarrow> find_id c i = Some e \<Longrightarrow> ce_dto_json e = MakeCurrencyDtoJson (ce_model e)"
  using find_id_entry [of c i e] by (metis currency_entry.select_convs(2) make_currency_entry_def)

lemma find_code_dto:
  "good c \<Longrightarrow> find_code c s = Some e \<Longrightarrow> ce_dto_json e = MakeCurrencyDtoJson (ce_model e)"
  using find_code_entry [of c s e] by (metis currency_entry.select_convs(2) make_currency_entry_def)

lemma find_code_same:
  "good c \<Longrightarrow> find_code c s = Some e \<Longrightarrow> find_code c t = Some e \<Longrightarrow> same_upper s t"
  using find_code_entry [of c s e] find_code_entry [of c t e]
  by (blast intro: ci_key.eq_sym ci_key.eq_trans)

end

section \<open>The invariant\<close>

definition entry_ok :: "i32 \<Rightarrow> currency_entry \<Rightarrow> bool" where
  "entry_ok i e \<longleftrightarrow> e = make_currency_entry (ce_model e) \<and> currency_id (ce_model e) = i"

text \<open>The text of the table lists the documents of exactly the entries, in some order.\<close>

definition lists_table :: "'d lib \<Rightarrow> (i32, currency_entry) kv \<Rightarrow> string \<Rightarrow> bool" where
  "lists_table L m s \<longleftrightarrow>
     (\<exists>es. mset es = mset (map snd m) \<and>
       s = (if es = [] then [] else lib_json_dump L (JArray (map ce_dto_json es))))"

definition currencies_inv :: "'d lib \<Rightarrow> currencies_cache \<Rightarrow> bool" where
  "currencies_inv L c \<longleftrightarrow>
     currency_by_id c = currency_by_id_std_map c \<and> distinct (map fst (currency_by_id c)) \<and>
     (\<forall>p \<in> set (currency_by_id c). entry_ok (fst p) (snd p)) \<and>
     (\<forall>p \<in> set (currency_by_code c).
        snd p = make_currency_entry (ce_model (snd p)) \<and> same_upper (code (ce_model (snd p))) (fst p)) \<and>
     lists_table L (currency_by_id_std_map c) (all_currencies_json c)"

lemma make_entry_sel [simp]:
  "ce_model (make_currency_entry r) = r"
  "ce_dto_json (make_currency_entry r) = MakeCurrencyDtoJson r"
  by (simp_all add: make_currency_entry_def)


lemma entry_ok_make [simp]: "entry_ok i (make_currency_entry r) \<longleftrightarrow> currency_id r = i"
  by (simp add: entry_ok_def)

text \<open>The plain containers as maps, and the rendering of a table.\<close>

lemma AllCurrenciesToJson_eq:
  "AllCurrenciesToJson L ord c =
     (if currency_by_id_std_map c = [] then []
      else lib_json_dump L
        (json_array_of (map (ce_dto_json \<circ> snd) (ord (currency_by_id_std_map c)))))"
  by (simp add: AllCurrenciesToJson_def fold_push_back comp_def)

lemma AllCurrenciesToJson_lists:
  assumes "iteration_order ord"
  shows "lists_table L (currency_by_id_std_map c) (AllCurrenciesToJson L ord c)"
  unfolding lists_table_def
proof (intro exI conjI)
  let ?m = "currency_by_id_std_map c"
  show "mset (map snd (ord ?m)) = mset (map snd ?m)"
    using assms by (simp add: iteration_order_def)
  show "AllCurrenciesToJson L ord c =
      (if map snd (ord ?m) = [] then [] else lib_json_dump L (JArray (map ce_dto_json (map snd (ord ?m)))))"
    using iteration_order_Nil_iff [OF assms, of ?m]
    by (simp add: AllCurrenciesToJson_eq json_array_of_eq)
qed

lemma update_currency_sel:
  "currency_by_id (update_currency L r c) =
     kv_insert_or_assign (=) (currency_id r) (make_currency_entry r) (currency_by_id c)"
  "currency_by_id_std_map (update_currency L r c) =
     kv_insert_or_assign (=) (currency_id r) (make_currency_entry r) (currency_by_id_std_map c)"
  "currency_by_code (update_currency L r c) =
     kv_insert_or_assign (IEqualTo L) (code r) (make_currency_entry r) (currency_by_code c)"
  by (simp_all add: update_currency_def Let_def)

lemma CurrenciesCache_UpdateCache_sel:
  "currency_by_id (CurrenciesCache_UpdateCache L ord rows c) =
     currency_by_id (fold (update_currency L) rows c)"
  "currency_by_code (CurrenciesCache_UpdateCache L ord rows c) =
     currency_by_code (fold (update_currency L) rows c)"
  "currency_by_id_std_map (CurrenciesCache_UpdateCache L ord rows c) =
     currency_by_id_std_map (fold (update_currency L) rows c)"
  by (simp_all add: CurrenciesCache_UpdateCache_def Let_def)

text \<open>An update: the last row with the key wins, then what was there.\<close>

lemma update_by_code:
  assumes "string_algo_laws L"
  shows "GetCurrencyByCode L (CurrenciesCache_UpdateCache L ord rows c) s =
    (case find (\<lambda>r. same_upper (code r) s) (rev rows) of
       Some r \<Rightarrow> Some (make_currency_entry r)
     | None \<Rightarrow> GetCurrencyByCode L c s)"
proof -
  have "kv_find same_upper s (currency_by_code (fold (update_currency L) rows c)) =
    (case find (\<lambda>r. same_upper (code r) s) (rev rows) of
       Some r \<Rightarrow> Some (make_currency_entry r)
     | None \<Rightarrow> kv_find same_upper s (currency_by_code c))"
    using assms
    by (induction rows rule: rev_induct)
      (auto simp: update_currency_sel IEqualTo_same_upper ci_key.find_insert_or_assign split: if_splits)
  with assms show ?thesis
    by (simp add: GetCurrencyByCode_def CurrenciesCache_UpdateCache_sel IEqualTo_same_upper
        split: option.split)
qed

definition upsert :: "currency \<Rightarrow> (i32 \<Rightarrow> currency option) \<Rightarrow> i32 \<Rightarrow> currency option" where
  "upsert row t = t(currency_id row \<mapsto> row)"

definition currency_table :: "currencies_cache \<Rightarrow> i32 \<Rightarrow> currency option" where
  "currency_table c i = map_option ce_model (GetCurrencyById c i)"

lemma currency_table_update:
  "currency_table (CurrenciesCache_UpdateCache L ord rows c) = fold upsert rows (currency_table c)"
proof -
  have "currency_table (update_currency L r d) = upsert r (currency_table d)" for r d
    by (auto simp: fun_eq_iff currency_table_def GetCurrencyById_def update_currency_sel upsert_def
        std_key.find_insert_or_assign)
  then have "currency_table (fold (update_currency L) rows c) = fold upsert rows (currency_table c)"
    by (induction rows arbitrary: c) auto
  then show ?thesis
    by (simp add: fun_eq_iff currency_table_def GetCurrencyById_def CurrenciesCache_UpdateCache_sel)
qed

text \<open>A full update of rows with distinct ids: the containers hold the rows in order.\<close>

definition by_id_list :: "currency list \<Rightarrow> (i32, currency_entry) kv" where
  "by_id_list rows = map (\<lambda>r. (currency_id r, make_currency_entry r)) rows"

lemma full_update_loop:
  assumes "distinct (map currency_id rows)"
  shows "\<exists>bc. fold (full_update_currency L) rows ([], [], [], JNull) =
    (by_id_list rows, bc, by_id_list rows, json_array_of (map MakeCurrencyDtoJson rows)) \<and>
    (\<forall>p \<in> set bc. \<exists>r \<in> set rows. p = (code r, make_currency_entry r)) \<and>
    (string_algo_laws L \<longrightarrow> (\<forall>s. kv_find (IEqualTo L) s bc =
       map_option make_currency_entry (find (\<lambda>r. same_upper (code r) s) rows)))"
  using assms
proof (induction rows rule: rev_induct)
  case Nil
  then show ?case by (simp add: by_id_list_def json_array_of_def)
next
  case (snoc r rows)
  then obtain bc where bc: "fold (full_update_currency L) rows ([], [], [], JNull) =
      (by_id_list rows, bc, by_id_list rows, json_array_of (map MakeCurrencyDtoJson rows))"
    "\<forall>p \<in> set bc. \<exists>r \<in> set rows. p = (code r, make_currency_entry r)"
    "string_algo_laws L \<longrightarrow> (\<forall>s. kv_find (IEqualTo L) s bc =
       map_option make_currency_entry (find (\<lambda>r. same_upper (code r) s) rows))"
    by auto
  have "map_find (currency_id r) (by_id_list rows) = None"
    using snoc.prems by (auto simp: by_id_list_def map_find_eq_map_of map_of_eq_None_iff)
  then have ins: "kv_insert (=) (currency_id r) (make_currency_entry r) (by_id_list rows) =
      by_id_list (rows @ [r])"
    by (simp add: kv_insert_def by_id_list_def)
  let ?bc = "kv_insert (IEqualTo L) (code r) (make_currency_entry r) bc"
  have "\<forall>p \<in> set ?bc. \<exists>x \<in> set (rows @ [r]). p = (code x, make_currency_entry x)"
    using bc(2) by (auto simp: kv_insert_def)
  moreover have "kv_find (IEqualTo L) s ?bc =
      map_option make_currency_entry (find (\<lambda>r. same_upper (code r) s) (rows @ [r]))"
    if "string_algo_laws L" for s
  proof -
    have find: "kv_find same_upper t bc =
        map_option make_currency_entry (find (\<lambda>r. same_upper (code r) t) rows)" for t
      using bc(3) that by (simp add: IEqualTo_same_upper)
    have "find (\<lambda>x. same_upper (code x) s) (rows @ [r]) =
        (case find (\<lambda>x. same_upper (code x) s) rows of
           None \<Rightarrow> (if same_upper (code r) s then Some r else None) | Some x \<Rightarrow> Some x)"
      by (induction rows) auto
    moreover have "find (\<lambda>x. same_upper (code x) (code r)) rows = find (\<lambda>x. same_upper (code x) s) rows"
      if "same_upper (code r) s"
      using that by (intro find_cong) (auto intro: ci_key.eq_sym ci_key.eq_trans)
    ultimately show ?thesis
      using that by (auto simp: IEqualTo_same_upper ci_key.find_insert find split: option.splits)
  qed
  ultimately show ?case
    using bc(1) ins by (simp add: Let_def)
qed


lemma FullUpdateCache_sel:
  fixes L :: "'d lib" and c :: currencies_cache
  assumes "distinct (map currency_id rows)"
  defines "d \<equiv> CurrenciesCache_FullUpdateCache L rows c"
  shows "currency_by_id d = by_id_list rows"
    and "currency_by_id_std_map d = by_id_list rows"
    and "all_currencies_json d =
      (if rows = [] then [] else lib_json_dump L (JArray (map MakeCurrencyDtoJson rows)))"
    and "\<forall>p \<in> set (currency_by_code d). \<exists>r \<in> set rows. p = (code r, make_currency_entry r)"
    and "string_algo_laws L \<Longrightarrow> GetCurrencyByCode L d s =
      map_option make_currency_entry (find (\<lambda>r. same_upper (code r) s) rows)"
proof -
  obtain bc where bc: "fold (full_update_currency L) rows ([], [], [], JNull) =
      (by_id_list rows, bc, by_id_list rows, json_array_of (map MakeCurrencyDtoJson rows))"
    "\<forall>p \<in> set bc. \<exists>r \<in> set rows. p = (code r, make_currency_entry r)"
    "string_algo_laws L \<longrightarrow> (\<forall>s. kv_find (IEqualTo L) s bc =
       map_option make_currency_entry (find (\<lambda>r. same_upper (code r) s) rows))"
    using full_update_loop [OF assms(1), of L] by blast
  from bc(1) have d: "d = \<lparr>currency_by_id = by_id_list rows, currency_by_code = bc,
      all_currencies_json =
        (if rows = [] then [] else lib_json_dump L (JArray (map MakeCurrencyDtoJson rows))),
      currency_by_id_std_map = by_id_list rows\<rparr>"
    by (simp add: d_def CurrenciesCache_FullUpdateCache_def json_array_of_eq)
  show "currency_by_id d = by_id_list rows"
    and "currency_by_id_std_map d = by_id_list rows"
    and "all_currencies_json d =
      (if rows = [] then [] else lib_json_dump L (JArray (map MakeCurrencyDtoJson rows)))"
    by (simp_all add: d)
  show "\<forall>p \<in> set (currency_by_code d). \<exists>r \<in> set rows. p = (code r, make_currency_entry r)"
    using bc(2) by (simp only: d currencies_cache.select_convs)
  show "GetCurrencyByCode L d s =
      map_option make_currency_entry (find (\<lambda>r. same_upper (code r) s) rows)"
    if "string_algo_laws L"
    using bc(3) that by (simp add: d GetCurrencyByCode_def)
qed

section \<open>Every operation keeps the invariant\<close>

lemma currencies_inv_init: "currencies_inv L CurrenciesCache"
  by (simp add: currencies_inv_def CurrenciesCache_def lists_table_def)

definition currencies_core :: "currencies_cache \<Rightarrow> bool" where
  "currencies_core c \<longleftrightarrow>
     currency_by_id c = currency_by_id_std_map c \<and> distinct (map fst (currency_by_id c)) \<and>
     (\<forall>p \<in> set (currency_by_id c). entry_ok (fst p) (snd p)) \<and>
     (\<forall>p \<in> set (currency_by_code c).
        snd p = make_currency_entry (ce_model (snd p)) \<and> same_upper (code (ce_model (snd p))) (fst p))"

lemma currencies_inv_core: "currencies_inv L c \<longleftrightarrow>
    currencies_core c \<and> lists_table L (currency_by_id_std_map c) (all_currencies_json c)"
  by (auto simp: currencies_inv_def currencies_core_def)

lemma currencies_core_update:
  assumes "string_algo_laws L" and "currencies_core c"
  shows "currencies_core (update_currency L r c)"
proof -
  have "kv_distinct (=) (kv_insert_or_assign (=) (currency_id r) (make_currency_entry r) (currency_by_id c))"
    using assms(2) by (intro std_key.distinct_insert_or_assign)
      (auto simp: currencies_core_def kv_distinct_iff_distinct)
  moreover have "\<forall>p \<in> set (kv_insert_or_assign (=) (currency_id r) (make_currency_entry r) (currency_by_id c)).
      entry_ok (fst p) (snd p)"
    using assms(2) by (auto simp: currencies_core_def dest!: std_key.insert_or_assign_entry)
  moreover have "\<forall>p \<in> set (kv_insert_or_assign same_upper (code r) (make_currency_entry r) (currency_by_code c)).
      snd p = make_currency_entry (ce_model (snd p)) \<and> same_upper (code (ce_model (snd p))) (fst p)"
    using assms(2)
    by (fastforce simp: currencies_core_def dest!: ci_key.insert_or_assign_entry intro: ci_key.eq_sym)
  ultimately show ?thesis
    using assms by (simp add: currencies_core_def update_currency_sel kv_distinct_iff_distinct IEqualTo_same_upper)
qed

lemma currencies_core_fold:
  "string_algo_laws L \<Longrightarrow> currencies_core c \<Longrightarrow> currencies_core (fold (update_currency L) rows c)"
  by (induction rows arbitrary: c) (simp_all add: currencies_core_update)

lemma currencies_inv_update:
  assumes "string_algo_laws L" and "iteration_order ord" and "currencies_inv L c"
  shows "currencies_inv L (CurrenciesCache_UpdateCache L ord rows c)"
proof (cases "rows = []")
  case False
  let ?d = "fold (update_currency L) rows c"
  have "currencies_core ?d"
    using assms(3) currencies_core_fold [OF assms(1)] by (simp add: currencies_inv_core)
  moreover have "lists_table L (currency_by_id_std_map ?d) (AllCurrenciesToJson L ord ?d)"
    by (rule AllCurrenciesToJson_lists [OF assms(2)])
  ultimately show ?thesis
    using False by (auto simp: CurrenciesCache_UpdateCache_def Let_def currencies_inv_core currencies_core_def)
qed (use assms in \<open>simp add: CurrenciesCache_UpdateCache_def\<close>)

lemma currencies_inv_full_update:
  assumes "distinct (map currency_id rows)"
  shows "currencies_inv L (CurrenciesCache_FullUpdateCache L rows c)"
proof -
  note sel = FullUpdateCache_sel [OF assms, where L = L and c = c]
  have "lists_table L (by_id_list rows)
      (if rows = [] then [] else lib_json_dump L (JArray (map MakeCurrencyDtoJson rows)))"
    unfolding lists_table_def
    by (intro exI [of _ "map make_currency_entry rows"]) (simp add: by_id_list_def comp_def)
  moreover have "distinct (map fst (by_id_list rows))"
    using assms by (simp add: by_id_list_def comp_def)
  moreover have "\<forall>p \<in> set (by_id_list rows). entry_ok (fst p) (snd p)"
    by (auto simp: by_id_list_def)
  moreover have "\<forall>p \<in> set (currency_by_code (CurrenciesCache_FullUpdateCache L rows c)).
      snd p = make_currency_entry (ce_model (snd p)) \<and> same_upper (code (ce_model (snd p))) (fst p)"
    using sel(4) by (fastforce simp: ci_key.eq_refl)
  ultimately show ?thesis
    by (simp add: currencies_inv_def sel(1,2,3))
qed

text \<open>The cache provides the directory its clients rely on.\<close>

definition directory_good :: "'d lib \<times> currencies_cache \<Rightarrow> bool" where
  "directory_good d \<longleftrightarrow> string_algo_laws (fst d) \<and> currencies_core (snd d)"

interpretation currencies: currency_directory directory_good
  "\<lambda>d. GetCurrencyById (snd d)" "\<lambda>d. GetCurrencyByCode (fst d) (snd d)"
proof unfold_locales
  fix d :: "'d lib \<times> currencies_cache" and i e
  assume "directory_good d" and "GetCurrencyById (snd d) i = Some e"
  then show "e = make_currency_entry (ce_model e) \<and> currency_id (ce_model e) = i"
    by (force simp: directory_good_def currencies_core_def GetCurrencyById_def entry_ok_def
        dest: std_key.find_SomeD)
next
  fix d :: "'d lib \<times> currencies_cache" and s e
  assume "directory_good d" and "GetCurrencyByCode (fst d) (snd d) s = Some e"
  then show "e = make_currency_entry (ce_model e) \<and> same_upper (code (ce_model e)) s"
    by (fastforce simp: directory_good_def currencies_core_def GetCurrencyByCode_def IEqualTo_same_upper
        dest: ci_key.find_SomeD intro: ci_key.eq_trans)
qed


section \<open>The cache against the table it mirrors\<close>

text \<open>What happens to a cache, and to the table it mirrors.\<close>

datatype currency_event = FullUpdate "currency list" | Update "currency list"

primrec currency_step :: "'d lib \<Rightarrow> currency_order \<Rightarrow> currency_event \<Rightarrow> currencies_cache \<Rightarrow> currencies_cache" where
  "currency_step L ord (FullUpdate rows) c = CurrenciesCache_FullUpdateCache L rows c"
| "currency_step L ord (Update rows) c = CurrenciesCache_UpdateCache L ord rows c"

primrec table_step :: "currency_event \<Rightarrow> (i32 \<Rightarrow> currency option) \<Rightarrow> i32 \<Rightarrow> currency option" where
  "table_step (FullUpdate rows) t = fold upsert rows Map.empty"
| "table_step (Update rows) t = fold upsert rows t"

text \<open>The ids of the rows of one statement are distinct: \<open>currency_id\<close> is a primary key.\<close>

primrec rows_of :: "currency_event \<Rightarrow> currency list" where
  "rows_of (FullUpdate rows) = rows"
| "rows_of (Update rows) = rows"

lemma fold_upsert_distinct:
  "distinct (map currency_id rows) \<Longrightarrow>
    fold upsert rows Map.empty = map_of (map (\<lambda>r. (currency_id r, r)) rows)"
proof (induction rows rule: rev_induct)
  case (snoc r rows)
  then have "currency_id r \<notin> dom (map_of (map (\<lambda>r. (currency_id r, r)) rows))"
    by (simp add: dom_map_of_conv_image_fst image_image)
  with snoc show ?case
    by (auto simp: upsert_def fun_eq_iff map_add_def domIff split: option.split)
qed simp

lemma currency_table_full_update:
  assumes "distinct (map currency_id rows)"
  shows "currency_table (CurrenciesCache_FullUpdateCache L rows c) = fold upsert rows Map.empty"
proof (rule ext)
  fix i
  have "map_option ce_model (map_of (by_id_list rows) i) = map_of (map (\<lambda>r. (currency_id r, r)) rows) i"
    by (induction rows) (auto simp: by_id_list_def)
  then show "currency_table (CurrenciesCache_FullUpdateCache L rows c) i = fold upsert rows Map.empty i"
    using assms
    by (simp add: currency_table_def GetCurrencyById_def FullUpdateCache_sel map_find_eq_map_of
        fold_upsert_distinct)
qed

lemma run_currency_events:
  assumes "string_algo_laws L" and "iteration_order ord"
    and "\<forall>ev \<in> set evs. distinct (map currency_id (rows_of ev))" and "currencies_inv L c"
  shows "currencies_inv L (fold (currency_step L ord) evs c) \<and>
    currency_table (fold (currency_step L ord) evs c) = fold table_step evs (currency_table c)"
  using assms(3,4)
proof (induction evs arbitrary: c)
  case (Cons ev evs)
  have "currencies_inv L (currency_step L ord ev c) \<and>
      currency_table (currency_step L ord ev c) = table_step ev (currency_table c)"
    using Cons.prems assms(1,2)
    by (cases ev) (simp_all add: currencies_inv_update currencies_inv_full_update
        currency_table_update currency_table_full_update)
  with Cons show ?case by simp
qed simp

lemma map_of_map_snd:
  "map_of (map (\<lambda>p. (fst p, f (snd p))) m) k = map_option f (map_of m k)"
  by (induction m) auto

text \<open>The published text in terms of rows.\<close>

lemma entries_make:
  assumes "\<forall>e \<in> set es. e = make_currency_entry (ce_model e)"
  shows "map MakeCurrencyDtoJson (map ce_model es) = map ce_dto_json es"
  using assms by (induction es) (auto, metis make_entry_sel(2))

lemma published_rows:
  assumes "currencies_inv L c"
  shows "\<exists>rows. distinct (map currency_id rows) \<and>
    map_of (map (\<lambda>r. (currency_id r, r)) rows) = currency_table c \<and>
    all_currencies_json c =
      (if rows = [] then [] else lib_json_dump L (JArray (map MakeCurrencyDtoJson rows)))"
proof -
  let ?m = "currency_by_id_std_map c"
  from assms obtain es where es: "mset es = mset (map snd ?m)"
    "all_currencies_json c = (if es = [] then [] else lib_json_dump L (JArray (map ce_dto_json es)))"
    by (auto simp: currencies_inv_def lists_table_def)
  have ok: "\<forall>p \<in> set ?m. entry_ok (fst p) (snd p)" and dist: "distinct (map fst ?m)"
    and same: "currency_by_id c = ?m"
    using assms by (auto simp: currencies_inv_def)
  have keys: "map fst ?m = map (currency_id \<circ> ce_model \<circ> snd) ?m"
    using ok by (auto simp: entry_ok_def)
  have set: "set es = set (map snd ?m)" using es(1) by (rule mset_eq_setD)
  let ?rows = "map ce_model es"
  have "map (currency_id \<circ> ce_model) (map snd ?m) = map fst ?m"
    using keys by (simp add: comp_assoc)
  then have "mset (map (currency_id \<circ> ce_model) es) = mset (map fst ?m)"
    using es(1) by (metis mset_map)
  then have "mset (map currency_id ?rows) = mset (map fst ?m)" by simp
  then have drows: "distinct (map currency_id ?rows)"
    using dist mset_eq_imp_distinct_iff by blast
  have "set (map (\<lambda>r. (currency_id r, r)) ?rows) = set (map (\<lambda>p. (fst p, ce_model (snd p))) ?m)"
    using ok by (force simp: set entry_ok_def)
  then have "map_of (map (\<lambda>r. (currency_id r, r)) ?rows) = map_of (map (\<lambda>p. (fst p, ce_model (snd p))) ?m)"
    using drows dist by (subst map_of_inject_set) (simp_all add: comp_def)
  then have "map_of (map (\<lambda>r. (currency_id r, r)) ?rows) = currency_table c"
    by (simp add: fun_eq_iff map_of_map_snd currency_table_def GetCurrencyById_def same map_find_eq_map_of)
  moreover have docs: "map MakeCurrencyDtoJson ?rows = map ce_dto_json es"
    using ok set by (intro entries_make) (auto simp: entry_ok_def)
  have "all_currencies_json c =
      (if ?rows = [] then [] else lib_json_dump L (JArray (map MakeCurrencyDtoJson ?rows)))"
    using es(2) by (simp only: docs map_is_Nil_conv)
  ultimately show ?thesis
    using drows by blast
qed

lemma currency_table_init: "currency_table CurrenciesCache = Map.empty"
  by (simp add: fun_eq_iff currency_table_def GetCurrencyById_def CurrenciesCache_def)

text \<open>
  C6: after any sequence of full and incremental updates the cache answers look-ups by id
  with exactly the rows of the table it mirrors, and the published text is the document
  of exactly these rows, in some order (the empty text when there are none).  Look-ups by
  code are another matter: they may still give a row the table no longer has.
\<close>

theorem currencies_cache_mirrors_table:
  assumes "string_algo_laws L" and "iteration_order ord"
    and "\<forall>ev \<in> set evs. distinct (map currency_id (rows_of ev))"
  defines "c \<equiv> fold (currency_step L ord) evs CurrenciesCache"
  shows "(\<forall>i. map_option ce_model (GetCurrencyById c i) = fold table_step evs Map.empty i) \<and>
    (\<exists>rows. distinct (map currency_id rows) \<and>
       map_of (map (\<lambda>r. (currency_id r, r)) rows) = fold table_step evs Map.empty \<and>
       GetAllCurrenciesJson c =
         (if rows = [] then [] else lib_json_dump L (JArray (map MakeCurrencyDtoJson rows))))"
proof -
  have inv: "currencies_inv L c" and tab: "currency_table c = fold table_step evs Map.empty"
    using run_currency_events [OF assms(1-3) currencies_inv_init]
    by (simp_all add: c_def currency_table_init)
  from published_rows [OF inv] tab show ?thesis
    by (auto simp: GetAllCurrenciesJson_def currency_table_def fun_eq_iff)
qed

definition usd :: currency where
  "usd = \<lparr>currency_id = 1, code = ''USD'', full_name = ''US Dollar'', sign = ''$''\<rparr>"

definition eur :: currency where
  "eur = \<lparr>currency_id = 2, code = ''EUR'', full_name = ''Euro'', sign = ''E''\<rparr>"

theorem currencies_cache_mirrors_table_witness:
  "map_option ce_model (GetCurrencyById
      (fold (currency_step ref_lib rev) [FullUpdate [usd], Update [eur]] CurrenciesCache) 2) = Some eur"
proof -
  have "\<forall>ev \<in> set [FullUpdate [usd], Update [eur]]. distinct (map currency_id (rows_of ev))"
    by simp
  from currencies_cache_mirrors_table [OF ref_lib_string_algo_laws iteration_order_rev this]
  have "map_option ce_model (GetCurrencyById
      (fold (currency_step ref_lib rev) [FullUpdate [usd], Update [eur]] CurrenciesCache) 2) =
      fold table_step [FullUpdate [usd], Update [eur]] Map.empty 2"
    by blast
  also have "\<dots> = Some eur" by (simp add: upsert_def usd_def eur_def)
  finally show ?thesis .
qed

text \<open>
  C28: after an update a code is looked up, without case, in the last row that has it and
  otherwise as before.  So when a row changes its code, the old code still finds the old
  row while the id finds the new one.
\<close>

theorem currency_code_lookup_after_update:
  assumes "string_algo_laws L"
  shows "GetCurrencyByCode L (CurrenciesCache_UpdateCache L ord rows c) s =
      (case find (\<lambda>r. map ascii_upper (code r) = map ascii_upper s) (rev rows) of
         Some r \<Rightarrow> Some (make_currency_entry r)
       | None \<Rightarrow> GetCurrencyByCode L c s) \<and>
    (map ascii_upper (code r) \<noteq> map ascii_upper s \<longrightarrow> GetCurrencyByCode L c s = Some old \<longrightarrow>
       GetCurrencyByCode L (CurrenciesCache_UpdateCache L ord [r] c) s = Some old \<and>
       GetCurrencyById (CurrenciesCache_UpdateCache L ord [r] c) (currency_id r) =
         Some (make_currency_entry r))"
proof -
  have "GetCurrencyById (CurrenciesCache_UpdateCache L ord [r] c) (currency_id r) =
      Some (make_currency_entry r)"
    by (simp add: GetCurrencyById_def CurrenciesCache_UpdateCache_sel update_currency_sel
        std_key.find_insert_or_assign)
  then show ?thesis
    using update_by_code [OF assms, of ord] by (simp add: same_upper_def)
qed

theorem currency_code_lookup_after_update_witness:
  "let c = CurrenciesCache_UpdateCache ref_lib rev [usd] CurrenciesCache;
       c' = CurrenciesCache_UpdateCache ref_lib rev [usd\<lparr>code := ''UST''\<rparr>] c
   in GetCurrencyByCode ref_lib c' ''usd'' = Some (make_currency_entry usd) \<and>
      GetCurrencyById c' 1 = Some (make_currency_entry (usd\<lparr>code := ''UST''\<rparr>))"
proof -
  let ?c = "CurrenciesCache_UpdateCache ref_lib rev [usd] CurrenciesCache"
  have u: "ascii_upper CHR ''u'' = CHR ''U''" "ascii_upper CHR ''s'' = CHR ''S''"
    "ascii_upper CHR ''d'' = CHR ''D''" "ascii_upper CHR ''U'' = CHR ''U''"
    "ascii_upper CHR ''S'' = CHR ''S''" "ascii_upper CHR ''D'' = CHR ''D''"
    "ascii_upper CHR ''T'' = CHR ''T''"
    by code_simp+
  have "GetCurrencyByCode ref_lib ?c ''usd'' = Some (make_currency_entry usd)"
    using update_by_code [OF ref_lib_string_algo_laws, of rev "[usd]" CurrenciesCache "''usd''"]
    by (simp add: u usd_def same_upper_def)
  then show ?thesis
    using currency_code_lookup_after_update
      [OF ref_lib_string_algo_laws, where ord = rev and c = ?c and s = "''usd''"
       and r = "usd\<lparr>code := ''UST''\<rparr>"]
    by (simp add: u usd_def)
qed

end
