(* ===== verification/Exchange_Rates_Cache.thy ===== *)
theory Exchange_Rates_Cache
  imports Currencies_Cache
begin

text \<open>
  \<open>src/src/caches/exchange_rates_cache.cpp\<close>: the table of exchange rates in memory, with an
  index by id, an index by the pair of currency ids, and the JSON text of the rates whose
  currencies the cache of currencies knows.  Each operation takes that cache as it is while
  the operation runs; the wait for its initialisation is the subject of \<open>Pg_Cache\<close>.
\<close>

section \<open>State\<close>

record exchange_rates_cache =
  exchange_rate_by_id :: "(i32, exchange_rate) kv"
  exchange_rate_by_curr_pair :: "(i32 \<times> i32, exchange_rate) kv"
  all_exchange_rates :: string
  exchange_rate_by_id_std_map :: "(i32, exchange_rate) kv"
  has_skipped_exch_rates :: bool

type_synonym rate_order = "(i32, exchange_rate) kv \<Rightarrow> (i32, exchange_rate) kv"

definition ExchangeRatesCache :: exchange_rates_cache where
  "ExchangeRatesCache =
     \<lparr>exchange_rate_by_id = [], exchange_rate_by_curr_pair = [], all_exchange_rates = [],
      exchange_rate_by_id_std_map = [], has_skipped_exch_rates = False\<rparr>"

definition rate_pair :: "exchange_rate \<Rightarrow> i32 \<times> i32" where
  "rate_pair r = (base_currency_id r, target_currency_id r)"

section \<open>The text of the table\<close>

text \<open>
  The loop over the plain map: it keeps whether a rate was skipped and the array so far, and
  ends early when a document cannot be made.
\<close>

fun rates_json_loop ::
  "'d lib \<Rightarrow> currencies_cache \<Rightarrow> (i32, exchange_rate) kv \<Rightarrow> bool \<Rightarrow> json \<Rightarrow> bool \<times> json res" where
  "rates_json_loop L cc [] skipped j = (skipped, Inr j)"
| "rates_json_loop L cc ((i, r) # ms) skipped j =
     (case GetCurrencyById cc (base_currency_id r) of
        None \<Rightarrow> rates_json_loop L cc ms True j
      | Some base_curr \<Rightarrow>
          (case GetCurrencyById cc (target_currency_id r) of
             None \<Rightarrow> rates_json_loop L cc ms True j
           | Some target_curr \<Rightarrow>
               (case MakeExchangeRateDtoJson L r (ce_dto_json base_curr) (ce_dto_json target_curr) of
                  Inl e \<Rightarrow> (skipped, Inl e)
                | Inr doc \<Rightarrow> rates_json_loop L cc ms skipped (json_push_back j doc))))"

definition AllExchangeRatesToJson ::
  "'d lib \<Rightarrow> rate_order \<Rightarrow> currencies_cache \<Rightarrow> bool \<Rightarrow> exchange_rates_cache \<Rightarrow>
     exchange_rates_cache \<times> string res" where
  "AllExchangeRatesToJson L ord cc is_exch_rates_updated c =
     (if exchange_rate_by_id_std_map c = [] then (c, Inr [])
      else if \<not> has_skipped_exch_rates c \<and> \<not> is_exch_rates_updated then (c, Inr (all_exchange_rates c))
      else case rates_json_loop L cc (ord (exchange_rate_by_id_std_map c)) False JNull of
             (skipped, r) \<Rightarrow>
               (c\<lparr>has_skipped_exch_rates := skipped\<rparr>, res_bind r (\<lambda>j. Inr (lib_json_dump L j))))"

text \<open>\<open>all_exchange_rates_.exchange(AllExchangeRatesToJson(...))\<close>.\<close>

definition exchange_all_rates ::
  "'d lib \<Rightarrow> rate_order \<Rightarrow> currencies_cache \<Rightarrow> bool \<Rightarrow> exchange_rates_cache \<Rightarrow>
     exchange_rates_cache \<times> unit res" where
  "exchange_all_rates L ord cc updated c =
     (case AllExchangeRatesToJson L ord cc updated c of
        (c', Inl e) \<Rightarrow> (c', Inl e)
      | (c', Inr s) \<Rightarrow> (c'\<lparr>all_exchange_rates := s\<rparr>, Inr ()))"

section \<open>Operations\<close>

fun full_update_rate ::
  "exchange_rate \<Rightarrow>
     (i32, exchange_rate) kv \<times> (i32 \<times> i32, exchange_rate) kv \<times> (i32, exchange_rate) kv \<Rightarrow>
     (i32, exchange_rate) kv \<times> (i32 \<times> i32, exchange_rate) kv \<times> (i32, exchange_rate) kv" where
  "full_update_rate row (by_id, by_pair, std_map) =
     (kv_insert (=) (exchange_rate_id row) row by_id, kv_insert (=) (rate_pair row) row by_pair,
      kv_insert (=) (exchange_rate_id row) row std_map)"

definition ExchangeRatesCache_FullUpdateCache ::
  "'d lib \<Rightarrow> rate_order \<Rightarrow> currencies_cache \<Rightarrow> exchange_rate list \<Rightarrow> exchange_rates_cache \<Rightarrow>
     exchange_rates_cache \<times> unit res" where
  "ExchangeRatesCache_FullUpdateCache L ord cc rows c =
     (case fold full_update_rate rows ([], [], []) of
        (by_id, by_pair, std_map) \<Rightarrow>
          exchange_all_rates L ord cc True
            (c\<lparr>exchange_rate_by_id := by_id, exchange_rate_by_curr_pair := by_pair,
               exchange_rate_by_id_std_map := std_map\<rparr>))"

definition update_rate :: "exchange_rate \<Rightarrow> exchange_rates_cache \<Rightarrow> exchange_rates_cache" where
  "update_rate row c =
     c\<lparr>exchange_rate_by_id := kv_insert_or_assign (=) (exchange_rate_id row) row (exchange_rate_by_id c),
       exchange_rate_by_curr_pair :=
         kv_insert_or_assign (=) (rate_pair row) row (exchange_rate_by_curr_pair c),
       exchange_rate_by_id_std_map :=
         kv_insert_or_assign (=) (exchange_rate_id row) row (exchange_rate_by_id_std_map c)\<rparr>"

definition ExchangeRatesCache_UpdateCache ::
  "'d lib \<Rightarrow> rate_order \<Rightarrow> currencies_cache \<Rightarrow> exchange_rate list \<Rightarrow> exchange_rates_cache \<Rightarrow>
     exchange_rates_cache \<times> unit res" where
  "ExchangeRatesCache_UpdateCache L ord cc rows c =
     (if rows = [] then exchange_all_rates L ord cc False c
      else exchange_all_rates L ord cc True (fold update_rate rows c))"

definition GetAllExchangeRatesJson :: "exchange_rates_cache \<Rightarrow> string" where
  "GetAllExchangeRatesJson c = all_exchange_rates c"

definition GetExchangeRateByCurrPair :: "exchange_rates_cache \<Rightarrow> i32 \<Rightarrow> i32 \<Rightarrow> exchange_rate option" where
  "GetExchangeRateByCurrPair c b t = map_find (b, t) (exchange_rate_by_curr_pair c)"

section \<open>What a listed rate looks like\<close>

definition rate_known :: "currencies_cache \<Rightarrow> exchange_rate \<Rightarrow> bool" where
  "rate_known cc r \<longleftrightarrow>
     GetCurrencyById cc (base_currency_id r) \<noteq> None \<and> GetCurrencyById cc (target_currency_id r) \<noteq> None"

text \<open>The document of a rate, with the two currencies it joins.\<close>

definition rate_document ::
  "'d lib \<Rightarrow> (i32 \<Rightarrow> currency option) \<Rightarrow> exchange_rate \<Rightarrow> json \<Rightarrow> bool" where
  "rate_document L t r doc \<longleftrightarrow>
     (\<exists>b g v. t (base_currency_id r) = Some b \<and> currency_id b = base_currency_id r \<and>
        t (target_currency_id r) = Some g \<and> currency_id g = target_currency_id r \<and>
        rate_to_double L (rate r) = Inr v \<and>
        doc = JObject [(''id'', JInt (exchange_rate_id r)), (''baseCurrency'', MakeCurrencyDtoJson b),
                       (''targetCurrency'', MakeCurrencyDtoJson g), (''rate'', JDouble v)])"

context currency_directory
begin

text \<open>Whoever serves the currencies, the document of a rate shows the two rows it names.\<close>

lemma rate_document_of_entries:
  assumes "good d" and "find_id d (base_currency_id r) = Some b"
    and "find_id d (target_currency_id r) = Some g"
    and "MakeExchangeRateDtoJson L r (ce_dto_json b) (ce_dto_json g) = Inr doc"
  shows "rate_document L (\<lambda>i. map_option ce_model (find_id d i)) r doc"
  using assms find_id_entry [OF assms(1,2)] find_id_entry [OF assms(1,3)]
    find_id_dto [OF assms(1,2)] find_id_dto [OF assms(1,3)]
  by (auto simp: rate_document_def MakeExchangeRateDtoJson_def res_simps)

end

lemma rate_document_of_cache:
  assumes "string_algo_laws L" and "currencies_core cc"
    and "GetCurrencyById cc (base_currency_id r) = Some b"
    and "GetCurrencyById cc (target_currency_id r) = Some g"
    and "MakeExchangeRateDtoJson L r (ce_dto_json b) (ce_dto_json g) = Inr doc"
  shows "rate_document L (currency_table cc) r doc"
proof -
  have "directory_good (L, cc)" using assms(1,2) by (simp add: directory_good_def)
  from currencies.rate_document_of_entries [OF this] assms(3-5)
  show ?thesis by (simp add: currency_table_def [abs_def])
qed

lemma rates_json_loop_result:
  assumes "string_algo_laws L" and "currencies_core cc"
    and "rates_json_loop L cc ms skipped (json_array_of js) = (skipped', Inr j)"
  shows "\<exists>docs. j = json_array_of (js @ docs) \<and>
    list_all2 (rate_document L (currency_table cc)) (filter (rate_known cc) (map snd ms)) docs \<and>
    skipped' = (skipped \<or> (\<exists>p \<in> set ms. \<not> rate_known cc (snd p)))"
  using assms(3)
proof (induction ms arbitrary: skipped js)
  case (Cons p ms)
  obtain i r where p: "p = (i, r)" by (cases p)
  show ?case
  proof (cases "rate_known cc r")
    case False
    then have "rates_json_loop L cc ms True (json_array_of js) = (skipped', Inr j)"
      using Cons.prems p by (auto simp: rate_known_def split: option.splits)
    from Cons.IH [OF this] False p show ?thesis by auto
  next
    case True
    then obtain b g where bg: "GetCurrencyById cc (base_currency_id r) = Some b"
      "GetCurrencyById cc (target_currency_id r) = Some g"
      by (auto simp: rate_known_def)
    with Cons.prems p obtain doc where
      doc: "MakeExchangeRateDtoJson L r (ce_dto_json b) (ce_dto_json g) = Inr doc"
      by (auto split: sum.splits)
    with bg Cons.prems p have
      "rates_json_loop L cc ms skipped (json_array_of (js @ [doc])) = (skipped', Inr j)"
      by simp
    from Cons.IH [OF this] obtain docs where
      "j = json_array_of ((js @ [doc]) @ docs)"
      "list_all2 (rate_document L (currency_table cc)) (filter (rate_known cc) (map snd ms)) docs"
      "skipped' = (skipped \<or> (\<exists>p \<in> set ms. \<not> rate_known cc (snd p)))"
      by blast
    then show ?thesis
      using True p rate_document_of_cache [OF assms(1,2) bg doc]
      by (intro exI [of _ "doc # docs"]) auto
  qed
qed simp


text \<open>Building the text only touches the flag; publishing it only touches the text.\<close>

lemma AllExchangeRatesToJson_sel:
  "AllExchangeRatesToJson L ord cc u c = (c', r) \<Longrightarrow>
    exchange_rate_by_id c' = exchange_rate_by_id c \<and>
    exchange_rate_by_curr_pair c' = exchange_rate_by_curr_pair c \<and>
    exchange_rate_by_id_std_map c' = exchange_rate_by_id_std_map c \<and>
    all_exchange_rates c' = all_exchange_rates c"
  by (auto simp: AllExchangeRatesToJson_def split: if_splits prod.splits)

lemma exchange_all_rates_sel:
  "exchange_rate_by_id (fst (exchange_all_rates L ord cc u c)) = exchange_rate_by_id c"
  "exchange_rate_by_curr_pair (fst (exchange_all_rates L ord cc u c)) = exchange_rate_by_curr_pair c"
  "exchange_rate_by_id_std_map (fst (exchange_all_rates L ord cc u c)) = exchange_rate_by_id_std_map c"
  by (auto simp: exchange_all_rates_def dest!: AllExchangeRatesToJson_sel split: prod.splits sum.splits)

lemma exchange_all_rates_failed:
  "exchange_all_rates L ord cc u c = (c', Inl e) \<Longrightarrow> all_exchange_rates c' = all_exchange_rates c"
  by (auto simp: exchange_all_rates_def dest!: AllExchangeRatesToJson_sel split: prod.splits sum.splits)

lemma exchange_all_rates_text:
  assumes "string_algo_laws L" and "iteration_order ord" and "currencies_core cc"
    and "u \<or> has_skipped_exch_rates c" and "exchange_rate_by_id_std_map c \<noteq> []"
    and "exchange_all_rates L ord cc u c = (c', Inr ())"
  shows "\<exists>rs docs. mset rs = mset (filter (rate_known cc) (map snd (exchange_rate_by_id_std_map c'))) \<and>
    list_all2 (rate_document L (currency_table cc)) rs docs \<and>
    all_exchange_rates c' = lib_json_dump L (json_array_of docs) \<and>
    has_skipped_exch_rates c' = (\<exists>p \<in> set (exchange_rate_by_id_std_map c'). \<not> rate_known cc (snd p))"
proof -
  let ?m = "exchange_rate_by_id_std_map c"
  from assms(4-6) obtain skipped j where
    loop: "rates_json_loop L cc (ord ?m) False (json_array_of []) = (skipped, Inr j)" and
    c': "c' = c\<lparr>has_skipped_exch_rates := skipped, all_exchange_rates := lib_json_dump L j\<rparr>"
    by (auto simp: exchange_all_rates_def AllExchangeRatesToJson_def res_simps json_array_of_def
        split: prod.splits sum.splits if_splits)
  from rates_json_loop_result [OF assms(1,3) loop] obtain docs where docs:
    "j = json_array_of docs"
    "list_all2 (rate_document L (currency_table cc)) (filter (rate_known cc) (map snd (ord ?m))) docs"
    "skipped = (\<exists>p \<in> set (ord ?m). \<not> rate_known cc (snd p))"
    by auto
  have "mset (filter (rate_known cc) (map snd (ord ?m))) = mset (filter (rate_known cc) (map snd ?m))"
    using assms(2) by (simp add: iteration_order_def)
  then show ?thesis
    using docs c'
    by (intro exI [of _ "filter (rate_known cc) (map snd (ord ?m))"] exI [of _ docs])
      (simp add: set_iteration_order [OF assms(2)])
qed

lemma rates_json_loop_total:
  assumes "\<forall>p \<in> set ms. \<exists>v. rate_to_double L (rate (snd p)) = Inr v"
  shows "\<exists>j'. snd (rates_json_loop L cc ms skipped j) = Inr j'"
  using assms
proof (induction ms arbitrary: skipped j)
  case (Cons p ms)
  then show ?case
    by (cases p) (auto simp: MakeExchangeRateDtoJson_def split: option.splits sum.splits)
qed simp

lemma exchange_all_rates_total:
  assumes "iteration_order ord"
    and "\<forall>p \<in> set (exchange_rate_by_id_std_map c). \<exists>v. rate_to_double L (rate (snd p)) = Inr v"
  shows "snd (exchange_all_rates L ord cc u c) = Inr ()"
proof -
  have "\<forall>p \<in> set (ord (exchange_rate_by_id_std_map c)). \<exists>v. rate_to_double L (rate (snd p)) = Inr v"
    using assms by (simp add: set_iteration_order)
  from rates_json_loop_total [OF this, of cc False JNull] show ?thesis
    by (auto simp: exchange_all_rates_def AllExchangeRatesToJson_def split: prod.splits sum.splits)
qed

section \<open>The tables\<close>

definition rates_inv :: "exchange_rates_cache \<Rightarrow> bool" where
  "rates_inv c \<longleftrightarrow>
     exchange_rate_by_id c = exchange_rate_by_id_std_map c \<and>
     distinct (map fst (exchange_rate_by_id_std_map c)) \<and>
     (\<forall>p \<in> set (exchange_rate_by_id_std_map c). fst p = exchange_rate_id (snd p)) \<and>
     (\<forall>p \<in> set (exchange_rate_by_curr_pair c). fst p = rate_pair (snd p))"

lemma rates_inv_init: "rates_inv ExchangeRatesCache"
  by (simp add: rates_inv_def ExchangeRatesCache_def)

lemma rates_inv_update_rate: "rates_inv c \<Longrightarrow> rates_inv (update_rate r c)"
  using std_key.distinct_insert_or_assign [of "exchange_rate_by_id_std_map c" "exchange_rate_id r" r]
  by (auto simp: rates_inv_def update_rate_def kv_distinct_iff_distinct
      dest!: std_key.insert_or_assign_entry)

lemma rates_inv_fold: "rates_inv c \<Longrightarrow> rates_inv (fold update_rate rows c)"
  by (induction rows arbitrary: c) (simp_all add: rates_inv_update_rate)

lemma rates_inv_publish: "rates_inv c \<Longrightarrow> rates_inv (fst (exchange_all_rates L ord cc u c))"
  by (simp add: rates_inv_def exchange_all_rates_sel)

lemma full_update_rates_loop:
  "\<exists>by_id by_pair. fold full_update_rate rows ([], [], []) = (by_id, by_pair, by_id) \<and>
    distinct (map fst by_id) \<and> (\<forall>p \<in> set by_id. fst p = exchange_rate_id (snd p)) \<and>
    (\<forall>p \<in> set by_pair. fst p = rate_pair (snd p)) \<and>
    (\<forall>k. map_find k by_pair = find (\<lambda>r. rate_pair r = k) rows)"
proof (induction rows rule: rev_induct)
  case (snoc r rows)
  then obtain by_id by_pair where IH: "fold full_update_rate rows ([], [], []) = (by_id, by_pair, by_id)"
    "distinct (map fst by_id)" "\<forall>p \<in> set by_id. fst p = exchange_rate_id (snd p)"
    "\<forall>p \<in> set by_pair. fst p = rate_pair (snd p)"
    "\<forall>k. map_find k by_pair = find (\<lambda>r. rate_pair r = k) rows"
    by blast
  have "find (\<lambda>r. rate_pair r = k) (rows @ [r]) =
      (case find (\<lambda>r. rate_pair r = k) rows of None \<Rightarrow> (if rate_pair r = k then Some r else None)
       | Some x \<Rightarrow> Some x)" for k
    by (induction rows) auto
  with IH show ?case
    using std_key.distinct_insert [of by_id "exchange_rate_id r" r]
    by (auto simp: std_key.find_insert kv_distinct_iff_distinct dest!: std_key.insert_entry
        split: option.split)
qed simp

lemma rates_inv_operations:
  "rates_inv c \<Longrightarrow> rates_inv (fst (ExchangeRatesCache_UpdateCache L ord cc rows c))"
  "rates_inv (fst (ExchangeRatesCache_FullUpdateCache L ord cc rows c))"
proof -
  show "rates_inv c \<Longrightarrow> rates_inv (fst (ExchangeRatesCache_UpdateCache L ord cc rows c))"
    by (simp add: ExchangeRatesCache_UpdateCache_def rates_inv_publish rates_inv_fold)
  show "rates_inv (fst (ExchangeRatesCache_FullUpdateCache L ord cc rows c))"
    using full_update_rates_loop [of rows]
    by (auto simp: ExchangeRatesCache_FullUpdateCache_def intro!: rates_inv_publish)
      (auto simp: rates_inv_def)
qed

lemma updated_nonempty: "rows \<noteq> [] \<Longrightarrow> exchange_rate_by_id_std_map (fold update_rate rows c) \<noteq> []"
proof (induction rows rule: rev_induct)
  case (snoc r rows)
  have "kv_insert_or_assign eq k v m \<noteq> []" for eq and k :: 'k and v :: 'v and m
    by (cases m) (auto split: if_splits)
  moreover have "exchange_rate_by_id_std_map (update_rate r d) =
      kv_insert_or_assign (=) (exchange_rate_id r) r (exchange_rate_by_id_std_map d)" for d
    by (simp add: update_rate_def)
  ultimately show ?case by simp
qed simp

lemma pair_lookup_fold:
  "map_find k (exchange_rate_by_curr_pair (fold update_rate rows c)) =
    (case find (\<lambda>r. rate_pair r = k) (rev rows) of
       Some r \<Rightarrow> Some r | None \<Rightarrow> map_find k (exchange_rate_by_curr_pair c))"
  by (induction rows rule: rev_induct) (auto simp: update_rate_def std_key.find_insert_or_assign)


text \<open>
  An update always enters its rows in the indexes, even when the text of the table
  cannot be made: a pair of currencies is then looked up in the last row that has it and
  otherwise as before; and if the text cannot be made the old text stays published.
\<close>

theorem rate_pair_lookup_after_update:
  assumes "ExchangeRatesCache_UpdateCache L ord cc rows c = (c', r)"
  shows "GetExchangeRateByCurrPair c' b t =
      (case find (\<lambda>x. base_currency_id x = b \<and> target_currency_id x = t) (rev rows) of
         Some x \<Rightarrow> Some x
       | None \<Rightarrow> GetExchangeRateByCurrPair c b t) \<and>
    (r \<noteq> Inr () \<longrightarrow> GetAllExchangeRatesJson c' = GetAllExchangeRatesJson c)"
proof
  have pair: "(\<lambda>x. base_currency_id x = b \<and> target_currency_id x = t) = (\<lambda>x. rate_pair x = (b, t))"
    by (auto simp: rate_pair_def)
  have "c' = fst (ExchangeRatesCache_UpdateCache L ord cc rows c)" using assms by simp
  then show "GetExchangeRateByCurrPair c' b t =
      (case find (\<lambda>x. base_currency_id x = b \<and> target_currency_id x = t) (rev rows) of
         Some x \<Rightarrow> Some x | None \<Rightarrow> GetExchangeRateByCurrPair c b t)"
    by (simp add: GetExchangeRateByCurrPair_def ExchangeRatesCache_UpdateCache_def
        exchange_all_rates_sel pair pair_lookup_fold split: option.split)
  have "all_exchange_rates (fold update_rate rows c) = all_exchange_rates c"
    by (induction rows arbitrary: c) (simp_all add: update_rate_def)
  then show "r \<noteq> Inr () \<longrightarrow> GetAllExchangeRatesJson c' = GetAllExchangeRatesJson c"
    using assms
    by (cases r) (auto simp: GetAllExchangeRatesJson_def ExchangeRatesCache_UpdateCache_def
        dest!: exchange_all_rates_failed split: if_splits)
qed

definition usd_eur :: exchange_rate where
  "usd_eur = \<lparr>exchange_rate_id = 7, base_currency_id = 1, target_currency_id = 2, rate = ''2''\<rparr>"

theorem rate_pair_lookup_after_update_witness:
  "GetExchangeRateByCurrPair
     (fst (ExchangeRatesCache_UpdateCache ref_lib rev CurrenciesCache [usd_eur] ExchangeRatesCache)) 1 2 =
   Some usd_eur"
  using rate_pair_lookup_after_update [where L = ref_lib and ord = rev and cc = CurrenciesCache
      and rows = "[usd_eur]" and c = ExchangeRatesCache and b = 1 and t = 2, OF prod.collapse [symmetric]]
  by (simp add: usd_eur_def)

lemma all_exchange_rates_fold: "all_exchange_rates (fold update_rate rows c) = all_exchange_rates c"
  by (induction rows arbitrary: c) (simp_all add: update_rate_def)

lemma exchange_all_rates_kept:
  assumes "exchange_all_rates L ord cc False c = (c', Inr ())"
  shows "exchange_rate_by_id_std_map c' = [] \<Longrightarrow> all_exchange_rates c' = []"
    and "exchange_rate_by_id_std_map c' \<noteq> [] \<Longrightarrow> \<not> has_skipped_exch_rates c \<Longrightarrow>
      all_exchange_rates c' = all_exchange_rates c"
  using assms exchange_all_rates_sel(3) [of L ord cc False c]
  by (auto simp: exchange_all_rates_def AllExchangeRatesToJson_def split: prod.splits sum.splits if_splits)

text \<open>
  C15: what is published after an update. An update that fails because a document cannot be
  made leaves the text as it was; over an empty table the text is empty; an update without
  rows after a text that left no rate out keeps that text, whatever has become of the
  currencies since; every other update publishes the documents of exactly the rates whose
  two currencies are known now, each with the current rows of the currencies it names, and
  remembers whether any rate was left out.
\<close>

theorem published_rates:
  assumes "string_algo_laws L" and "iteration_order ord" and "currencies_core cc"
    and "ExchangeRatesCache_UpdateCache L ord cc rows c = (c', r)"
  shows "case r of
      Inl e \<Rightarrow> GetAllExchangeRatesJson c' = GetAllExchangeRatesJson c
    | Inr _ \<Rightarrow>
        if exchange_rate_by_id_std_map c' = [] then GetAllExchangeRatesJson c' = []
        else if rows = [] \<and> \<not> has_skipped_exch_rates c then
          GetAllExchangeRatesJson c' = GetAllExchangeRatesJson c
        else \<exists>rs docs. mset rs = mset (filter (rate_known cc) (map snd (exchange_rate_by_id_std_map c'))) \<and>
          list_all2 (rate_document L (currency_table cc)) rs docs \<and>
          GetAllExchangeRatesJson c' = lib_json_dump L (json_array_of docs) \<and>
          has_skipped_exch_rates c' = (\<exists>p \<in> set (exchange_rate_by_id_std_map c'). \<not> rate_known cc (snd p))"
proof (cases r)
  case (Inl e)
  with assms(4) show ?thesis
    by (auto simp: ExchangeRatesCache_UpdateCache_def GetAllExchangeRatesJson_def all_exchange_rates_fold
        dest!: exchange_all_rates_failed split: if_splits)
next
  case (Inr u)
  show ?thesis
  proof (cases "rows = []")
    case True
    with assms(4) Inr have upd: "exchange_all_rates L ord cc False c = (c', Inr ())"
      by (simp add: ExchangeRatesCache_UpdateCache_def)
    then have "exchange_rate_by_id_std_map c' = exchange_rate_by_id_std_map c"
      using exchange_all_rates_sel(3) [of L ord cc False c] by simp
    with True Inr upd exchange_all_rates_kept [OF upd]
      exchange_all_rates_text [OF assms(1-3), of False c c'] show ?thesis
      by (simp add: GetAllExchangeRatesJson_def)
  next
    case False
    let ?d = "fold update_rate rows c"
    from False assms(4) Inr have upd: "exchange_all_rates L ord cc True ?d = (c', Inr ())"
      by (simp add: ExchangeRatesCache_UpdateCache_def)
    then have "exchange_rate_by_id_std_map c' = exchange_rate_by_id_std_map ?d"
      using exchange_all_rates_sel(3) [of L ord cc True ?d] by simp
    with False Inr upd updated_nonempty [OF False, of c]
      exchange_all_rates_text [OF assms(1-3), of True ?d c'] show ?thesis
      by (simp add: GetAllExchangeRatesJson_def)
  qed
qed

theorem published_rates_witness:
  "let cc = CurrenciesCache_UpdateCache ref_lib rev [usd, eur] CurrenciesCache;
       c' = fst (ExchangeRatesCache_UpdateCache ref_lib rev cc [usd_eur] ExchangeRatesCache)
   in \<exists>rs docs. mset rs = mset (filter (rate_known cc) (map snd (exchange_rate_by_id_std_map c'))) \<and>
        list_all2 (rate_document ref_lib (currency_table cc)) rs docs \<and>
        GetAllExchangeRatesJson c' = lib_json_dump ref_lib (json_array_of docs)"
proof -
  let ?cc = "CurrenciesCache_UpdateCache ref_lib rev [usd, eur] CurrenciesCache"
  let ?u = "ExchangeRatesCache_UpdateCache ref_lib rev ?cc [usd_eur] ExchangeRatesCache"
  have "currencies_inv ref_lib ?cc"
    by (rule currencies_inv_update) (simp_all add: currencies_inv_init)
  then have core: "currencies_core ?cc" by (simp add: currencies_inv_core)
  have "snd ?u = Inr ()" by code_simp
  then have u: "?u = (fst ?u, Inr ())" by (metis prod.collapse)
  have "exchange_rate_by_id_std_map (fst ?u) \<noteq> []" by code_simp
  then have "\<not> (exchange_rate_by_id_std_map (fst ?u) = [])" "\<not> ([usd_eur] = [] \<and> \<not> has_skipped_exch_rates ExchangeRatesCache)"
    by simp_all
  note cases = this
  from published_rates [OF ref_lib_string_algo_laws iteration_order_rev core u]
  show ?thesis unfolding Let_def sum.case if_not_P [OF cases(1)] if_not_P [OF cases(2)] by blast
qed

text \<open>
  C40: when none of its rates has known currencies, a table that is not empty is published
  as the document \<open>null\<close>, while the empty table is published as the empty text.
\<close>

theorem unknown_rates_published_as_null:
  assumes "iteration_order ord" and "rows \<noteq> []"
    and "\<forall>p \<in> set (exchange_rate_by_id_std_map c'). \<not> rate_known cc (snd p)"
    and "ExchangeRatesCache_UpdateCache L ord cc rows c = (c', r)"
  shows "r = Inr () \<and> GetAllExchangeRatesJson c' = lib_json_dump L JNull \<and> has_skipped_exch_rates c' \<and>
    GetAllExchangeRatesJson (fst (ExchangeRatesCache_FullUpdateCache L ord cc [] c)) = []"
proof -
  let ?d = "fold update_rate rows c"
  have m: "exchange_rate_by_id_std_map c' = exchange_rate_by_id_std_map ?d"
    using assms(2,4) exchange_all_rates_sel(3) [of L ord cc True ?d]
    by (simp add: ExchangeRatesCache_UpdateCache_def)
  have nonempty: "exchange_rate_by_id_std_map ?d \<noteq> []"
    by (rule updated_nonempty [OF assms(2)])
  have loop: "rates_json_loop L cc ms skipped j = (skipped \<or> ms \<noteq> [], Inr j)"
    if "\<forall>p \<in> set ms. \<not> rate_known cc (snd p)" for ms skipped j
    using that by (induction ms arbitrary: skipped) (auto simp: rate_known_def split: option.splits)
  have "rates_json_loop L cc (ord (exchange_rate_by_id_std_map ?d)) False JNull = (True, Inr JNull)"
    using assms(1,3) nonempty m
    by (subst loop) (auto simp: set_iteration_order iteration_order_Nil_iff)
  then show ?thesis
    using assms(2,4) nonempty
    by (auto simp: ExchangeRatesCache_UpdateCache_def exchange_all_rates_def AllExchangeRatesToJson_def
        GetAllExchangeRatesJson_def ExchangeRatesCache_FullUpdateCache_def)
qed

theorem unknown_rates_published_as_null_witness:
  "GetAllExchangeRatesJson
     (fst (ExchangeRatesCache_UpdateCache ref_lib rev CurrenciesCache [usd_eur] ExchangeRatesCache)) =
   lib_json_dump ref_lib JNull"
proof -
  let ?u = "ExchangeRatesCache_UpdateCache ref_lib rev CurrenciesCache [usd_eur] ExchangeRatesCache"
  have "\<forall>p \<in> set (exchange_rate_by_id_std_map (fst ?u)). \<not> rate_known CurrenciesCache (snd p)"
    by (simp add: rate_known_def GetCurrencyById_def CurrenciesCache_def)
  from unknown_rates_published_as_null [OF iteration_order_rev _ this prod.collapse [symmetric]]
  show ?thesis by simp
qed

end
