(* ===== verification/Handlers_Get.thy ===== *)
theory Handlers_Get
  imports Http_Handler Exchange_Rates_Cache Form_Data
begin

text \<open>
  \<open>src/src/handlers/get_*.cpp\<close> and \<open>src/src/utils/utils.cpp\<close>: the handlers that answer from the
  two caches.  Each takes the caches as they are while it runs, the request and the
  response, and returns the flow of its body.
\<close>

section \<open>Common pieces\<close>

definition ParseCurrPair :: "string \<Rightarrow> (string \<times> string) option" where
  "ParseCurrPair curr_pair =
     (if length curr_pair \<noteq> 6 then None else Some (take 3 curr_pair, drop 3 curr_pair))"

text \<open>\<open>SetStatusCode(st); Send(MakeError(msg))\<close>, and \<open>throw HttpException{MakeError(msg), st}\<close>.\<close>

definition send_error :: "'d lib \<Rightarrow> HttpStatus \<Rightarrow> string \<Rightarrow> http_response \<Rightarrow> response_call" where
  "send_error L st msg response = Send L (MakeError L msg) (SetStatusCode L st response)"

definition http_error :: "'d lib \<Rightarrow> string \<Rightarrow> HttpStatus \<Rightarrow> 'a res" where
  "http_error L msg st = throw_exn (HttpException (MakeError L msg) st)"

section \<open>GET /currencies and GET /currency/{code}\<close>

definition get_currencies_HandleRequestJson :: "'d lib \<Rightarrow> currencies_cache \<Rightarrow> json_handler" where
  "get_currencies_HandleRequestJson L curr_cache request response body_json =
     answered (Send L (GetAllCurrenciesJson curr_cache) response)"

definition get_currency_HandleRequestJson :: "'d lib \<Rightarrow> currencies_cache \<Rightarrow> json_handler" where
  "get_currency_HandleRequestJson L curr_cache request response body_json =
     (case matches_at (GetMatchResult request) ''code'' of
        Inl e \<Rightarrow> Raised e (Some response)
      | Inr cd \<Rightarrow>
          if cd = [] then answered (send_error L kBadRequest ''There is no currency code in the URL'' response)
          else (case GetCurrencyByCode L curr_cache cd of
                  None \<Rightarrow> answered (send_error L kNotFound ''Currency not found'' response)
                | Some cy \<Rightarrow> answered (Send L (lib_json_dump L (ce_dto_json cy)) response)))"

section \<open>GET /exchangeRates and GET /exchangeRate/{curr_pair}\<close>

definition get_exchange_rates_HandleRequestJson :: "'d lib \<Rightarrow> exchange_rates_cache \<Rightarrow> json_handler" where
  "get_exchange_rates_HandleRequestJson L exch_rates_cache request response body_json =
     answered (Send L (GetAllExchangeRatesJson exch_rates_cache) response)"

definition get_exchange_rate_HandleRequestJson ::
  "'d lib \<Rightarrow> currencies_cache \<Rightarrow> exchange_rates_cache \<Rightarrow> json_handler" where
  "get_exchange_rate_HandleRequestJson L curr_cache exch_rates_cache request response body_json =
     (let not_found = answered (send_error L kNotFound ''Exchange rate not found'' response)
      in case matches_at (GetMatchResult request) ''curr_pair'' of
           Inl e \<Rightarrow> Raised e (Some response)
         | Inr curr_pair_str \<Rightarrow>
             if curr_pair_str = []
             then answered (send_error L kBadRequest ''There is no currency pair in the URL'' response)
             else case ParseCurrPair curr_pair_str of
               None \<Rightarrow> answered (send_error L kBadRequest ''Invalid currency pair'' response)
             | Some (base_code, target_code) \<Rightarrow>
                 (case GetCurrencyByCode L curr_cache base_code of
                    None \<Rightarrow> not_found
                  | Some base_curr \<Rightarrow>
                      (case GetCurrencyByCode L curr_cache target_code of
                         None \<Rightarrow> not_found
                       | Some target_curr \<Rightarrow>
                           (case GetExchangeRateByCurrPair exch_rates_cache
                                   (currency_id (ce_model base_curr)) (currency_id (ce_model target_curr)) of
                              None \<Rightarrow> not_found
                            | Some exch_rate \<Rightarrow>
                                returning response
                                  (res_bind (MakeExchangeRateDtoJson L exch_rate (ce_dto_json base_curr)
                                     (ce_dto_json target_curr))
                                   (\<lambda>doc. Inr (Send L (lib_json_dump L doc) response)))))))"

section \<open>GET /exchange\<close>

record exchange_request_data =
  ex_base_currency_code :: string
  ex_target_currency_code :: string
  ex_amount :: string

text \<open>
  \<open>query->find(name)\<close> compares decoded names; on a query that does not parse the result is
  dereferenced all the same.  A parameter counts if it has a value.
\<close>

definition find_parameter ::
  "'d lib \<Rightarrow> (string \<times> string option) list \<Rightarrow> string \<Rightarrow> string option" where
  "find_parameter L ps name =
     (case find (\<lambda>p. lib_pct_decode L (fst p) = name) ps of
        None \<Rightarrow> None
      | Some (key, v) \<Rightarrow> v)"

definition exchange_ParseRequest :: "'d lib \<Rightarrow> http_request \<Rightarrow> exchange_request_data res" where
  "exchange_ParseRequest L request =
     (case GetQuery L request of
        None \<Rightarrow> Inl Undefined
      | Some query \<Rightarrow>
          (case find_parameter L query ''from'' of
             None \<Rightarrow> http_error L ''Parameter 'from' is required'' kBadRequest
           | Some base \<Rightarrow>
               if length base \<noteq> 3 then http_error L ''Parameter 'from' is invalid'' kBadRequest
               else (case find_parameter L query ''to'' of
                  None \<Rightarrow> http_error L ''Parameter 'to' is required'' kBadRequest
                | Some target \<Rightarrow>
                    if length target \<noteq> 3 then http_error L ''Parameter 'to' is invalid'' kBadRequest
                    else (case find_parameter L query ''amount'' of
                       None \<Rightarrow> http_error L ''Parameter 'amount' is required'' kBadRequest
                     | Some amount \<Rightarrow>
                         Inr \<lparr>ex_base_currency_code = base, ex_target_currency_code = target,
                              ex_amount = amount\<rparr>))))"

definition FindCurrencyPairByCodes ::
  "'d lib \<Rightarrow> currencies_cache \<Rightarrow> string \<Rightarrow> string \<Rightarrow> (currency_entry \<times> currency_entry) res" where
  "FindCurrencyPairByCodes L curr_cache base_curr_code target_curr_code =
     (case GetCurrencyByCode L curr_cache base_curr_code of
        None \<Rightarrow> http_error L ''Base currency not found'' kNotFound
      | Some base_curr \<Rightarrow>
          (case GetCurrencyByCode L curr_cache target_curr_code of
             None \<Rightarrow> http_error L ''Target currency not found'' kNotFound
           | Some target_curr \<Rightarrow> Inr (base_curr, target_curr)))"

definition FindExchangeRateByCurrencyPair ::
  "exchange_rates_cache \<Rightarrow> i32 \<Rightarrow> i32 \<Rightarrow> exchange_rate option" where
  "FindExchangeRateByCurrencyPair exch_rates_cache base_curr_id target_curr_id =
     GetExchangeRateByCurrPair exch_rates_cache base_curr_id target_curr_id"

definition FindUsdExchangeRates ::
  "'d lib \<Rightarrow> currencies_cache \<Rightarrow> exchange_rates_cache \<Rightarrow> i32 \<Rightarrow> i32 \<Rightarrow>
     (exchange_rate \<times> exchange_rate) res" where
  "FindUsdExchangeRates L curr_cache exch_rates_cache base_curr_id target_curr_id =
     (let not_found = http_error L ''Exchange rate not found'' kNotFound
      in case GetCurrencyByCode L curr_cache ''USD'' of
           None \<Rightarrow> not_found
         | Some usd_curr \<Rightarrow>
             (case FindExchangeRateByCurrencyPair exch_rates_cache
                     (currency_id (ce_model usd_curr)) base_curr_id of
                None \<Rightarrow> not_found
              | Some usd_base \<Rightarrow>
                  (case FindExchangeRateByCurrencyPair exch_rates_cache
                          (currency_id (ce_model usd_curr)) target_curr_id of
                     None \<Rightarrow> not_found
                   | Some usd_target \<Rightarrow> Inr (usd_base, usd_target))))"

text \<open>
  The three ways to a rate: the pair itself, the reverse pair, or through the dollar.  Each
  branch reads the amount after the rate and sends the document of the conversion.
\<close>

definition exchange_HandleRequest ::
  "'d lib \<Rightarrow> currencies_cache \<Rightarrow> exchange_rates_cache \<Rightarrow> handler" where
  "exchange_HandleRequest L curr_cache exch_rates_cache request response =
     returning response
       (res_bind (exchange_ParseRequest L request) (\<lambda>request_data.
        res_bind (FindCurrencyPairByCodes L curr_cache (ex_base_currency_code request_data)
                    (ex_target_currency_code request_data)) (\<lambda>(base_curr, target_curr).
        let base_id = currency_id (ce_model base_curr); target_id = currency_id (ce_model target_curr);
            send = (\<lambda>rt amount converted_amount.
              res_bind (MakeConvertedAmountDtoJson L (ce_model base_curr) (ce_model target_curr)
                          (lib_dec_str2 L rt) (lib_dec_str2 L amount) (lib_dec_str2 L converted_amount))
                (\<lambda>doc. Inr (Send L (lib_json_dump L doc) response)))
        in case FindExchangeRateByCurrencyPair exch_rates_cache base_id target_id of
             Some exch_rate \<Rightarrow>
               res_bind (Decimal L (rate exch_rate)) (\<lambda>rt.
               res_bind (Decimal L (ex_amount request_data)) (\<lambda>amount.
                 send rt amount (CalcConvAmount L rt amount)))
           | None \<Rightarrow>
               (case FindExchangeRateByCurrencyPair exch_rates_cache target_id base_id of
                  Some exch_rate \<Rightarrow>
                    res_bind (Decimal L (rate exch_rate)) (\<lambda>rt.
                    res_bind (Decimal L (ex_amount request_data)) (\<lambda>amount.
                      let reverse_rate = CalcReverseRate L rt
                      in send reverse_rate amount (CalcConvAmount L reverse_rate amount)))
                | None \<Rightarrow>
                    res_bind (FindUsdExchangeRates L curr_cache exch_rates_cache base_id target_id)
                      (\<lambda>(usd_base, usd_target).
                    res_bind (CalcRateByUsdExchRates L (rate usd_base) (rate usd_target)) (\<lambda>rt.
                    res_bind (Decimal L (ex_amount request_data)) (\<lambda>amount.
                      send rt amount (CalcConvAmount L rt amount))))))))"


section \<open>Every request gets one answer\<close>

definition get_currencies :: "'d lib \<Rightarrow> currencies_cache \<Rightarrow> handler" where
  "get_currencies L cc = HttpHandlerJson_HandleRequest L (get_currencies_HandleRequestJson L cc)"

definition get_currency :: "'d lib \<Rightarrow> currencies_cache \<Rightarrow> handler" where
  "get_currency L cc = HttpHandlerJson_HandleRequest L (get_currency_HandleRequestJson L cc)"

definition get_exchange_rates :: "'d lib \<Rightarrow> exchange_rates_cache \<Rightarrow> handler" where
  "get_exchange_rates L rc = HttpHandlerJson_HandleRequest L (get_exchange_rates_HandleRequestJson L rc)"

definition get_exchange_rate :: "'d lib \<Rightarrow> currencies_cache \<Rightarrow> exchange_rates_cache \<Rightarrow> handler" where
  "get_exchange_rate L cc rc = HttpHandlerJson_HandleRequest L (get_exchange_rate_HandleRequestJson L cc rc)"

lemma benign_returns [simp]:
  "benign (http_error L msg st) \<longleftrightarrow> \<not> bodiless (http_status_value st)"
  "benign (Decimal L s)"
  "benign (FromChars_double L s)"
  "benign (matches_at m i)"
  by (auto simp: http_error_def Decimal_def FromChars_double_def matches_at_def split: option.split)

lemma benign_documents [simp]:
  "benign (MakeExchangeRateDtoJson L r b t)"
  "benign (MakeConvertedAmountDtoJson L bc tc rt am cv)"
  "benign (CalcRateByUsdExchRates L ub ut)"
  by (auto simp: MakeExchangeRateDtoJson_def rate_to_double_def MakeConvertedAmountDtoJson_def
      CalcRateByUsdExchRates_def intro!: benign_bind)

lemma benign_lookups [simp]:
  "benign (FindCurrencyPairByCodes L cc b t)"
  "benign (FindUsdExchangeRates L cc rc bi ti)"
  by (auto simp: FindCurrencyPairByCodes_def FindUsdExchangeRates_def Let_def split: option.split)

lemma benign_exchange_ParseRequest:
  "GetQuery L rq \<noteq> None \<Longrightarrow> benign (exchange_ParseRequest L rq)"
  by (auto simp: exchange_ParseRequest_def Let_def split: option.split)

text \<open>A JSON handler behaves like its body unless the request body is not JSON.\<close>

definition json_body :: "'d lib \<Rightarrow> http_request \<Rightarrow> json option" where
  "json_body L rq = (if GetBody rq = [] then Some JNull else lib_json_parse L (GetBody rq))"

lemma HttpHandlerJson_cases:
  "HttpHandlerJson_HandleRequest L h rq rs =
     (case json_body L rq of
        Some j \<Rightarrow> h rq rs j
      | None \<Rightarrow> returning rs (throw_exn (StdException ''parse_error'')))"
  by (simp add: HttpHandlerJson_HandleRequest_def json_body_def Let_def split: option.split)

text \<open>A body that ends without a statement, benignly, and writes once if it does not throw.\<close>

definition body_ok :: "http_response \<Rightarrow> flow \<Rightarrow> bool" where
  "body_ok rs f \<longleftrightarrow>
     (\<exists>m. f = returning rs m \<and> benign m \<and> (\<forall>c. m = Inr c \<longrightarrow> one_message rs c))"

lemma body_ok_returning:
  "benign m \<Longrightarrow> (\<And>c. m = Inr c \<Longrightarrow> one_message rs c) \<Longrightarrow> body_ok rs (returning rs m)"
  by (auto simp: body_ok_def)

lemma body_ok_answered: "one_message rs c \<Longrightarrow> body_ok rs (answered c)"
  using body_ok_returning [of "Inr c" rs] by simp

lemma body_ok_finished: "one_write rs rs' \<Longrightarrow> body_ok rs (Finished (Some rs'))"
  using body_ok_answered [of rs "(rs', Inr ())"] by simp

lemma body_ok_raised: "benign (Inl e :: unit res) \<Longrightarrow> body_ok rs (Raised e (Some rs))"
  using body_ok_returning [of "Inl e" rs] by (cases e) simp_all

lemma body_ok_matches_at: "matches_at m i = Inl e \<Longrightarrow> body_ok rs (Raised e (Some rs))"
  by (rule body_ok_raised) (auto simp: matches_at_def split: option.splits)

lemma Process_body_ok:
  assumes "bimap_laws L" and "body_ok rs (h rq rs)"
  shows "\<exists>rs'. HttpHandlerBase_Process h (ExceptionsHandlerImpl L) (Some rq) (Some rs) =
    Finished (Some rs') \<and> one_write rs rs'"
  using assms Process_benign_returning [of h rq rs _ L] unfolding body_ok_def by blast

lemma json_body_ok:
  assumes "\<And>j. body_ok rs (h rq rs j)"
  shows "body_ok rs (HttpHandlerJson_HandleRequest L h rq rs)"
  using assms
  by (auto simp: HttpHandlerJson_cases simp del: returning.simps intro!: body_ok_returning
      split: option.split)

lemma one_message_send_error [simp]:
  "bimap_laws L \<Longrightarrow> \<not> bodiless (http_status_value st) \<Longrightarrow> one_message rs (send_error L st msg rs)"
  by (simp add: send_error_def)

lemma get_currencies_ok: "takes_body rs \<Longrightarrow> body_ok rs (get_currencies_HandleRequestJson L cc rq rs j)"
  by (simp add: get_currencies_HandleRequestJson_def body_ok_finished)

lemma get_currency_ok:
  "bimap_laws L \<Longrightarrow> takes_body rs \<Longrightarrow> body_ok rs (get_currency_HandleRequestJson L cc rq rs j)"
  by (auto simp: get_currency_HandleRequestJson_def
      intro!: body_ok_answered body_ok_finished intro: body_ok_matches_at split: sum.split option.split)

lemma get_exchange_rates_ok: "takes_body rs \<Longrightarrow> body_ok rs (get_exchange_rates_HandleRequestJson L rc rq rs j)"
  by (simp add: get_exchange_rates_HandleRequestJson_def body_ok_finished)

lemma get_exchange_rate_ok:
  "bimap_laws L \<Longrightarrow> takes_body rs \<Longrightarrow> body_ok rs (get_exchange_rate_HandleRequestJson L cc rc rq rs j)"
  by (auto simp: get_exchange_rate_HandleRequestJson_def Let_def res_simps
      intro!: body_ok_answered body_ok_finished body_ok_returning benign_bind intro: body_ok_matches_at
      split: sum.split option.split)

lemma exchange_ok:
  assumes "takes_body rs" and "GetQuery L rq \<noteq> None"
  shows "body_ok rs (exchange_HandleRequest L cc rc rq rs)"
  unfolding exchange_HandleRequest_def
  by (rule body_ok_returning)
    (use assms(1) benign_exchange_ParseRequest [OF assms(2)] in
      \<open>auto simp: Let_def res_simps intro!: benign_bind split: option.split option.splits prod.split\<close>)

lemma get_handlers_ok:
  assumes "bimap_laws L" and "takes_body rs"
    and "h \<in> {get_currencies L cc, get_currency L cc, get_exchange_rates L rc, get_exchange_rate L cc rc} \<or>
      h = exchange_HandleRequest L cc rc \<and> GetQuery L rq \<noteq> None"
  shows "\<exists>rs'. HttpHandlerBase_Process h (ExceptionsHandlerImpl L) (Some rq) (Some rs) =
    Finished (Some rs') \<and> one_write rs rs'"
proof -
  have "body_ok rs (h rq rs)"
    using assms
    by (auto simp: get_currencies_def get_currency_def get_exchange_rates_def get_exchange_rate_def
        intro!: json_body_ok get_currencies_ok get_currency_ok get_exchange_rates_ok
          get_exchange_rate_ok exchange_ok)
  from Process_body_ok [of _ _ h, OF assms(1) this] show ?thesis .
qed

text \<open>A concrete request for the witnesses.\<close>

definition sample_request :: "beast_verb \<Rightarrow> string \<Rightarrow> match_result \<Rightarrow> string \<Rightarrow> string \<Rightarrow> http_request" where
  "sample_request verb path m query body =
     \<lparr>rq_match_result = m,
      rq_request = \<lparr>bq_method = verb, bq_target = path, bq_version = 11, bq_keep_alive = True, bq_body = body\<rparr>,
      rq_path = path, rq_query = query\<rparr>"

section \<open>What the answers say\<close>

lemma message_of_Send_status:
  assumes "bimap_laws L" and "br_body (rs_response rs) = []" and "\<not> bodiless (http_status_value st)"
  shows "\<exists>rs' r. Send L data (SetStatusCode L st rs) = (rs', Inr ()) \<and> rs_calls rs' = rs_calls rs @ [Write r] \<and>
    beast_status_int (br_status r) = http_status_value st \<and> br_body r = data"
  using HttpStatusEnumToBeastStatus_int [OF assms(1), of st] assms
  by (auto simp: resp_simps) (auto simp: message_of_def SetStatusCode_def)

lemma fresh_response:
  assumes "bimap_laws L"
  shows "rs_calls (MakeHttpResponse L k v ct) = []"
    and "br_body (rs_response (MakeHttpResponse L k v ct)) = []"
    and "beast_status_int (br_status (rs_response (MakeHttpResponse L k v ct))) = 200"
  using HttpStatusEnumToBeastStatus_int [OF assms, of kOk]
  by (simp_all add: resp_simps, simp_all add: MakeHttpResponse_def SetHttpVersion_def SetStatusCode_def
      SetKeepAlive_def SetContentType_def HttpResponseImpl_def beast_response_default_def)

lemma message_of_Send:
  assumes "bimap_laws L"
  shows "\<exists>rs' r. Send L data (MakeHttpResponse L k v ct) = (rs', Inr ()) \<and> rs_calls rs' = [Write r] \<and>
    beast_status_int (br_status r) = 200 \<and> br_body r = data"
  using fresh_response [OF assms, of k v ct] assms by (auto simp: resp_simps) (auto simp: message_of_def)

text \<open>
  The rate of a conversion: the stored rate of the pair, else the reciprocal of the stored
  rate of the reverse pair, else the quotient of the dollar rates of the two currencies.
\<close>

definition stored_rate :: "'d lib \<Rightarrow> exchange_rates_cache \<Rightarrow> i32 \<Rightarrow> i32 \<Rightarrow> 'd option option" where
  "stored_rate L rc b t =
     map_option (\<lambda>r. lib_dec_of_string L (rate r)) (GetExchangeRateByCurrPair rc b t)"

definition conversion_rate ::
  "'d lib \<Rightarrow> currencies_cache \<Rightarrow> exchange_rates_cache \<Rightarrow> i32 \<Rightarrow> i32 \<Rightarrow> 'd option" where
  "conversion_rate L cc rc b t =
     (case (stored_rate L rc b t, stored_rate L rc t b) of
        (Some direct, _) \<Rightarrow> direct
      | (None, Some (Some rev_rate)) \<Rightarrow> Some (lib_dec_div L (lib_dec_one L) rev_rate)
      | (None, Some None) \<Rightarrow> None
      | (None, None) \<Rightarrow>
          (case GetCurrencyByCode L cc ''USD'' of
             None \<Rightarrow> None
           | Some u \<Rightarrow>
               (case (stored_rate L rc (currency_id (ce_model u)) t,
                      stored_rate L rc (currency_id (ce_model u)) b) of
                  (Some (Some ut), Some (Some ub)) \<Rightarrow> Some (lib_dec_div L ut ub)
                | _ \<Rightarrow> None)))"

text \<open>
  C17: \<open>GET /exchange\<close> for two known currencies and a numeric amount answers with the amount
  times the conversion rate, all three numbers rounded to two digits for the document.
\<close>

theorem exchange_converts:
  assumes "exchange_ParseRequest L rq =
      Inr \<lparr>ex_base_currency_code = b, ex_target_currency_code = t, ex_amount = a\<rparr>"
    and "GetCurrencyByCode L cc b = Some base" and "GetCurrencyByCode L cc t = Some target"
    and "conversion_rate L cc rc (currency_id (ce_model base)) (currency_id (ce_model target)) = Some rt"
    and "lib_dec_of_string L a = Some amount"
    and "lib_from_chars_double L (lib_dec_str2 L rt) = Some rt64"
    and "lib_from_chars_double L (lib_dec_str2 L amount) = Some amount64"
    and "lib_from_chars_double L (lib_dec_str2 L (lib_dec_mul L amount rt)) = Some converted64"
  shows "exchange_HandleRequest L cc rc rq rs =
    answered (Send L (lib_json_dump L (JObject
      [(''baseCurrency'', MakeCurrencyDtoJson (ce_model base)),
       (''targetCurrency'', MakeCurrencyDtoJson (ce_model target)),
       (''rate'', JDouble rt64), (''amount'', JDouble amount64),
       (''convertedAmount'', JDouble converted64)])) rs)"
proof -
  let ?b = "currency_id (ce_model base)" and ?t = "currency_id (ce_model target)"
  have pair: "FindCurrencyPairByCodes L cc b t = Inr (base, target)"
    using assms(2,3) by (simp add: FindCurrencyPairByCodes_def)
  have doc: "MakeConvertedAmountDtoJson L (ce_model base) (ce_model target) (lib_dec_str2 L rt)
      (lib_dec_str2 L amount) (lib_dec_str2 L (lib_dec_mul L amount rt)) =
      Inr (JObject
        [(''baseCurrency'', MakeCurrencyDtoJson (ce_model base)),
         (''targetCurrency'', MakeCurrencyDtoJson (ce_model target)),
         (''rate'', JDouble rt64), (''amount'', JDouble amount64),
         (''convertedAmount'', JDouble converted64)])"
    using assms(6-8)
    by (simp add: MakeConvertedAmountDtoJson_def FromChars_double_def MakeCurrencyDtoJson_def)
  have am: "Decimal L a = Inr amount" using assms(5) by (simp add: Decimal_def)
  note body = exchange_HandleRequest_def FindExchangeRateByCurrencyPair_def assms(1) pair am
    CalcConvAmount_def
  show ?thesis
  proof (cases "GetExchangeRateByCurrPair rc ?b ?t")
    case (Some r)
    with assms(4) have "Decimal L (rate r) = Inr rt"
      by (simp add: conversion_rate_def stored_rate_def Decimal_def)
    with Some show ?thesis by (simp add: body doc Let_def)
  next
    case None
    note direct = this
    show ?thesis
    proof (cases "GetExchangeRateByCurrPair rc ?t ?b")
      case (Some r)
      with assms(4) direct obtain rr where "Decimal L (rate r) = Inr rr" "rt = CalcReverseRate L rr"
        by (auto simp: conversion_rate_def stored_rate_def Decimal_def CalcReverseRate_def
            split: option.splits)
      with Some direct show ?thesis by (simp add: body doc [unfolded \<open>rt = _\<close>] Let_def)
    next
      case None
      with assms(4) direct obtain x y where
        "FindUsdExchangeRates L cc rc ?b ?t = Inr (x, y)"
        "CalcRateByUsdExchRates L (rate x) (rate y) = Inr rt"
        by (auto simp: conversion_rate_def stored_rate_def FindUsdExchangeRates_def Decimal_def
            FindExchangeRateByCurrencyPair_def CalcRateByUsdExchRates_def split: option.splits)
      with None direct show ?thesis by (simp add: body doc Let_def)
    qed
  qed
qed

theorem exchange_converts_witness:
  "let cc = CurrenciesCache_UpdateCache ref_lib rev [usd, eur] CurrenciesCache;
       rc = fst (ExchangeRatesCache_UpdateCache ref_lib rev cc [usd_eur] ExchangeRatesCache)
   in exchange_HandleRequest ref_lib cc rc
        (sample_request verb_get ''/exchange'' [] ''from=USD&to=EUR&amount=3'' []) HttpResponseImpl =
      answered (Send ref_lib (lib_json_dump ref_lib (JObject
        [(''baseCurrency'', MakeCurrencyDtoJson usd), (''targetCurrency'', MakeCurrencyDtoJson eur),
         (''rate'', JDouble 2), (''amount'', JDouble 3), (''convertedAmount'', JDouble 6)]))
        HttpResponseImpl)"
proof -
  let ?cc = "CurrenciesCache_UpdateCache ref_lib rev [usd, eur] CurrenciesCache"
  let ?rc = "fst (ExchangeRatesCache_UpdateCache ref_lib rev ?cc [usd_eur] ExchangeRatesCache)"
  let ?rq = "sample_request verb_get ''/exchange'' [] ''from=USD&to=EUR&amount=3'' []"
  have rq: "exchange_ParseRequest ref_lib ?rq =
      Inr \<lparr>ex_base_currency_code = ''USD'', ex_target_currency_code = ''EUR'', ex_amount = ''3''\<rparr>"
    by code_simp
  have b: "GetCurrencyByCode ref_lib ?cc ''USD'' = Some (make_currency_entry usd)" by code_simp
  have t: "GetCurrencyByCode ref_lib ?cc ''EUR'' = Some (make_currency_entry eur)" by code_simp
  have rt: "conversion_rate ref_lib ?cc ?rc (currency_id (ce_model (make_currency_entry usd)))
      (currency_id (ce_model (make_currency_entry eur))) = Some 2" by code_simp
  have a: "lib_dec_of_string ref_lib ''3'' = Some 3" by code_simp
  have n: "lib_from_chars_double ref_lib (lib_dec_str2 ref_lib 2) = Some 2"
    "lib_from_chars_double ref_lib (lib_dec_str2 ref_lib 3) = Some 3"
    "lib_from_chars_double ref_lib (lib_dec_str2 ref_lib (lib_dec_mul ref_lib 3 2)) = Some 6"
    by (simp_all add: ref_lib_def)
  from exchange_converts [OF rq b t rt a n] show ?thesis
    unfolding Let_def by simp
qed

end
