(* ===== verification/Handlers_Post.thy ===== *)
theory Handlers_Post
  imports Handlers_Get
begin

text \<open>
  \<open>src/src/handlers/post_currencies.cpp\<close>, \<open>post_exchange_rates.cpp\<close> and
  \<open>patch_exchange_rate.cpp\<close>: the handlers that write to the database.  Each checks its input,
  then sends a statement whose completion handler answers, possibly after a second one.
\<close>

section \<open>Form fields\<close>

text \<open>
  The checks on a form field, in the order of the code: it must be there and not empty, and
  not be longer than the column.
\<close>

definition required_field :: "'d lib \<Rightarrow> form_data \<Rightarrow> string \<Rightarrow> nat \<Rightarrow> string res" where
  "required_field L data name max_size =
     (case map_find name data of
        None \<Rightarrow> http_error L (''Field '' @ CHR 0x27 # name @ CHR 0x27 # '' is required'') kBadRequest
      | Some v \<Rightarrow>
          if v = [] then http_error L (''Field '' @ CHR 0x27 # name @ CHR 0x27 # '' is required'') kBadRequest
          else if max_size < length v
          then http_error L (''Field '' @ CHR 0x27 # name @ CHR 0x27 # '' is invalid'') kBadRequest
          else Inr v)"

section \<open>POST /currencies\<close>

record currency_request_data =
  cd_code :: string
  cd_full_name :: string
  cd_sign :: string

definition post_currencies_ParseRequest :: "'d lib \<Rightarrow> form_data \<Rightarrow> currency_request_data res" where
  "post_currencies_ParseRequest L data =
     res_bind (required_field L data ''name'' 255) (\<lambda>full_name_str.
     res_bind (required_field L data ''code'' 3) (\<lambda>code_str.
     res_bind (required_field L data ''sign'' 16) (\<lambda>sign_str.
       Inr \<lparr>cd_code = lib_to_upper L code_str, cd_full_name = full_name_str, cd_sign = sign_str\<rparr>)))"

text \<open>
  The completion handler.  After an error that is not a unique violation it sends an answer
  and goes on: there is no \<open>return\<close>.
\<close>

definition post_currencies_query_handler ::
  "'d lib \<Rightarrow> http_response \<Rightarrow> currency pg_reply \<Rightarrow> flow" where
  "post_currencies_query_handler L response reply =
     (case reply of (ec, cy) \<Rightarrow>
        let finish = (\<lambda>rs.
              if length cy \<noteq> 1 then answered (send_error L kInternalServerError ''DB error'' rs)
              else answered (Send L (lib_json_dump L (MakeCurrencyDtoJson (cy ! 0))) rs))
        in case ec of
             Some UniqueViolation \<Rightarrow> answered (send_error L kConflict ''Currency already exists'' response)
           | Some OtherPgError \<Rightarrow> sent (send_error L kInternalServerError ''DB error'' response) finish
           | None \<Rightarrow> finish response)"

text \<open>A check that fails ends the body before anything is sent.\<close>

fun checked :: "http_response \<Rightarrow> 'a res \<Rightarrow> ('a \<Rightarrow> flow) \<Rightarrow> flow" where
  "checked rs (Inl e) k = Raised e (Some rs)"
| "checked rs (Inr x) k = k x"

definition post_currencies_HandleRequest :: "'d lib \<Rightarrow> handler" where
  "post_currencies_HandleRequest L request response =
     checked response
       (res_bind (ParseXWWWWFormUrlencodedStr L (GetBody request)) (post_currencies_ParseRequest L))
       (\<lambda>request_data.
          Execute_CurrenciesVec
            (make_query kInsertNewCurrency
              [PgText (cd_code request_data), PgText (cd_full_name request_data),
               PgText (cd_sign request_data)])
            (post_currencies_query_handler L response))"

section \<open>POST /exchangeRates\<close>

record rate_request_data =
  rd_base_currency_code :: string
  rd_target_currency_code :: string
  rd_rate :: string

definition post_exchange_rates_ParseRequest :: "'d lib \<Rightarrow> http_request \<Rightarrow> rate_request_data res" where
  "post_exchange_rates_ParseRequest L request =
     res_bind (ParseXWWWWFormUrlencodedStr L (GetBody request)) (\<lambda>data.
     res_bind (required_field L data ''baseCurrencyCode'' 3) (\<lambda>base_currency_code.
     res_bind (required_field L data ''targetCurrencyCode'' 3) (\<lambda>target_currency_code.
     res_bind (required_field L data ''rate'' 15) (\<lambda>rt.
       Inr \<lparr>rd_base_currency_code = lib_to_upper L base_currency_code,
            rd_target_currency_code = lib_to_upper L target_currency_code, rd_rate = rt\<rparr>))))"

definition select_handler ::
  "'d lib \<Rightarrow> http_response \<Rightarrow> exchange_rate_with_currencies pg_reply \<Rightarrow> flow" where
  "select_handler L response reply =
     (case reply of (ec, exch_rates) \<Rightarrow>
        if ec \<noteq> None \<or> length exch_rates \<noteq> 1
        then answered (send_error L kInternalServerError ''DB error'' response)
        else returning response
          (res_bind (MakeExchangeRateWithCurrDtoJson L (exch_rates ! 0))
            (\<lambda>doc. Inr (Send L (lib_json_dump L doc) response))))"

definition select_rate :: "'d lib \<Rightarrow> http_response \<Rightarrow> i32 \<Rightarrow> flow" where
  "select_rate L response exch_rate_id =
     Execute_ExchangeRateWithCurrenciesVec
       (make_query kSelectExchangeRateWithCurrenciesById [PgInt exch_rate_id]) (select_handler L response)"

definition post_exchange_rates_insert_handler :: "'d lib \<Rightarrow> http_response \<Rightarrow> i32 pg_reply \<Rightarrow> flow" where
  "post_exchange_rates_insert_handler L response reply =
     (case reply of (ec, ids) \<Rightarrow>
        if ec \<noteq> None \<or> length ids \<noteq> 1
        then (if ec = Some UniqueViolation
              then answered (send_error L kConflict ''Exchange rate already exists'' response)
              else answered (send_error L kInternalServerError ''DB error'' response))
        else select_rate L response (ids ! 0))"

text \<open>The look-up of the two currencies both writers of rates share, answered 404 if one is missing.\<close>

definition with_currency_pair ::
  "'d lib \<Rightarrow> currencies_cache \<Rightarrow> http_response \<Rightarrow> rate_request_data \<Rightarrow> (i32 \<Rightarrow> i32 \<Rightarrow> flow) \<Rightarrow> flow" where
  "with_currency_pair L curr_cache response request_data k =
     (case GetCurrencyByCode L curr_cache (rd_base_currency_code request_data) of
        None \<Rightarrow> answered (send_error L kNotFound ''Base currency not found'' response)
      | Some base_curr \<Rightarrow>
          (case GetCurrencyByCode L curr_cache (rd_target_currency_code request_data) of
             None \<Rightarrow> answered (send_error L kNotFound ''Target currency not found'' response)
           | Some target_curr \<Rightarrow>
               k (currency_id (ce_model base_curr)) (currency_id (ce_model target_curr))))"

definition post_exchange_rates_HandleRequest :: "'d lib \<Rightarrow> currencies_cache \<Rightarrow> handler" where
  "post_exchange_rates_HandleRequest L curr_cache request response =
     checked response (post_exchange_rates_ParseRequest L request) (\<lambda>request_data.
       with_currency_pair L curr_cache response request_data (\<lambda>base_id target_id.
         Execute_ExchangeRateIDs
           (make_query kInsertNewExchangeRate
             [PgInt base_id, PgInt target_id, PgText (rd_rate request_data)])
           (post_exchange_rates_insert_handler L response)))"

section \<open>PATCH /exchangeRate/{curr_pair}\<close>

definition patch_ParseRequest :: "'d lib \<Rightarrow> http_request \<Rightarrow> rate_request_data res" where
  "patch_ParseRequest L request =
     res_bind (matches_at (GetMatchResult request) ''curr_pair'') (\<lambda>curr_pair_str.
       if curr_pair_str = [] then http_error L ''There is no currency pair in the URL'' kBadRequest
       else case ParseCurrPair curr_pair_str of
              None \<Rightarrow> http_error L ''Invalid currency pair'' kBadRequest
            | Some (base_currency_code, target_currency_code) \<Rightarrow>
                res_bind (ParseXWWWWFormUrlencodedStr L (GetBody request)) (\<lambda>data.
                res_bind (required_field L data ''rate'' 15) (\<lambda>rt.
                  Inr \<lparr>rd_base_currency_code = lib_to_upper L base_currency_code,
                       rd_target_currency_code = lib_to_upper L target_currency_code,
                       rd_rate = rt\<rparr>)))"

definition patch_insert_handler :: "'d lib \<Rightarrow> http_response \<Rightarrow> i32 pg_reply \<Rightarrow> flow" where
  "patch_insert_handler L response reply =
     (case reply of (ec, ids) \<Rightarrow>
        if ec \<noteq> None \<or> 1 < length ids
        then answered (send_error L kInternalServerError ''DB error'' response)
        else if ids = [] then answered (send_error L kNotFound ''Currency pair doesn't exist'' response)
        else select_rate L response (ids ! 0))"

definition patch_exchange_rate_HandleRequest :: "'d lib \<Rightarrow> currencies_cache \<Rightarrow> handler" where
  "patch_exchange_rate_HandleRequest L curr_cache request response =
     checked response (patch_ParseRequest L request) (\<lambda>request_data.
       with_currency_pair L curr_cache response request_data (\<lambda>base_id target_id.
         Execute_ExchangeRateIDs
           (make_query kUpdateExchangeRateByCurrPair
             [PgText (rd_rate request_data), PgInt base_id, PgInt target_id])
           (patch_insert_handler L response)))"


section \<open>Executions\<close>

lemma answers_once_await:
  "(\<And>db. db \<in> D \<Longrightarrow> answers_once D rs (k0 (pg_currencies db q))) \<Longrightarrow>
    answers_once D rs (Execute_CurrenciesVec q k0)"
  "(\<And>db. db \<in> D \<Longrightarrow> answers_once D rs (k (pg_ids db q))) \<Longrightarrow>
    answers_once D rs (Execute_ExchangeRateIDs q k)"
  "(\<And>db. db \<in> D \<Longrightarrow> answers_once D rs (k2 (pg_rates db q))) \<Longrightarrow>
    answers_once D rs (Execute_ExchangeRateWithCurrenciesVec q k2)"
  by (simp_all add: Execute_defs)

lemma answers_once_not_raises: "answers_once D rs f \<Longrightarrow> \<not> raises_exn f"
  by (cases f) auto

lemma try_catch_id: "\<not> raises_exn f \<Longrightarrow> try_catch xh rq rs f = f"
  by (induction xh rq rs f rule: try_catch.induct) auto

lemma Process_checked:
  assumes "h rq rs = checked rs m k" and "bimap_laws L" and "benign m"
    and "\<And>x. m = Inr x \<Longrightarrow> answers_once D rs (k x)"
  shows "answers_once D rs (HttpHandlerBase_Process h (ExceptionsHandlerImpl L) (Some rq) (Some rs))"
proof (cases m)
  case (Inl e)
  with assms(3) obtain ex where "e = Throws ex" "reportable ex" by (cases e) auto
  with Inl assms(1,2) show ?thesis
    by (auto simp: Process_Raised [of h] intro: answers_once_answered one_message_HandleException)
next
  case (Inr x)
  with assms(1) assms(4) [OF Inr] answers_once_not_raises [OF assms(4) [OF Inr]] show ?thesis
    by (simp add: HttpHandlerBase_Process_def try_catch_id)
qed

lemma benign_insert_pair: "benign (insert_pair L p flds)"
  by (simp add: insert_pair_def Let_def)

lemma benign_fold_insert: "benign (fold_res (insert_pair L) ps flds)"
  by (induction ps arbitrary: flds) (auto intro: benign_bind benign_insert_pair)

lemma benign_form [simp]:
  "benign (ParseXWWWWFormUrlencodedStr L s)"
  "benign (required_field L data name n)"
  by (auto simp: ParseXWWWWFormUrlencodedStr_def required_field_def Let_def benign_fold_insert
      split: option.split)

lemma benign_requests [simp]:
  "benign (post_currencies_ParseRequest L data)"
  "benign (post_exchange_rates_ParseRequest L rq)"
  "benign (patch_ParseRequest L rq)"
  by (auto simp: post_currencies_ParseRequest_def post_exchange_rates_ParseRequest_def
      patch_ParseRequest_def intro!: benign_bind split: option.split)

text \<open>The rows the database returns can be shown: their rates are numbers.\<close>

definition rates_readable :: "'d lib \<Rightarrow> pg_server \<Rightarrow> bool" where
  "rates_readable L db \<longleftrightarrow>
     (\<forall>q. \<forall>r \<in> set (snd (pg_rates db q)). \<exists>v. rate_to_double L (wc_rate r) = Inr v)"

lemma select_handler_once:
  assumes "rates_readable L db" and "bimap_laws L" and "takes_body rs"
  shows "answers_once D rs (select_handler L rs (pg_rates db q))"
proof -
  obtain ec rows where r: "pg_rates db q = (ec, rows)" by (cases "pg_rates db q")
  show ?thesis
  proof (cases "ec \<noteq> None \<or> length rows \<noteq> 1")
    case True
    with r assms(2) show ?thesis by (auto simp: select_handler_def intro: answers_once_answered)
  next
    case False
    then obtain x where "rows = [x]" "ec = None" by (auto simp: length_Suc_conv)
    moreover from this r assms(1) obtain v where "rate_to_double L (wc_rate x) = Inr v"
      unfolding rates_readable_def by (metis list.set_intros(1) snd_conv)
    ultimately show ?thesis
      using r assms(3) by (auto simp: select_handler_def MakeExchangeRateWithCurrDtoJson_def Let_def)
  qed
qed

lemma select_rate_once:
  "(\<And>db. db \<in> D \<Longrightarrow> rates_readable L db) \<Longrightarrow> bimap_laws L \<Longrightarrow> takes_body rs \<Longrightarrow>
    answers_once D rs (select_rate L rs i)"
  by (auto simp: select_rate_def intro!: answers_once_await select_handler_once)

lemma with_currency_pair_once:
  "bimap_laws L \<Longrightarrow> (\<And>b t. answers_once D rs (k b t)) \<Longrightarrow> answers_once D rs (with_currency_pair L cc rs d k)"
  by (auto simp: with_currency_pair_def intro: answers_once_answered split: option.split)

lemma rate_writers_once:
  assumes "\<And>db. db \<in> D \<Longrightarrow> rates_readable L db" and "bimap_laws L" and "takes_body rs"
    and "h = post_exchange_rates_HandleRequest L cc \<or> h = patch_exchange_rate_HandleRequest L cc"
  shows "answers_once D rs (HttpHandlerBase_Process h (ExceptionsHandlerImpl L) (Some rq) (Some rs))"
proof -
  have insert: "answers_once D rs (post_exchange_rates_insert_handler L rs reply)" for reply
    using select_rate_once [OF assms(1-3)] assms(2)
    by (auto simp: post_exchange_rates_insert_handler_def intro: answers_once_answered split: prod.split)
  have patch: "answers_once D rs (patch_insert_handler L rs reply)" for reply
    using select_rate_once [OF assms(1-3)] assms(2)
    by (auto simp: patch_insert_handler_def intro: answers_once_answered split: prod.split)
  show ?thesis
    using assms(4)
  proof
    assume h: "h = post_exchange_rates_HandleRequest L cc"
    show ?thesis
      by (rule Process_checked [OF h [THEN fun_cong, THEN fun_cong, unfolded
            post_exchange_rates_HandleRequest_def] assms(2)])
        (auto intro!: with_currency_pair_once [OF assms(2)] answers_once_await insert)
  next
    assume h: "h = patch_exchange_rate_HandleRequest L cc"
    show ?thesis
      by (rule Process_checked [OF h [THEN fun_cong, THEN fun_cong, unfolded
            patch_exchange_rate_HandleRequest_def] assms(2)])
        (auto intro!: with_currency_pair_once [OF assms(2)] answers_once_await patch)
  qed
qed

definition sample_db :: pg_server where
  "sample_db = \<lparr>pg_currencies = (\<lambda>q. (Some OtherPgError, [])), pg_ids = (\<lambda>q. (None, [5])),
                pg_rates = (\<lambda>q. (None, []))\<rparr>"

section \<open>What the database is asked\<close>

lemma placeholders_simps:
  "placeholders kInsertNewCurrency = 3"
  "placeholders kInsertNewExchangeRate = 3"
  "placeholders kSelectExchangeRateWithCurrenciesById = 1"
  "placeholders kUpdateExchangeRateByCurrPair = 3"
  using placeholders_of_statements by simp_all

lemma statements_Execute [simp]:
  "statements db (Execute_CurrenciesVec q k1) = q # statements db (k1 (pg_currencies db q))"
  "statements db (Execute_ExchangeRateIDs q k2) = q # statements db (k2 (pg_ids db q))"
  "statements db (Execute_ExchangeRateWithCurrenciesVec q k3) = q # statements db (k3 (pg_rates db q))"
  by (simp_all add: Execute_defs)

lemma statements_returning [simp]: "statements db (returning rs m) = []"
  by (cases m) auto

lemma statements_sent [simp]: "(\<And>rs. statements db (k rs) = []) \<Longrightarrow> statements db (sent c k) = []"
  by (induction c k rule: sent.induct) auto

lemma statements_select_rate:
  "statements db (select_rate L rs i) = [make_query kSelectExchangeRateWithCurrenciesById [PgInt i]]"
  by (auto simp: select_rate_def select_handler_def split: prod.split)

lemma statements_handlers:
  "statements db (post_currencies_query_handler L rs r1) = []"
  "set (statements db (post_exchange_rates_insert_handler L rs r2)) \<subseteq>
     {make_query kSelectExchangeRateWithCurrenciesById [PgInt i] | i. True}"
  "set (statements db (patch_insert_handler L rs r2)) \<subseteq>
     {make_query kSelectExchangeRateWithCurrenciesById [PgInt i] | i. True}"
  by (auto simp: post_currencies_query_handler_def post_exchange_rates_insert_handler_def
      patch_insert_handler_def statements_select_rate Let_def
      split: prod.split option.split pg_error.split)

lemma statements_checked:
  "set (statements db (checked rs m k)) \<subseteq> Q"
  if "\<And>x. m = Inr x \<Longrightarrow> set (statements db (k x)) \<subseteq> Q"
  using that by (cases m) auto

lemma statements_with_pair:
  "set (statements db (with_currency_pair L cc rs d k)) \<subseteq> Q"
  if "\<And>b t. set (statements db (k b t)) \<subseteq> Q"
  using that by (auto simp: with_currency_pair_def split: option.split)

lemma required_field_Inr:
  "required_field L data name n = Inr v \<longleftrightarrow>
     map_find name data = Some v \<and> v \<noteq> [] \<and> length v \<le> n"
  by (auto simp: required_field_def http_error_def split: option.splits if_splits)

text \<open>
  The columns (\<open>db/curr_exchange.sql\<close>): a code is a \<open>VARCHAR(3)\<close>, a name and a sign are
  \<open>VARCHAR(255)\<close>, so a text of at most as many bytes fits; a rate is a \<open>NUMERIC(8, 6)\<close>, and
  whether its text is such a number is left to the database.
\<close>

definition varchar :: "nat \<Rightarrow> string \<Rightarrow> bool" where
  "varchar n s \<longleftrightarrow> length s \<le> n"

definition rate_text :: "string \<Rightarrow> bool" where
  "rate_text s \<longleftrightarrow> s \<noteq> [] \<and> length s \<le> 15"

text \<open>The statements the handlers send: one of four, with its values in the order of its places.\<close>

definition safe_statement :: "query \<Rightarrow> bool" where
  "safe_statement q \<longleftrightarrow> well_bound q \<and>
     ((\<exists>c n s. q = (kInsertNewCurrency, [PgText c, PgText n, PgText s]) \<and>
         varchar 3 c \<and> varchar 255 n \<and> varchar 255 s \<and>
         [] \<notin> {c, n, s} \<and> map ascii_upper c = c \<and> length s \<le> 16) \<or>
      (\<exists>b t r. q = (kInsertNewExchangeRate, [PgInt b, PgInt t, PgText r]) \<and> rate_text r) \<or>
      (\<exists>b t r. q = (kUpdateExchangeRateByCurrPair, [PgText r, PgInt b, PgInt t]) \<and> rate_text r) \<or>
      (\<exists>i. q = (kSelectExchangeRateWithCurrenciesById, [PgInt i])))"

lemma safe_select: "set (statements db f) \<subseteq>
    {make_query kSelectExchangeRateWithCurrenciesById [PgInt i] | i. True} \<Longrightarrow>
    set (statements db f) \<subseteq> Collect safe_statement"
  by (auto simp: safe_statement_def well_bound_def make_query_def placeholders_simps)

text \<open>
  C22: whatever a client sends, a statement of the three writing handlers is one of four and
  has a value for each of its placeholders.  The texts of a new currency are not empty and
  fit their columns: a code of at most three bytes in upper case, a name of at most 255 bytes
  and a sign of at most 16.  Of the text of a rate only the length is checked: it has 1 to 15
  bytes, and any such text that a request to change a rate carries is sent as it is, number
  or not.
\<close>

theorem statements_are_bound:
  assumes "string_algo_laws L"
    and "h \<in> {post_currencies_HandleRequest L, post_exchange_rates_HandleRequest L cc,
              patch_exchange_rate_HandleRequest L cc}"
  shows "(\<forall>q \<in> set (statements db (h rq rs)). safe_statement q) \<and>
    (\<forall>data r pair b t. ParseXWWWWFormUrlencodedStr L (GetBody rq) = Inr data \<longrightarrow>
       map_find ''rate'' data = Some r \<longrightarrow> rate_text r \<longrightarrow>
       matches_at (GetMatchResult rq) ''curr_pair'' = Inr pair \<longrightarrow> length pair = 6 \<longrightarrow>
       GetCurrencyByCode L cc (lib_to_upper L (take 3 pair)) = Some b \<longrightarrow>
       GetCurrencyByCode L cc (lib_to_upper L (drop 3 pair)) = Some t \<longrightarrow>
       make_query kUpdateExchangeRateByCurrPair
         [PgText r, PgInt (currency_id (ce_model b)), PgInt (currency_id (ce_model t))] \<in>
       set (statements db (patch_exchange_rate_HandleRequest L cc rq rs)))"
proof -
  have up: "length (lib_to_upper L s) = length s" "lib_to_upper L s = [] \<longleftrightarrow> s = []" "[] = lib_to_upper L s \<longleftrightarrow> s = []"
    "map ascii_upper (lib_to_upper L s) = lib_to_upper L s" for s
    using assms(1) by (auto simp: string_algo_laws_def)
  note defs = post_currencies_ParseRequest_def post_exchange_rates_ParseRequest_def
    patch_ParseRequest_def required_field_Inr res_simps safe_statement_def well_bound_def make_query_def
    placeholders_simps rate_text_def varchar_def
  have "set (statements db (post_currencies_HandleRequest L rq rs)) \<subseteq> Collect safe_statement"
    unfolding post_currencies_HandleRequest_def
    by (rule statements_checked) (auto simp: defs statements_handlers up)
  moreover have "set (statements db (post_exchange_rates_HandleRequest L cc rq rs)) \<subseteq> Collect safe_statement"
    unfolding post_exchange_rates_HandleRequest_def
    by (intro statements_checked statements_with_pair)
      (auto simp: defs dest!: safe_select [OF statements_handlers(2), THEN subsetD])
  moreover have "set (statements db (patch_exchange_rate_HandleRequest L cc rq rs)) \<subseteq> Collect safe_statement"
    unfolding patch_exchange_rate_HandleRequest_def
    by (intro statements_checked statements_with_pair)
      (auto simp: defs http_error_def split: if_splits option.splits
        dest!: safe_select [OF statements_handlers(3), THEN subsetD])
  ultimately have "\<forall>q \<in> set (statements db (h rq rs)). safe_statement q" using assms(2) by blast
  moreover have "patch_ParseRequest L rq = Inr \<lparr>rd_base_currency_code = lib_to_upper L (take 3 pair),
      rd_target_currency_code = lib_to_upper L (drop 3 pair), rd_rate = r\<rparr>"
    if "ParseXWWWWFormUrlencodedStr L (GetBody rq) = Inr data" "map_find ''rate'' data = Some r" "rate_text r"
      "matches_at (GetMatchResult rq) ''curr_pair'' = Inr pair" "length pair = 6" for data r pair
    using that by (auto simp: patch_ParseRequest_def ParseCurrPair_def required_field_def rate_text_def)
  ultimately show ?thesis
    by (auto simp: patch_exchange_rate_HandleRequest_def with_currency_pair_def)
qed

theorem statements_are_bound_witness:
  "safe_statement (make_query kInsertNewCurrency [PgText ''GBP'', PgText ''Pound'', PgText ''P''])"
proof -
  let ?h = "post_currencies_HandleRequest ref_lib"
  let ?rq = "sample_request verb_post ''/currencies'' [] [] ''name=Pound&code=gbp&sign=P''"
  have "statements sample_db (?h ?rq HttpResponseImpl) =
      [make_query kInsertNewCurrency [PgText ''GBP'', PgText ''Pound'', PgText ''P'']]"
    by code_simp
  then have "make_query kInsertNewCurrency [PgText ''GBP'', PgText ''Pound'', PgText ''P''] \<in>
      set (statements sample_db (?h ?rq HttpResponseImpl))"
    by (simp only: list.set insert_iff simp_thms)
  with statements_are_bound [OF ref_lib_string_algo_laws, of ?h CurrenciesCache sample_db ?rq HttpResponseImpl]
  show ?thesis by blast
qed

section \<open>Outcomes\<close>

text \<open>The messages of the completion handler on a fresh response.\<close>

definition reply_messages :: "'d lib \<Rightarrow> pg_error option \<Rightarrow> currency list \<Rightarrow> beast_response list \<Rightarrow> bool" where
  "reply_messages L ec rows ms \<longleftrightarrow>
     length ms = (if ec = Some OtherPgError then 2 else 1) \<and>
     beast_status_int (br_status (hd ms)) =
       (if ec = Some UniqueViolation then 409
        else if ec = Some OtherPgError \<or> length rows \<noteq> 1 then 500 else 200) \<and>
     (ec = None \<longrightarrow> length rows = 1 \<longrightarrow>
        br_body (hd ms) = lib_json_dump L (MakeCurrencyDtoJson (hd rows)))"

text \<open>What a call on the response of one request adds.\<close>

definition one_answer :: "nat \<Rightarrow> string \<Rightarrow> http_response \<Rightarrow> bool" where
  "one_answer st body rs \<longleftrightarrow>
     (\<exists>m. rs_calls rs = [Write m] \<and> beast_status_int (br_status m) = st \<and> br_body m = body)"

lemma one_answer_error:
  assumes "bimap_laws L" and "\<not> bodiless (http_status_value st)"
  shows "\<exists>rs'. send_error L st x (MakeHttpResponse L k v ct) = (rs', Inr ()) \<and>
    one_answer (http_status_value st) (MakeError L x) rs' \<and> takes_body rs'"
proof -
  note fresh = fresh_response [OF assms(1), of k v ct]
  from message_of_Send_status [OF assms(1) fresh(2) assms(2), of "MakeError L x"] fresh(1) assms show ?thesis
    by (auto simp: send_error_def one_answer_def)
qed

lemma one_answer_ok:
  assumes "bimap_laws L"
  shows "\<exists>rs'. Send L x (MakeHttpResponse L k v ct) = (rs', Inr ()) \<and> one_answer 200 x rs'"
  using message_of_Send [OF assms, of x k v ct] by (auto simp: one_answer_def)

lemma second_answer:
  assumes "bimap_laws L" and "one_answer st body rs" and "takes_body rs"
  shows "\<exists>rs' m. (if length rows \<noteq> 1 then send_error L kInternalServerError x rs else Send L y rs) = (rs', Inr ()) \<and>
    (\<exists>m'. rs_calls rs' = map Write [m', m] \<and> beast_status_int (br_status m') = st \<and> br_body m' = body)"
  using assms by (auto simp: one_answer_def send_error_def resp_simps)

lemma post_currencies_reply:
  assumes "bimap_laws L"
  shows "\<exists>rs' ms. post_currencies_query_handler L (MakeHttpResponse L k v ct) (ec, rows) = Finished (Some rs') \<and>
    rs_calls rs' = map Write ms \<and> reply_messages L ec rows ms"
proof -
  let ?rs = "MakeHttpResponse L k v ct"
  consider "ec = Some OtherPgError" | "ec = Some UniqueViolation" | "ec = None" "length rows \<noteq> 1"
    | r where "ec = None" "rows = [r]"
    by (cases ec; cases "the ec") (auto simp: length_Suc_conv)
  then show ?thesis
  proof cases
    case 1
    from one_answer_error [OF assms, of kInternalServerError "''DB error''" k v ct] obtain rs1 where
      rs1: "send_error L kInternalServerError ''DB error'' ?rs = (rs1, Inr ())"
        "one_answer 500 (MakeError L ''DB error'') rs1" "takes_body rs1" by auto
    from second_answer [OF assms rs1(2,3), of rows "''DB error''" "lib_json_dump L (MakeCurrencyDtoJson (rows ! 0))"] 1
      rs1(1) show ?thesis
      by (fastforce simp: post_currencies_query_handler_def reply_messages_def)
  next
    case 4
    with one_answer_ok [OF assms, of "lib_json_dump L (MakeCurrencyDtoJson r)" k v ct] show ?thesis
      by (auto simp: post_currencies_query_handler_def reply_messages_def one_answer_def intro!: exI [of _ "[_]"])
  next
    case 2
    with one_answer_error [OF assms, of kConflict "''Currency already exists''" k v ct] show ?thesis
      by (auto simp: post_currencies_query_handler_def reply_messages_def one_answer_def intro!: exI [of _ "[_]"])
  next
    case 3
    with one_answer_error [OF assms, of kInternalServerError "''DB error''" k v ct] show ?thesis
      by (auto simp: post_currencies_query_handler_def reply_messages_def one_answer_def intro!: exI [of _ "[_]"])
  qed
qed

text \<open>
  C30: \<open>POST /currencies\<close> with valid input sends one statement; a unique violation is
  answered 409, one row 200 with its document.  After any other database error the
  handler goes on, so the client gets two messages on the one request.
\<close>

theorem post_currencies_outcome:
  assumes "bimap_laws L"
    and "res_bind (ParseXWWWWFormUrlencodedStr L (GetBody rq)) (post_currencies_ParseRequest L) = Inr d"
    and "pg_currencies db (make_query kInsertNewCurrency
           [PgText (cd_code d), PgText (cd_full_name d), PgText (cd_sign d)]) = (ec, rows)"
  shows "\<exists>rs' ms. run_flow db
      (HttpHandlerBase_Process (post_currencies_HandleRequest L) (ExceptionsHandlerImpl L) (Some rq)
        (Some (MakeHttpResponse L k v kApplicationJson))) = Finished (Some rs') \<and>
    rs_calls rs' = map Write ms \<and>
    length ms = (if ec = Some OtherPgError then 2 else 1) \<and>
    beast_status_int (br_status (hd ms)) =
      (if ec = Some UniqueViolation then 409
       else if ec = Some OtherPgError \<or> length rows \<noteq> 1 then 500 else 200) \<and>
    (ec = None \<longrightarrow> length rows = 1 \<longrightarrow>
       br_body (hd ms) = lib_json_dump L (MakeCurrencyDtoJson (hd rows)))"
proof -
  let ?rs = "MakeHttpResponse L k v kApplicationJson"
  have "run_flow db (HttpHandlerBase_Process (post_currencies_HandleRequest L)
      (ExceptionsHandlerImpl L) (Some rq) (Some ?rs)) =
      run_flow db (post_currencies_query_handler L ?rs (ec, rows))"
    by (simp add: HttpHandlerBase_Process_def post_currencies_HandleRequest_def assms(2,3) Execute_defs)
  moreover obtain rs' ms where "post_currencies_query_handler L ?rs (ec, rows) = Finished (Some rs')"
    "rs_calls rs' = map Write ms" "reply_messages L ec rows ms"
    using post_currencies_reply [OF assms(1)] by blast
  ultimately show ?thesis
    unfolding reply_messages_def by (intro exI [of _ rs'] exI [of _ ms]) simp
qed

theorem post_currencies_outcome_witness:
  "\<exists>rs' ms. run_flow sample_db
      (HttpHandlerBase_Process (post_currencies_HandleRequest ref_lib) (ExceptionsHandlerImpl ref_lib)
        (Some (sample_request verb_post ''/currencies'' [] [] ''name=Pound&code=gbp&sign=P''))
        (Some (MakeHttpResponse ref_lib True 11 kApplicationJson))) = Finished (Some rs') \<and>
    rs_calls rs' = map Write ms \<and> length ms = 2"
proof -
  let ?rq = "sample_request verb_post ''/currencies'' [] [] ''name=Pound&code=gbp&sign=P''"
  have d: "res_bind (ParseXWWWWFormUrlencodedStr ref_lib (GetBody ?rq)) (post_currencies_ParseRequest ref_lib) =
      Inr \<lparr>cd_code = ''GBP'', cd_full_name = ''Pound'', cd_sign = ''P''\<rparr>"
    by code_simp
  have "pg_currencies sample_db q = (Some OtherPgError, [])" for q by (simp add: sample_db_def)
  from post_currencies_outcome [OF ref_lib_bimap_laws d this, of True 11] show ?thesis
    by (auto simp only: if_True simp_thms)
qed

text \<open>
  C29: \<open>PATCH /exchangeRate/{curr_pair}\<close> with valid input and two known currencies: no
  updated row is answered 404, an error or several rows 500, and otherwise the updated rate
  is read back and answered 200 with its document, or 500 if it cannot be read.
\<close>

theorem patch_outcome:
  assumes "bimap_laws L" and "patch_ParseRequest L rq = Inr d"
    and "GetCurrencyByCode L cc (rd_base_currency_code d) = Some b"
    and "GetCurrencyByCode L cc (rd_target_currency_code d) = Some t"
    and "pg_ids db (make_query kUpdateExchangeRateByCurrPair
           [PgText (rd_rate d), PgInt (currency_id (ce_model b)), PgInt (currency_id (ce_model t))]) = (ec, ids)"
    and "pg_rates db (make_query kSelectExchangeRateWithCurrenciesById [PgInt (hd ids)]) = (ec2, rates)"
    and "rates_readable L db"
  shows "\<exists>rs' m. run_flow db
      (HttpHandlerBase_Process (patch_exchange_rate_HandleRequest L cc) (ExceptionsHandlerImpl L) (Some rq)
        (Some (MakeHttpResponse L k v kApplicationJson))) = Finished (Some rs') \<and>
    rs_calls rs' = [Write m] \<and>
    beast_status_int (br_status m) =
      (if ec \<noteq> None \<or> 1 < length ids then 500 else if ids = [] then 404
       else if ec2 \<noteq> None \<or> length rates \<noteq> 1 then 500 else 200)"
proof -
  let ?rs = "MakeHttpResponse L k v kApplicationJson"
  have run: "run_flow db (HttpHandlerBase_Process (patch_exchange_rate_HandleRequest L cc)
      (ExceptionsHandlerImpl L) (Some rq) (Some ?rs)) = run_flow db (patch_insert_handler L ?rs (ec, ids))"
    using assms(2-5)
    by (simp add: HttpHandlerBase_Process_def patch_exchange_rate_HandleRequest_def with_currency_pair_def
        Execute_defs)
  have err: "\<exists>rs' m. answered (send_error L st x ?rs) = Finished (Some rs') \<and> rs_calls rs' = [Write m] \<and>
      beast_status_int (br_status m) = http_status_value st" if "\<not> bodiless (http_status_value st)" for st x
    using one_answer_error [OF assms(1) that, of x k v kApplicationJson] by (force simp: one_answer_def)
  have ok: "\<exists>rs' m. answered (Send L x ?rs) = Finished (Some rs') \<and> rs_calls rs' = [Write m] \<and> beast_status_int (br_status m) = 200" for x
    using one_answer_ok [OF assms(1), of x k v kApplicationJson] by (force simp: one_answer_def)
  note err500 = err [of kInternalServerError, simplified] and err404 = err [of kNotFound, simplified]
  consider "ec \<noteq> None \<or> 1 < length ids" | "ec = None" "ids = []" | i where "ec = None" "ids = [i]"
    by (cases ids; cases "tl ids") auto
  then show ?thesis
  proof cases
    case 3
    have "\<exists>v. rate_to_double L (wc_rate (rates ! 0)) = Inr v" if "length rates = 1"
      using that assms(6,7) 3(2) unfolding rates_readable_def by (metis nth_mem less_numeral_extra(1) snd_conv)
    then show ?thesis
      using 3 run assms(6) err500 ok
      by (cases "ec2 = None \<and> length rates = 1")
        (auto simp: patch_insert_handler_def select_rate_def select_handler_def Execute_defs
          MakeExchangeRateWithCurrDtoJson_def Let_def)
  qed (use run err500 err404 in \<open>auto simp: patch_insert_handler_def\<close>)
qed

theorem patch_outcome_witness:
  "\<exists>rs' m. run_flow sample_db
      (HttpHandlerBase_Process
        (patch_exchange_rate_HandleRequest ref_lib
          (CurrenciesCache_UpdateCache ref_lib rev [usd, eur] CurrenciesCache))
        (ExceptionsHandlerImpl ref_lib)
        (Some (sample_request verb_patch ''/exchangeRate/USDEUR'' [(''curr_pair'', ''USDEUR'')] [] ''rate=2''))
        (Some (MakeHttpResponse ref_lib True 11 kApplicationJson))) = Finished (Some rs') \<and>
    rs_calls rs' = [Write m] \<and> beast_status_int (br_status m) = 500"
proof -
  let ?cc = "CurrenciesCache_UpdateCache ref_lib rev [usd, eur] CurrenciesCache"
  let ?rq = "sample_request verb_patch ''/exchangeRate/USDEUR'' [(''curr_pair'', ''USDEUR'')] [] ''rate=2''"
  let ?d = "\<lparr>rd_base_currency_code = ''USD'', rd_target_currency_code = ''EUR'', rd_rate = ''2''\<rparr>"
  have d: "patch_ParseRequest ref_lib ?rq = Inr ?d" by code_simp
  have b: "GetCurrencyByCode ref_lib ?cc (rd_base_currency_code ?d) = Some (make_currency_entry usd)"
    by code_simp
  have t: "GetCurrencyByCode ref_lib ?cc (rd_target_currency_code ?d) = Some (make_currency_entry eur)"
    by code_simp
  have ids: "pg_ids sample_db q = (None, [5])" and rates: "pg_rates sample_db q = (None, [])" for q
    by (simp_all add: sample_db_def)
  have "rates_readable ref_lib sample_db" by (simp add: rates_readable_def sample_db_def)
  from patch_outcome [OF ref_lib_bimap_laws d b t ids rates this, of True 11] show ?thesis by simp
qed

end
