(* ===== verification/Config.thy ===== *)
theory Config
  imports Logger Http_Status
begin

text \<open>
  The configuration file: \<open>engine/src/utils/config.cpp\<close>, \<open>http_server/config.cpp\<close>, and the
  sections the components read (\<open>components/io_context.cpp\<close>, \<open>postgres/pg_cache.cpp\<close>,
  \<open>postgres/pg_client.cpp\<close>).  A \<open>size_t\<close> is \<open>64 word\<close>; an exception of yaml-cpp is a
  \<open>std::exception\<close> whose text is not modelled.
\<close>

section \<open>Reading a node\<close>

definition yaml_error :: "'a res" where
  "yaml_error = throw_exn (StdException ''yaml'')"

definition yaml_at :: "'d lib \<Rightarrow> yaml \<Rightarrow> string \<Rightarrow> yaml res" where
  "yaml_at L n k = (case lib_yaml_sub L n k of None \<Rightarrow> yaml_error | Some v \<Rightarrow> Inr v)"

definition as_string :: "'d lib \<Rightarrow> yaml \<Rightarrow> string res" where
  "as_string L n = (case lib_yaml_as_string L n of None \<Rightarrow> yaml_error | Some v \<Rightarrow> Inr v)"

definition as_size_t :: "'d lib \<Rightarrow> yaml \<Rightarrow> (64 word) res" where
  "as_size_t L n = (case lib_yaml_as_size_t L n of None \<Rightarrow> yaml_error | Some v \<Rightarrow> Inr v)"

text \<open>The idiom \<open>if (n[k].IsDefined()) { field = n[k].as<T>(); }\<close>.\<close>

definition optional_setting ::
  "'d lib \<Rightarrow> yaml \<Rightarrow> string \<Rightarrow> (yaml \<Rightarrow> 'a res) \<Rightarrow> 'a \<Rightarrow> 'a res" where
  "optional_setting L n k conv dflt =
     res_bind (yaml_at L n k) (\<lambda>v. if IsDefined v then conv v else Inr dflt)"

definition RetrieveValidOrEmptyConfig :: "'d lib \<Rightarrow> string \<Rightarrow> yaml \<Rightarrow> yaml res" where
  "RetrieveValidOrEmptyConfig L name config =
     (if \<not> IsDefined config then Inr YNull
      else res_bind (yaml_at L config name) (\<lambda>r. if \<not> IsDefined r then Inr YNull else Inr r))"

section \<open>The general section\<close>

record general =
  general_address :: string
  general_port :: "64 word"
  general_session_timeout :: "64 word"
  general_log_path :: string
  general_log_level :: Level

definition General_default :: general where
  "General_default =
     \<lparr>general_address = ''0.0.0.0'', general_port = 8080, general_session_timeout = 10000, general_log_path = ''./'',
      general_log_level = lvl_trace\<rparr>"

definition decode_log_level :: "'d lib \<Rightarrow> yaml \<Rightarrow> Level res" where
  "decode_log_level L n =
     res_bind (as_string L n) (\<lambda>log_level_string.
       case ToLogLevelEnum L log_level_string of
         None \<Rightarrow> throw_exn (StdException
           (''Error reading \"general.log_level\" configuration setting. Log-level \"''
            @ log_level_string @ ''\" is undefined''))
       | Some lvl \<Rightarrow> Inr lvl)"

text \<open>\<open>convert<General>::decode\<close>; \<open>false\<close> makes \<open>as<General>()\<close> throw.\<close>

definition General_decode :: "'d lib \<Rightarrow> yaml \<Rightarrow> general res" where
  "General_decode L node =
     (if \<not> IsMap node then yaml_error
      else res_bind (optional_setting L node ''address'' (as_string L) (general_address General_default))
        (\<lambda>a. res_bind (optional_setting L node ''port'' (as_size_t L) (general_port General_default))
        (\<lambda>p. res_bind (optional_setting L node ''session_timeout'' (as_size_t L)
                        (general_session_timeout General_default))
        (\<lambda>t. res_bind (optional_setting L node ''log_path'' (as_string L)
                        (general_log_path General_default))
        (\<lambda>lp. res_bind (optional_setting L node ''log_level'' (decode_log_level L)
                        (general_log_level General_default))
        (\<lambda>ll. Inr \<lparr>general_address = a, general_port = p, general_session_timeout = t, general_log_path = lp,
                    general_log_level = ll\<rparr>))))))"

section \<open>Handlers and filters\<close>

record http_handler_config =
  hc_path :: string
  hc_method :: string
  hc_yaml_config :: yaml
  hc_filters :: "(string \<times> yaml) list"

record config =
  cfg_general :: general
  cfg_http_handlers :: "(string, http_handler_config) kv"
  cfg_filter_names :: "(string, unit) kv"
  cfg_components :: yaml

definition Config_default :: config where
  "Config_default =
     \<lparr>cfg_general = General_default, cfg_http_handlers = [], cfg_filter_names = [], cfg_components = YNull\<rparr>"

definition parse_filter_entry ::
  "'d lib \<Rightarrow> yaml \<times> yaml \<Rightarrow> http_handler_config \<times> (string, unit) kv
     \<Rightarrow> (http_handler_config \<times> (string, unit) kv) res" where
  "parse_filter_entry L entry st =
     res_bind (as_string L (fst entry)) (\<lambda>filter_name.
       Inr ((fst st)\<lparr>hc_filters := hc_filters (fst st) @ [(filter_name, snd entry)]\<rparr>,
            kv_insert (=) filter_name () (snd st)))"

definition ParseHttpFiltersConfig ::
  "'d lib \<Rightarrow> yaml \<Rightarrow> http_handler_config \<times> (string, unit) kv
     \<Rightarrow> (http_handler_config \<times> (string, unit) kv) res" where
  "ParseHttpFiltersConfig L cfg st = fold_res (parse_filter_entry L) (lib_yaml_entries L cfg) st"

definition required_error :: "string \<Rightarrow> string \<Rightarrow> 'a res" where
  "required_error handler_name setting = throw_exn (StdException
     (''Error reading \"'' @ handler_name @ ''\" configuration. \"'' @ setting
      @ ''\" setting is required''))"

text \<open>One iteration of the loop over the handlers section.\<close>

definition parse_handler_entry ::
  "'d lib \<Rightarrow> yaml \<times> yaml \<Rightarrow> (string, http_handler_config) kv \<times> (string, unit) kv
     \<Rightarrow> ((string, http_handler_config) kv \<times> (string, unit) kv) res" where
  "parse_handler_entry L entry st =
     res_bind (as_string L (fst entry)) (\<lambda>handler_name.
     res_bind (yaml_at L (snd entry) ''path'') (\<lambda>path.
       if \<not> IsDefined path then required_error handler_name ''path''
       else res_bind (yaml_at L (snd entry) ''method'') (\<lambda>meth.
         if \<not> IsDefined meth then required_error handler_name ''method''
         else res_bind (as_string L path) (\<lambda>p.
           res_bind (as_string L meth) (\<lambda>m.
           res_bind (yaml_at L (snd entry) ''filters'') (\<lambda>fs.
           let handler = \<lparr>hc_path = p, hc_method = m, hc_yaml_config = snd entry, hc_filters = []\<rparr>
           in res_bind (if IsDefined fs then ParseHttpFiltersConfig L fs (handler, snd st)
                        else Inr (handler, snd st))
                (\<lambda>(h, names). Inr (kv_insert (=) handler_name h (fst st), names))))))))"

definition ParseHttpHandlersConfig ::
  "'d lib \<Rightarrow> yaml \<Rightarrow> ((string, http_handler_config) kv \<times> (string, unit) kv) res" where
  "ParseHttpHandlersConfig L cfg =
     fold_res (parse_handler_entry L) (lib_yaml_entries L cfg) ([], [])"

definition ParseConfig :: "'d lib \<Rightarrow> yaml \<Rightarrow> config res" where
  "ParseConfig L cfg =
     res_bind (optional_setting L cfg ''general'' (General_decode L) General_default) (\<lambda>general.
     res_bind (yaml_at L cfg ''http-handlers'') (\<lambda>hs.
       if \<not> IsDefined hs then
         Inr \<lparr>cfg_general = general, cfg_http_handlers = [], cfg_filter_names = [], cfg_components = YNull\<rparr>
       else res_bind (yaml_at L cfg ''components'') (\<lambda>components.
         res_bind (ParseHttpHandlersConfig L hs) (\<lambda>(handlers, filter_names).
           Inr \<lparr>cfg_general = general, cfg_http_handlers = handlers, cfg_filter_names = filter_names,
                cfg_components = components\<rparr>))))"

section \<open>Component sections\<close>

record pg_cache_config =
  pcc_update_timeout :: "64 word"
  pcc_full_update_timeout :: "64 word"

definition PgCacheConfig_default :: pg_cache_config where
  "PgCacheConfig_default = \<lparr>pcc_update_timeout = 2000, pcc_full_update_timeout = 20000\<rparr>"

text \<open>Both settings are stored in \<open>pcc_update_timeout\<close>.\<close>

definition ParsePgCacheConfig :: "'d lib \<Rightarrow> yaml \<Rightarrow> pg_cache_config res" where
  "ParsePgCacheConfig L n =
     (let config = PgCacheConfig_default
      in res_bind (optional_setting L n ''update_timeout'' (as_size_t L) (pcc_update_timeout config))
        (\<lambda>t. let config = config\<lparr>pcc_update_timeout := t\<rparr>
             in res_bind (optional_setting L n ''full_update_timeout'' (as_size_t L)
                            (pcc_update_timeout config))
                  (\<lambda>t. Inr (config\<lparr>pcc_update_timeout := t\<rparr>))))"

record pg_client_config =
  pgc_connection_info :: string
  pgc_capacity :: "64 word"
  pgc_queue_capacity :: "64 word"
  pgc_idle_timeout :: "64 word"
  pgc_lifespan :: "64 word"

definition PgClientConfig_default :: pg_client_config where
  "PgClientConfig_default =
     \<lparr>pgc_connection_info = [], pgc_capacity = 16, pgc_queue_capacity = 64, pgc_idle_timeout = 60,
      pgc_lifespan = 24\<rparr>"

definition ParsePgClientConfig :: "'d lib \<Rightarrow> yaml \<Rightarrow> pg_client_config res" where
  "ParsePgClientConfig L n =
     (let config = PgClientConfig_default
      in res_bind (yaml_at L n ''connection_info'') (\<lambda>ci.
        if \<not> IsDefined ci then
          throw_exn (StdException ''pg_client setting \"connection_info\" is required'')
        else res_bind (as_string L ci) (\<lambda>info.
          res_bind (optional_setting L n ''connection_pool_capacity'' (as_size_t L)
                     (pgc_capacity config)) (\<lambda>c.
          res_bind (optional_setting L n ''connection_pool_queue_capacity'' (as_size_t L)
                     (pgc_queue_capacity config)) (\<lambda>q.
          res_bind (optional_setting L n ''connection_pool_idle_timeout'' (as_size_t L)
                     (pgc_idle_timeout config)) (\<lambda>i.
          res_bind (optional_setting L n ''connection_pool_lifespan'' (as_size_t L)
                     (pgc_lifespan config)) (\<lambda>l.
          Inr \<lparr>pgc_connection_info = info, pgc_capacity = c, pgc_queue_capacity = q, pgc_idle_timeout = i,
               pgc_lifespan = l\<rparr>)))))))"

record io_context_config =
  ioc_threads_num :: "64 word"

definition ParseIOContextConfig :: "'d lib \<Rightarrow> yaml \<Rightarrow> io_context_config res" where
  "ParseIOContextConfig L n =
     res_bind (optional_setting L n ''threads_num'' (as_size_t L) 1)
       (\<lambda>t. Inr \<lparr>ioc_threads_num = t\<rparr>)"

section \<open>Facts about the sections\<close>

lemma optional_setting_Inr_iff:
  "optional_setting L n k conv d = Inr x \<longleftrightarrow>
     (\<exists>v. yaml_at L n k = Inr v \<and> (if IsDefined v then conv v = Inr x else x = d))"
  by (auto simp: optional_setting_def res_simps)

text \<open>
  The parser of a cache section never changes the full-update timeout; a
  \<open>full_update_timeout\<close> setting, where there is one, becomes the incremental timeout.
\<close>

theorem ParsePgCacheConfig_timeouts:
  assumes "ParsePgCacheConfig L n = Inr c"
    and "yaml_at L n ''full_update_timeout'' = Inr v" and "IsDefined v"
  shows "pcc_full_update_timeout c = 20000 \<and> as_size_t L v = Inr (pcc_update_timeout c)"
  using assms
  by (auto simp: ParsePgCacheConfig_def PgCacheConfig_default_def res_simps Let_def
      optional_setting_Inr_iff)

theorem ParsePgCacheConfig_timeouts_witness:
  "ParsePgCacheConfig ref_lib
     (YMap [(YScalar ''update_timeout'', YScalar ''7''),
            (YScalar ''full_update_timeout'', YScalar ''30'')]) =
     Inr \<lparr>pcc_update_timeout = 30, pcc_full_update_timeout = 20000\<rparr> \<and>
   as_size_t ref_lib (YScalar ''30'') = Inr 30"
proof -
  let ?n = "YMap [(YScalar ''update_timeout'', YScalar ''7''),
                  (YScalar ''full_update_timeout'', YScalar ''30'')]"
  have c: "ParsePgCacheConfig ref_lib ?n =
      Inr \<lparr>pcc_update_timeout = 30, pcc_full_update_timeout = 20000\<rparr>"
    by code_simp
  have v: "yaml_at ref_lib ?n ''full_update_timeout'' = Inr (YScalar ''30'')" by code_simp
  have "IsDefined (YScalar ''30'')" by (simp add: IsDefined_def)
  from ParsePgCacheConfig_timeouts [OF c v this] c show ?thesis by simp
qed

lemma ParsePgClientConfig_required:
  "yaml_at L n ''connection_info'' = Inr YUndefined \<Longrightarrow>
     ParsePgClientConfig L n =
       throw_exn (StdException ''pg_client setting \"connection_info\" is required'')"
  by (simp add: ParsePgClientConfig_def Let_def IsDefined_def)

section \<open>Facts about the handlers section\<close>

definition filters_known :: "(string, unit) kv \<Rightarrow> http_handler_config \<Rightarrow> bool" where
  "filters_known names h \<longleftrightarrow> (\<forall>p \<in> set (hc_filters h). kv_contains (=) (fst p) names)"

text \<open>What the loop over the handlers section keeps.\<close>

definition handlers_inv ::
  "(string, http_handler_config) kv \<times> (string, unit) kv \<Rightarrow> bool" where
  "handlers_inv st \<longleftrightarrow>
     distinct (map fst (fst st)) \<and> distinct (map fst (snd st)) \<and>
     (\<forall>p \<in> set (fst st). filters_known (snd st) (snd p))"

lemma contains_insert:
  "kv_contains (=) k (kv_insert (=) k' v m) \<longleftrightarrow> k = k' \<or> kv_contains (=) k m"
  by (auto simp: kv_contains_def std_key.find_insert)

lemma distinct_keys_insert: "distinct (map fst m) \<Longrightarrow> distinct (map fst (kv_insert (=) k v m))"
  by (simp add: kv_distinct_iff_distinct [symmetric] std_key.distinct_insert)

lemma set_kv_insert: "set (kv_insert eq k v m) \<subseteq> insert (k, v) (set m)"
  by (auto simp: kv_insert_def)

text \<open>The filters of one handler: its names only add to the known names.\<close>

definition filters_step_inv ::
  "(string, unit) kv \<Rightarrow> http_handler_config \<times> (string, unit) kv \<Rightarrow> bool" where
  "filters_step_inv names st \<longleftrightarrow>
     distinct (map fst (snd st)) \<and> filters_known (snd st) (fst st) \<and>
     (\<forall>h. filters_known names h \<longrightarrow> filters_known (snd st) h)"

lemma filters_known_insert: "filters_known names h \<Longrightarrow> filters_known (kv_insert (=) k v names) h"
  by (simp add: filters_known_def contains_insert)

lemma filters_known_add:
  "filters_known names (h\<lparr>hc_filters := hc_filters h @ [(k, n)]\<rparr>) \<longleftrightarrow>
     filters_known names h \<and> kv_contains (=) k names"
  by (auto simp: filters_known_def)

lemma parse_filter_entry_inv:
  "parse_filter_entry L e st = Inr st' \<Longrightarrow> filters_step_inv names st \<Longrightarrow> filters_step_inv names st'"
  by (auto simp: parse_filter_entry_def res_simps filters_step_inv_def distinct_keys_insert
      filters_known_insert filters_known_add contains_insert)

lemma ParseHttpFiltersConfig_inv:
  "ParseHttpFiltersConfig L cfg st = Inr st' \<Longrightarrow> filters_step_inv names st \<Longrightarrow>
     filters_step_inv names st'"
  unfolding ParseHttpFiltersConfig_def
  by (rule fold_res_invariant [where I = "filters_step_inv names"])
    (auto intro: parse_filter_entry_inv)

lemma handlers_inv_add:
  assumes "handlers_inv (hs, names)" and "filters_step_inv names (h, names')"
  shows "handlers_inv (kv_insert (=) k h hs, names')"
proof -
  have "\<forall>p \<in> insert (k, h) (set hs). filters_known names' (snd p)"
    using assms by (simp add: handlers_inv_def filters_step_inv_def)
  then have "\<forall>p \<in> set (kv_insert (=) k h hs). filters_known names' (snd p)"
    using set_kv_insert [of "(=)" k h hs] by blast
  with assms show ?thesis
    by (simp add: handlers_inv_def filters_step_inv_def distinct_keys_insert)
qed

lemma parse_handler_entry_inv:
  assumes "parse_handler_entry L e st = Inr st'" and "handlers_inv st"
  shows "handlers_inv st'"
proof -
  obtain hs names where st: "st = (hs, names)" by (cases st)
  from assms(2) st have known: "filters_step_inv names (h, names)" if "hc_filters h = []" for h
    using that by (simp add: handlers_inv_def filters_step_inv_def filters_known_def)
  from assms(1) st show ?thesis
    using assms(2) known
    by (auto simp: parse_handler_entry_def res_simps Let_def required_error_def
        split: if_splits intro!: handlers_inv_add dest!: ParseHttpFiltersConfig_inv [where names = names])
qed

text \<open>
  C35: a parsed handlers section names every handler once, and every filter of a handler is
  among the filter names of the configuration.
\<close>

theorem ParseHttpHandlersConfig_filters:
  assumes "ParseHttpHandlersConfig L cfg = Inr (handlers, names)"
  shows "distinct (map fst handlers) \<and> distinct (map fst names) \<and>
    (\<forall>p \<in> set handlers. filters_known names (snd p))"
proof -
  have "handlers_inv (handlers, names)"
    using assms unfolding ParseHttpHandlersConfig_def
    by (rule fold_res_invariant [where I = handlers_inv, rotated 2])
      (erule (1) parse_handler_entry_inv, simp add: handlers_inv_def)
  then show ?thesis by (simp add: handlers_inv_def)
qed

theorem ParseHttpHandlersConfig_filters_witness:
  "filters_known [(''auth'', ())] \<lparr>hc_path = ''/a'', hc_method = ''GET'',
     hc_yaml_config = YMap [(YScalar ''path'', YScalar ''/a''), (YScalar ''method'', YScalar ''GET''),
       (YScalar ''filters'', YMap [(YScalar ''auth'', YNull)])], hc_filters = [(''auth'', YNull)]\<rparr>"
proof -
  let ?h = "YMap [(YScalar ''path'', YScalar ''/a''), (YScalar ''method'', YScalar ''GET''),
       (YScalar ''filters'', YMap [(YScalar ''auth'', YNull)])]"
  have "ParseHttpHandlersConfig ref_lib (YMap [(YScalar ''h'', ?h)]) =
     Inr ([(''h'', \<lparr>hc_path = ''/a'', hc_method = ''GET'', hc_yaml_config = ?h,
              hc_filters = [(''auth'', YNull)]\<rparr>)], [(''auth'', ())])"
    by code_simp
  from ParseHttpHandlersConfig_filters [OF this] show ?thesis by simp
qed

end
