(* ===== verification/Pg_Cache.thy ===== *)
theory Pg_Cache
  imports Pg_Client Config
begin

text \<open>
  \<open>engine/src/postgres/pg_cache.hpp\<close>: the updaters that keep a cache in step with its table.
  An updater is driven by completions: its timer, the replies to its statements and the
  updates it posts to the strand.  The pending completions are part of its state, the
  completion handlers are functions, and a step relation runs any pending completion.
\<close>

section \<open>An updater\<close>

text \<open>
  \<open>up_waits\<close>: waits pending on the timer; \<open>up_fired\<close>: completed waits whose handler has not
  run, with whether they were cancelled; \<open>up_queries\<close>: statements without a reply;
  \<open>up_posted\<close>: rows posted to the strand.
\<close>

record 'r updater =
  up_timeout :: "64 word"
  up_query :: string
  up_update_time :: string
  up_last_update_time :: string
  up_waits :: nat
  up_fired :: "bool list"
  up_queries :: "query list"
  up_posted :: "'r list list"

definition PgCacheUpdater :: "64 word \<Rightarrow> string \<Rightarrow> 'r updater" where
  "PgCacheUpdater timeout q =
     \<lparr>up_timeout = timeout, up_query = q, up_update_time = [], up_last_update_time = [],
      up_waits = 0, up_fired = [], up_queries = [], up_posted = []\<rparr>"

text \<open>\<open>expires_after\<close> cancels the pending waits: their handlers run with an error.\<close>

definition SetUpdateTimer :: "'r updater \<Rightarrow> 'r updater" where
  "SetUpdateTimer u = u\<lparr>up_fired := up_fired u @ replicate (up_waits u) True, up_waits := 1\<rparr>"

definition updater_AsyncRunUpdate :: "'r updater \<Rightarrow> 'r updater" where
  "updater_AsyncRunUpdate u = SetUpdateTimer u"

text \<open>Both updaters of a cache bind the time of the last update, whatever their statement.\<close>

definition updater_GetQuery :: "'r updater \<Rightarrow> query" where
  "updater_GetQuery u = make_query (up_query u) [PgText (up_last_update_time u)]"

text \<open>\<open>now\<close> is what \<open>GetSystemTimeWithTimezone()\<close> returns.\<close>

definition DoQuery :: "string \<Rightarrow> 'r updater \<Rightarrow> 'r updater" where
  "DoQuery now u =
     (let u' = u\<lparr>up_update_time := now\<rparr>
      in u'\<lparr>up_queries := up_queries u' @ [updater_GetQuery u']\<rparr>)"

text \<open>After an error the timer is set again and the statement is sent all the same.\<close>

definition OnUpdateTimer :: "string \<Rightarrow> bool \<Rightarrow> 'r updater \<Rightarrow> 'r updater" where
  "OnUpdateTimer now ec u = DoQuery now (if ec then SetUpdateTimer u else u)"

definition OnQueryCompletion :: "'r pg_reply \<Rightarrow> 'r updater \<Rightarrow> 'r updater" where
  "OnQueryCompletion reply u =
     (case reply of
        (Some ec, rows) \<Rightarrow> SetUpdateTimer u
      | (None, rows) \<Rightarrow> u\<lparr>up_posted := up_posted u @ [rows]\<rparr>)"

text \<open>
  The update of the cache on the strand.  If the update function throws, the exception goes
  to the event loop and the timer is not set again.
\<close>

definition updater_UpdateCache ::
  "('r list \<Rightarrow> 'c \<Rightarrow> 'c \<times> unit res) \<Rightarrow> 'r list \<Rightarrow> 'r updater \<times> 'c \<Rightarrow> 'r updater \<times> 'c" where
  "updater_UpdateCache update_func rows st =
     (case st of (u, c) \<Rightarrow>
        let u' = u\<lparr>up_last_update_time := up_update_time u\<rparr>
        in case update_func rows c of
             (c', Inr _) \<Rightarrow> (SetUpdateTimer u', c')
           | (c', Inl e) \<Rightarrow> (u', c'))"

text \<open>\<open>SetLastUpdateTime(update_time)\<close> assigns the member \<open>update_time_\<close>, not its argument.\<close>

definition SetLastUpdateTime :: "string \<Rightarrow> 'r updater \<Rightarrow> 'r updater" where
  "SetLastUpdateTime update_time u = u\<lparr>up_last_update_time := up_update_time u\<rparr>"

text \<open>When the timer expires all its waits complete without an error.\<close>

definition timer_expires :: "'r updater \<Rightarrow> 'r updater" where
  "timer_expires u = u\<lparr>up_fired := up_fired u @ replicate (up_waits u) False, up_waits := 0\<rparr>"

section \<open>Steps\<close>

text \<open>
  \<open>replies q r\<close>: the database may reply \<open>r\<close> to the statement \<open>q\<close>.
\<close>

inductive updater_step ::
  "('r list \<Rightarrow> 'c \<Rightarrow> 'c \<times> unit res) \<Rightarrow> (query \<Rightarrow> 'r pg_reply \<Rightarrow> bool) \<Rightarrow>
     'r updater \<times> 'c \<Rightarrow> 'r updater \<times> 'c \<Rightarrow> bool"
  for update_func :: "'r list \<Rightarrow> 'c \<Rightarrow> 'c \<times> unit res" and replies :: "query \<Rightarrow> 'r pg_reply \<Rightarrow> bool"
where
  Expire: "0 < up_waits u \<Longrightarrow> updater_step update_func replies (u, c) (timer_expires u, c)"
| Timer: "up_fired u = ec # es \<Longrightarrow>
    updater_step update_func replies (u, c) (OnUpdateTimer now ec (u\<lparr>up_fired := es\<rparr>), c)"
| Reply: "up_queries u = qs @ q # qs' \<Longrightarrow> replies q r \<Longrightarrow>
    updater_step update_func replies (u, c) (OnQueryCompletion r (u\<lparr>up_queries := qs @ qs'\<rparr>), c)"
| Strand: "up_posted u = rows # ps \<Longrightarrow>
    updater_step update_func replies (u, c) (updater_UpdateCache update_func rows (u\<lparr>up_posted := ps\<rparr>, c))"

inductive_cases updater_stepE: "updater_step F R (u, c) st"

lemma updater_step_cases [consumes 1, case_names Expire Timer Reply Strand]:
  assumes "updater_step F R (u, c) (u', c')"
  obtains "0 < up_waits u" "u' = timer_expires u" "c' = c"
  | ec es now where "up_fired u = ec # es" "u' = OnUpdateTimer now ec (u\<lparr>up_fired := es\<rparr>)" "c' = c"
  | qs q qs' r where "up_queries u = qs @ q # qs'" "R q r"
      "u' = OnQueryCompletion r (u\<lparr>up_queries := qs @ qs'\<rparr>)" "c' = c"
  | rows ps where "up_posted u = rows # ps"
      "(u', c') = updater_UpdateCache F rows (u\<lparr>up_posted := ps\<rparr>, c)"
  using assms by (auto elim!: updater_stepE)

section \<open>The cache\<close>

text \<open>A cache owns an incremental updater, a full updater and its data.\<close>

record ('r, 'c) pg_cache =
  pgc_updater :: "'r updater"
  pgc_full_updater :: "'r updater"
  pgc_last_update_time :: string
  pgc_is_init :: bool
  pgc_data :: 'c

definition PgCache :: "pg_cache_config \<Rightarrow> string \<Rightarrow> string \<Rightarrow> 'c \<Rightarrow> ('r, 'c) pg_cache" where
  "PgCache cfg kUpdateQuery kFullUpdateQuery data =
     \<lparr>pgc_updater = PgCacheUpdater (pcc_update_timeout cfg) kUpdateQuery,
      pgc_full_updater = PgCacheUpdater (pcc_full_update_timeout cfg) kFullUpdateQuery,
      pgc_last_update_time = [], pgc_is_init = False, pgc_data = data\<rparr>"

text \<open>The initial load: its statement, and the handler of its reply, which throws on an error.\<close>

definition DoInitQuery :: "string \<Rightarrow> string \<Rightarrow> ('r, 'c) pg_cache \<Rightarrow> query \<times> ('r, 'c) pg_cache" where
  "DoInitQuery now kFullUpdateQuery p =
     (make_query kFullUpdateQuery [], p\<lparr>pgc_last_update_time := now\<rparr>)"

text \<open>\<open>texts\<close> gives the two texts ozo has for an error, \<open>ec.message()\<close> and \<open>error_message(conn)\<close>.\<close>

definition OnInitQueryCompletion ::
  "string \<Rightarrow> (pg_error \<Rightarrow> string \<times> string) \<Rightarrow> ('r list \<Rightarrow> 'c \<Rightarrow> 'c \<times> unit res) \<Rightarrow> 'r pg_reply \<Rightarrow> ('r, 'c) pg_cache \<Rightarrow> ('r, 'c) pg_cache \<times> unit res" where
  "OnInitQueryCompletion kName texts update_func reply p =
     (case reply of
        (Some ec, rows) \<Rightarrow> (p, throw_exn (StdException
          (''Error of \"'' @ kName @ ''\" cache initialization. Msg='' @ fst (texts ec) @
           ''. libpq msg='' @ snd (texts ec))))
      | (None, rows) \<Rightarrow>
          (case update_func rows (pgc_data p) of
             (c', Inl e) \<Rightarrow> (p\<lparr>pgc_data := c'\<rparr>, Inl e)
           | (c', Inr _) \<Rightarrow> (p\<lparr>pgc_data := c', pgc_is_init := True\<rparr>, Inr ())))"

definition PgCache_AsyncRunUpdate :: "('r, 'c) pg_cache \<Rightarrow> ('r, 'c) pg_cache" where
  "PgCache_AsyncRunUpdate p =
     (let u = updater_AsyncRunUpdate (SetLastUpdateTime (pgc_last_update_time p) (pgc_updater p));
          f = updater_AsyncRunUpdate (pgc_full_updater p)
      in p\<lparr>pgc_updater := u, pgc_full_updater := f\<rparr>)"

inductive pg_cache_step ::
  "('r list \<Rightarrow> 'c \<Rightarrow> 'c \<times> unit res) \<Rightarrow> ('r list \<Rightarrow> 'c \<Rightarrow> 'c \<times> unit res) \<Rightarrow>
     (query \<Rightarrow> 'r pg_reply \<Rightarrow> bool) \<Rightarrow> ('r, 'c) pg_cache \<Rightarrow> ('r, 'c) pg_cache \<Rightarrow> bool"
  for UpdateCache FullUpdateCache :: "'r list \<Rightarrow> 'c \<Rightarrow> 'c \<times> unit res"
  and replies :: "query \<Rightarrow> 'r pg_reply \<Rightarrow> bool"
where
  Incremental: "updater_step UpdateCache replies (pgc_updater p, pgc_data p) (u, c) \<Longrightarrow>
    pg_cache_step UpdateCache FullUpdateCache replies p (p\<lparr>pgc_updater := u, pgc_data := c\<rparr>)"
| Full: "updater_step FullUpdateCache replies (pgc_full_updater p, pgc_data p) (u, c) \<Longrightarrow>
    pg_cache_step UpdateCache FullUpdateCache replies p (p\<lparr>pgc_full_updater := u, pgc_data := c\<rparr>)"

lemma pg_cache_step_cases [consumes 1, case_names Incremental Full]:
  assumes "pg_cache_step U F R p p'"
  obtains u c where "p' = p\<lparr>pgc_updater := u, pgc_data := c\<rparr>"
      "updater_step U R (pgc_updater p, pgc_data p) (u, c)"
  | u c where "p' = p\<lparr>pgc_full_updater := u, pgc_data := c\<rparr>"
      "updater_step F R (pgc_full_updater p, pgc_data p) (u, c)"
  using assms by (auto elim!: pg_cache_step.cases)

section \<open>One activity at a time\<close>

text \<open>The pending activities of an updater.\<close>

definition tokens :: "'r updater \<Rightarrow> nat" where
  "tokens u = up_waits u + length (up_fired u) + length (up_queries u) + length (up_posted u)"

text \<open>
  No wait was cancelled, and there is exactly one activity: then no handler sees an error
  of the timer.
\<close>

definition one_activity :: "'r updater \<Rightarrow> bool" where
  "one_activity u \<longleftrightarrow> tokens u = 1 \<and> True \<notin> set (up_fired u)"

lemma tokens_handlers [tok_simps]:
  "tokens (SetUpdateTimer u) = Suc (tokens u)"
  "tokens (DoQuery now u) = Suc (tokens u)"
  "tokens (OnQueryCompletion r u) = Suc (tokens u)"
  "tokens (timer_expires u) = tokens u"
  by (auto simp: tokens_def SetUpdateTimer_def DoQuery_def OnQueryCompletion_def timer_expires_def
      Let_def split: prod.split option.split)

lemma tokens_OnUpdateTimer [tok_simps]:
  "tokens (OnUpdateTimer now ec u) = tokens u + (if ec then 2 else 1)"
  by (simp add: OnUpdateTimer_def tok_simps)

lemma one_activity_start: "one_activity (updater_AsyncRunUpdate (PgCacheUpdater t q))"
  by (simp add: one_activity_def tokens_def updater_AsyncRunUpdate_def SetUpdateTimer_def PgCacheUpdater_def)

text \<open>An updater without activities has stopped for good.\<close>

lemma stopped_forever: "tokens u = 0 \<Longrightarrow> \<not> updater_step F R (u, c) st"
  by (auto simp: tokens_def elim!: updater_stepE)


lemma timer_expires_one: "one_activity u \<Longrightarrow> one_activity (timer_expires u)"
  by (auto simp: one_activity_def tok_simps) (simp add: timer_expires_def)

lemma updater_step_one_activity:
  assumes "updater_step F R (u, c) (u', c')" and "one_activity u"
  shows "one_activity u' \<or>
    tokens u' = 0 \<and> (\<exists>rows e. up_posted u = [rows] \<and> snd (F rows c) = Inl e)"
  using assms(1)
proof (cases rule: updater_step_cases)
  case Expire
  with assms(2) show ?thesis by (simp add: timer_expires_one)
next
  case (Timer ec es now)
  with assms(2) have "\<not> ec" "es = []" "up_waits u = 0" "up_queries u = []" "up_posted u = []"
    by (auto simp: one_activity_def tokens_def)
  with Timer show ?thesis
    by (simp add: one_activity_def tokens_def OnUpdateTimer_def DoQuery_def Let_def)
next
  case (Reply qs q qs' r)
  with assms(2) have "qs = []" "qs' = []" "up_waits u = 0" "up_fired u = []" "up_posted u = []"
    by (auto simp: one_activity_def tokens_def)
  with Reply show ?thesis
    by (auto simp: one_activity_def tokens_def OnQueryCompletion_def SetUpdateTimer_def
        split: prod.split option.split)
next
  case (Strand rows ps)
  with assms(2) have "ps = []" "up_waits u = 0" "up_fired u = []" "up_queries u = []"
    by (auto simp: one_activity_def tokens_def)
  with Strand show ?thesis
    by (auto simp: one_activity_def tokens_def updater_UpdateCache_def SetUpdateTimer_def Let_def
        split: prod.splits sum.splits)
qed

lemma reachable_one_activity:
  assumes "(updater_step F R)\<^sup>*\<^sup>* (updater_AsyncRunUpdate (PgCacheUpdater t q), c0) (u, c)"
  shows "one_activity u \<or> tokens u = 0 \<and> (\<exists>rows d e. snd (F rows d) = Inl e)"
proof -
  have "(updater_step F R)\<^sup>*\<^sup>* st st' \<Longrightarrow> one_activity (fst st) \<or> tokens (fst st) = 0 \<and> X \<Longrightarrow>
      one_activity (fst st') \<or> tokens (fst st') = 0 \<and> (\<exists>rows d e. snd (F rows d) = Inl e)"
    if "X = (\<exists>rows d e. snd (F rows d) = Inl e)" for st st' X
  proof (induction rule: rtranclp_induct)
    case (step y z)
    obtain v d v' d' where "y = (v, d)" "z = (v', d')" by (cases y; cases z)
    with step that show ?case
      using stopped_forever [of v F R d z] updater_step_one_activity [of F R v d v' d'] by auto
  qed (use that in simp)
  from this [OF refl assms] one_activity_start [of t q] show ?thesis by (simp only: fst_conv) blast
qed

lemma one_activity_progress:
  assumes "one_activity u" and "\<And>q. \<exists>r. R q r"
  shows "\<exists>st. updater_step F R (u, c) st"
proof -
  from assms(1) consider "0 < up_waits u" | ec es where "up_fired u = ec # es"
    | q qs where "up_queries u = [] @ q # qs" | rows ps where "up_posted u = rows # ps"
    by (cases "up_fired u"; cases "up_queries u"; cases "up_posted u")
      (auto simp: one_activity_def tokens_def)
  then show ?thesis
  proof cases
    case 3
    obtain r where "R q r" using assms(2) by blast
    with 3 show ?thesis by (blast intro: updater_step.Reply)
  qed (blast intro: updater_step.intros)+
qed

text \<open>An update function that never throws: its updater keeps its one activity and never stops.\<close>

locale steady_update =
  fixes F :: "'r list \<Rightarrow> 'c \<Rightarrow> 'c \<times> unit res"
  assumes never_throws: "snd (F rows c) = Inr ()"
begin

lemma always_one_activity:
  assumes "(updater_step F R)\<^sup>*\<^sup>* (updater_AsyncRunUpdate (PgCacheUpdater t q), c0) (u, c)"
  shows "one_activity u"
  using reachable_one_activity [OF assms] by (simp add: never_throws)

lemma never_stops:
  assumes "(updater_step F R)\<^sup>*\<^sup>* (updater_AsyncRunUpdate (PgCacheUpdater t q), c0) (u, c)"
    and "\<And>q. \<exists>r. R q r"
  shows "\<exists>st. updater_step F R (u, c) st"
  by (rule one_activity_progress [OF always_one_activity [OF assms(1)] assms(2)])

end

text \<open>
  C20: a running updater does one thing at a time: at most one of its timer, its statement
  and its posted update is pending, no handler ever sees a cancelled wait (so the branch
  of \<open>OnUpdateTimer\<close> that would double the activities is never taken), and as long as no
  update throws it never stops.
\<close>

theorem updater_one_activity:
  assumes "(updater_step F R)\<^sup>*\<^sup>* (updater_AsyncRunUpdate (PgCacheUpdater t q), c0) (u, c)"
    and "\<And>q. \<exists>r. R q r"
  shows "up_waits u + length (up_fired u) + length (up_queries u) + length (up_posted u) \<le> 1 \<and>
    True \<notin> set (up_fired u) \<and>
    ((\<forall>rows d. snd (F rows d) = Inr ()) \<longrightarrow> (\<exists>st. updater_step F R (u, c) st))"
proof -
  from reachable_one_activity [OF assms(1)] show ?thesis
  proof
    assume one: "one_activity u"
    from one_activity_progress [OF one, of R F c] assms(2) have "\<exists>st. updater_step F R (u, c) st"
      by blast
    with one show ?thesis by (auto simp: one_activity_def tokens_def)
  next
    assume "tokens u = 0 \<and> (\<exists>rows d e. snd (F rows d) = Inl e)"
    then show ?thesis by (auto simp: tokens_def)
  qed
qed

theorem updater_one_activity_witness:
  "\<exists>st. updater_step (\<lambda>rows d. (rows @ d, Inr ())) (\<lambda>q r. r = (None, [1 :: nat]))
     (updater_AsyncRunUpdate (PgCacheUpdater 5 kUpdateCurrenciesCache), [] :: nat list) st"
  using updater_one_activity [of "\<lambda>rows d. (rows @ d, Inr ())" "\<lambda>q r. r = (None, [1 :: nat])" 5
      kUpdateCurrenciesCache "[]" _ "[]", OF rtranclp.rtrancl_refl]
  by auto

text \<open>
  C38: an update that throws stops its updater for good: the exception reaches the event
  loop before the timer is set again, and nothing is pending any more.
\<close>

theorem throwing_update_stops_updater:
  assumes "(updater_step F R)\<^sup>*\<^sup>* (updater_AsyncRunUpdate (PgCacheUpdater t q), c0) (u, c)"
    and "up_posted u = rows # ps" and "snd (F rows c) = Inl e"
    and "(u', c') = updater_UpdateCache F rows (u\<lparr>up_posted := ps\<rparr>, c)"
  shows "updater_step F R (u, c) (u', c') \<and> (\<forall>st. \<not> updater_step F R (u', c') st)"
proof -
  have "tokens u \<noteq> 0" using assms(2) by (simp add: tokens_def)
  with reachable_one_activity [OF assms(1)] have "one_activity u" by blast
  then have "ps = []" "up_waits u = 0" "up_fired u = []" "up_queries u = []"
    using assms(2) by (auto simp: one_activity_def tokens_def)
  then have "tokens u' = 0"
    using assms(3,4)
    by (auto simp: updater_UpdateCache_def tokens_def Let_def split: prod.splits sum.splits)
  then show ?thesis
    using assms(4) updater_step.Strand [OF assms(2), of F R c] stopped_forever [of u' F R c'] by simp
qed


theorem throwing_update_stops_updater_witness:
  "\<exists>u. up_posted u = [[()]] \<and>
     (\<forall>st. \<not> updater_step (\<lambda>rows d. (d, throw_exn UnknownException)) (\<lambda>q r. r = (None, [()]))
        (updater_UpdateCache (\<lambda>rows d. (d, throw_exn UnknownException)) [()] (u\<lparr>up_posted := []\<rparr>, ())) st)"
proof -
  let ?F = "\<lambda>rows d. (d :: unit, throw_exn UnknownException :: unit res)"
  let ?R = "\<lambda>q r. r = (None, [()])"
  let ?step = "updater_step ?F ?R"
  define u0 u1 u2 u3 where
    "u0 = (updater_AsyncRunUpdate (PgCacheUpdater 5 kUpdateCurrenciesCache) :: unit updater)" and
    "u1 = timer_expires u0" and "u2 = OnUpdateTimer ''now'' False (u1\<lparr>up_fired := []\<rparr>)" and
    "u3 = OnQueryCompletion (None, [()]) (u2\<lparr>up_queries := []\<rparr>)"
  note defs = u0_def u1_def u2_def u3_def updater_AsyncRunUpdate_def PgCacheUpdater_def SetUpdateTimer_def
    timer_expires_def OnUpdateTimer_def DoQuery_def OnQueryCompletion_def Let_def updater_GetQuery_def
  have "?step (u0, ()) (u1, ())"
    unfolding u1_def by (rule updater_step.Expire) (simp add: defs)
  moreover have "?step (u1, ()) (u2, ())"
    unfolding u2_def by (rule updater_step.Timer) (simp add: defs)
  moreover have "?step (u2, ()) (u3, ())"
    unfolding u3_def
    by (rule updater_step.Reply [where qs = "[]" and qs' = "[]", simplified]) (simp_all add: defs)
  ultimately have reach: "?step\<^sup>*\<^sup>* (u0, ()) (u3, ())" by (meson converse_rtranclp_into_rtranclp rtranclp.rtrancl_refl)
  have posted: "up_posted u3 = [()] # []" by (simp add: defs)
  obtain u' where u': "(u', ()) = updater_UpdateCache ?F [()] (u3\<lparr>up_posted := []\<rparr>, ())"
    by (simp add: updater_UpdateCache_def Let_def)
  from throwing_update_stops_updater [OF reach [unfolded u0_def] posted _ u'] have
    "\<forall>st. \<not> ?step (u', ()) st" by simp
  with posted u' show ?thesis by (intro exI [of _ u3]) simp
qed

section \<open>The statements of the program's caches\<close>

text \<open>
  What PostgreSQL promises of the statements of a cache: a successful reply needs a value
  for each placeholder, no more and no fewer, and the empty text is not a \<open>timestamptz\<close>.
\<close>

definition postgres_laws :: "(query \<Rightarrow> 'r pg_reply \<Rightarrow> bool) \<Rightarrow> bool" where
  "postgres_laws R \<longleftrightarrow>
     (\<forall>q rows. R q (None, rows) \<longrightarrow> well_bound q) \<and>
     (\<forall>q rows. R q (None, rows) \<longrightarrow> fst q = kUpdateCurrenciesCache \<or> fst q = kUpdateExchangeRatesCache \<longrightarrow>
        snd q \<noteq> [PgText []])"

text \<open>The two caches of the program by their statements.\<close>

definition cache_statements :: "(string \<times> string) set" where
  "cache_statements =
     {(kUpdateCurrenciesCache, kFullUpdateCurrenciesCache),
      (kUpdateExchangeRatesCache, kFullUpdateExchangeRatesCache)}"

lemma update_queries_fail:
  assumes "postgres_laws R" and "(uq, fq) \<in> cache_statements"
  shows "\<not> R (make_query uq [PgText []]) (None, rows)" and "\<not> R (make_query fq [PgText []]) (None, rows)"
proof -
  have "fst (make_query uq [PgText []]) = kUpdateCurrenciesCache \<or>
      fst (make_query uq [PgText []]) = kUpdateExchangeRatesCache"
    using assms(2) by (auto simp: cache_statements_def make_query_def)
  then show "\<not> R (make_query uq [PgText []]) (None, rows)"
    using assms(1) unfolding postgres_laws_def by (metis make_query_def snd_conv)
  have "placeholders fq = 0"
    using assms(2) placeholders_of_statements by (auto simp: cache_statements_def)
  then have "\<not> well_bound (make_query fq [PgText []])"
    by (simp add: well_bound_def make_query_def)
  then show "\<not> R (make_query fq [PgText []]) (None, rows)"
    using assms(1) unfolding postgres_laws_def by blast
qed

text \<open>
  An updater that has never had a successful reply: it posted nothing, its last update time
  is still the initial empty text, and its statements fail.
\<close>

definition never_updated :: "string \<Rightarrow> 'r updater \<Rightarrow> bool" where
  "never_updated q u \<longleftrightarrow>
     up_query u = q \<and> up_last_update_time u = [] \<and> up_posted u = [] \<and>
     (\<forall>x \<in> set (up_queries u). x = make_query q [PgText []])"

lemma never_updated_start:
  "never_updated q (updater_AsyncRunUpdate (SetLastUpdateTime t (PgCacheUpdater n q)))"
  "never_updated q (updater_AsyncRunUpdate (PgCacheUpdater n q))"
  by (simp_all add: never_updated_def updater_AsyncRunUpdate_def SetLastUpdateTime_def PgCacheUpdater_def
      SetUpdateTimer_def)

lemma never_updated_step:
  assumes "updater_step F R (u, c) (u', c')" and "never_updated q u"
    and "\<And>rows. \<not> R (make_query q [PgText []]) (None, rows)"
  shows "never_updated q u' \<and> c' = c"
  using assms(1)
proof (cases rule: updater_step_cases)
  case (Reply qs x qs' r)
  with assms(2,3) obtain ec rows where "r = (Some ec, rows)"
    by (cases r; cases "fst r") (auto simp: never_updated_def)
  with Reply assms(2) show ?thesis
    by (auto simp: never_updated_def OnQueryCompletion_def SetUpdateTimer_def)
qed (use assms(2) in \<open>auto simp: never_updated_def timer_expires_def OnUpdateTimer_def DoQuery_def
    SetUpdateTimer_def updater_GetQuery_def Let_def\<close>)

lemma cache_never_refreshed:
  assumes "postgres_laws R" and "(uq, fq) \<in> cache_statements"
    and "pgc_updater p0 = PgCacheUpdater t uq" and "pgc_full_updater p0 = PgCacheUpdater t' fq"
    and "(pg_cache_step U F R)\<^sup>*\<^sup>* (PgCache_AsyncRunUpdate p0) p"
  shows "pgc_data p = pgc_data p0"
proof -
  have "never_updated uq (pgc_updater p) \<and> never_updated fq (pgc_full_updater p) \<and> pgc_data p = pgc_data p0"
    using assms(5)
  proof (induction rule: rtranclp_induct)
    case base
    show ?case
      by (simp add: PgCache_AsyncRunUpdate_def Let_def assms(3,4) never_updated_start)
  next
    case (step p p')
    from step.hyps(2) show ?case
    proof (cases rule: pg_cache_step_cases)
      case (Incremental u c)
      with step.IH never_updated_step [OF Incremental(2) _ update_queries_fail(1) [OF assms(1,2)]] show ?thesis
        by auto
    next
      case (Full u c)
      with step.IH never_updated_step [OF Full(2) _ update_queries_fail(2) [OF assms(1,2)]] show ?thesis
        by auto
    qed
  qed
  then show ?thesis by blast
qed

text \<open>
  C21: after its initial load a cache is never updated again: the updaters bind the empty
  text as the time of the last update (\<open>SetLastUpdateTime\<close> drops its argument), which is
  no time for the incremental statement and one value too many for the full one, so every
  reply is an error, whatever the tables hold, for as long as the program runs.
\<close>

theorem cache_is_never_refreshed:
  assumes "postgres_laws R" and "(uq, fq) \<in> cache_statements"
    and "(pg_cache_step U F R)\<^sup>*\<^sup>*
      (PgCache_AsyncRunUpdate ((PgCache cfg uq fq data)\<lparr>pgc_last_update_time := t, pgc_data := loaded\<rparr>)) p"
  shows "pgc_data p = loaded"
  using cache_never_refreshed [OF assms(1,2) _ _ assms(3)] by (simp add: PgCache_def)

text \<open>A database that obeys the laws, for the witness.\<close>

definition strict_replies :: "query \<Rightarrow> 'r pg_reply \<Rightarrow> bool" where
  "strict_replies q r \<longleftrightarrow>
     (if well_bound q \<and> snd q \<noteq> [PgText []] then fst r = None else fst r = Some OtherPgError)"

theorem cache_is_never_refreshed_witness:
  "\<exists>p. (pg_cache_step (\<lambda>rows c. (rows @ c, Inr ())) (\<lambda>rows c. (rows, Inr ())) strict_replies)\<^sup>*\<^sup>*
      (PgCache_AsyncRunUpdate
        ((PgCache PgCacheConfig_default kUpdateCurrenciesCache kFullUpdateCurrenciesCache [])
          \<lparr>pgc_last_update_time := ''2024'', pgc_data := [1]\<rparr> :: (nat, nat list) pg_cache)) p \<and>
    up_update_time (pgc_updater p) = ''2025'' \<and> up_waits (pgc_updater p) = 1 \<and> pgc_data p = [1]"
proof -
  let ?U = "\<lambda>rows c. (rows @ c, Inr ()) :: nat list \<times> unit res"
  let ?F = "\<lambda>rows c :: nat list. (rows, Inr ()) :: nat list \<times> unit res"
  let ?p = "PgCache_AsyncRunUpdate
    ((PgCache PgCacheConfig_default kUpdateCurrenciesCache kFullUpdateCurrenciesCache [])
      \<lparr>pgc_last_update_time := ''2024'', pgc_data := [1]\<rparr> :: (nat, nat list) pg_cache)"
  let ?u1 = "timer_expires (pgc_updater ?p)"
  let ?u2 = "OnUpdateTimer ''2025'' False (?u1\<lparr>up_fired := []\<rparr>)"
  let ?u3 = "OnQueryCompletion (Some OtherPgError, []) (?u2\<lparr>up_queries := []\<rparr>)"
  note defs = PgCache_AsyncRunUpdate_def PgCache_def PgCacheUpdater_def updater_AsyncRunUpdate_def SetUpdateTimer_def
    SetLastUpdateTime_def timer_expires_def OnUpdateTimer_def DoQuery_def updater_GetQuery_def make_query_def
    OnQueryCompletion_def Let_def
  have data: "pgc_data ?p = [1]" by (simp add: defs)
  have step: "pg_cache_step ?U ?F strict_replies p (p\<lparr>pgc_updater := u\<rparr>)"
    if "updater_step ?U strict_replies (pgc_updater p, pgc_data p) (u, pgc_data p)" for p u
    using pg_cache_step.Incremental [OF that] by simp
  have s1: "updater_step ?U strict_replies (pgc_updater ?p, [1]) (?u1, [1])"
    by (rule updater_step.Expire) (simp add: defs)
  have s2: "updater_step ?U strict_replies (?u1, [1]) (?u2, [1])"
    by (rule updater_step.Timer) (simp add: defs)
  have s3: "updater_step ?U strict_replies (?u2, [1]) (?u3, [1])"
    using updater_step.Reply [of ?u2 "[]" "(kUpdateCurrenciesCache, [PgText []])" "[]" strict_replies "(Some OtherPgError, [])" ?U "[1]"]
    by (simp add: defs strict_replies_def)
  have run: "(pg_cache_step ?U ?F strict_replies)\<^sup>*\<^sup>* ?p (?p\<lparr>pgc_updater := ?u1, pgc_updater := ?u2, pgc_updater := ?u3\<rparr>)"
    using step [of ?p ?u1] step [of "?p\<lparr>pgc_updater := ?u1\<rparr>" ?u2] step [of "?p\<lparr>pgc_updater := ?u2\<rparr>" ?u3] s1 s2 s3 data
    by (intro rtranclp.rtrancl_into_rtrancl [OF rtranclp.rtrancl_into_rtrancl [OF r_into_rtranclp]]) simp_all
  have laws: "postgres_laws (strict_replies :: query \<Rightarrow> nat pg_reply \<Rightarrow> bool)"
    by (auto simp: postgres_laws_def strict_replies_def split: if_splits)
  have "(kUpdateCurrenciesCache, kFullUpdateCurrenciesCache) \<in> cache_statements"
    by (simp add: cache_statements_def)
  from cache_is_never_refreshed [OF laws this run] run show ?thesis
    by (intro exI [of _ "?p\<lparr>pgc_updater := ?u1, pgc_updater := ?u2, pgc_updater := ?u3\<rparr>"] conjI) (simp_all add: defs)
qed

end
