(* ===== verification/Io_Context.thy ===== *)
theory Io_Context
  imports Config
begin

text \<open>
  \<open>engine/src/utils/thread_pool.cpp\<close>, \<open>components/io_context.cpp\<close> and \<open>utils/opt_ref.hpp\<close>: the
  threads of the program and the loop each of them runs.  What a handler of the event loop
  does is a parameter: it changes the state of the program, posts further handlers, may stop
  the loop and may throw.
\<close>

section \<open>Optional references\<close>

text \<open>
  \<open>OptRef<T>\<close>: an optional address.  \<open>*\<close>, \<open>\<rightarrow>\<close> and \<open>Ref\<close> of an empty one are undefined.
\<close>

type_synonym 'a opt_ref = "'a option"

definition OptRef :: "'a \<Rightarrow> 'a opt_ref" where
  "OptRef t = Some t"

definition OptRef_Ref :: "'a opt_ref \<Rightarrow> 'a res" where
  "OptRef_Ref r = (case r of Some t \<Rightarrow> Inr t | None \<Rightarrow> Inl Undefined)"

definition OptRef_arrow :: "'a opt_ref \<Rightarrow> 'a res" where
  "OptRef_arrow r = OptRef_Ref r"

text \<open>\<open>Ptr\<close>: the address, or the null pointer (\<open>None\<close>).\<close>

definition OptRef_Ptr :: "'a opt_ref \<Rightarrow> 'a option" where
  "OptRef_Ptr r = (if r \<noteq> None then Some (the r) else None)"

lemma OptRef_Ptr_id: "OptRef_Ptr r = r"
  by (cases r) (simp_all add: OptRef_Ptr_def)

section \<open>Thread pools\<close>

text \<open>\<open>tp_threads\<close>: for each thread that was started, whether it is still to be joined.\<close>

record thread_pool =
  tp_threads :: "bool list"
  tp_threads_num :: nat

definition ThreadPool :: "nat \<Rightarrow> thread_pool" where
  "ThreadPool threads_num = \<lparr>tp_threads = [], tp_threads_num = threads_num\<rparr>"

definition SetThreadsNum :: "nat \<Rightarrow> thread_pool \<Rightarrow> thread_pool" where
  "SetThreadsNum threads_num p = p\<lparr>tp_threads_num := threads_num\<rparr>"

definition GetThreadsNum :: "thread_pool \<Rightarrow> nat" where
  "GetThreadsNum p = tp_threads_num p"

definition ThreadPool_Run :: "thread_pool \<Rightarrow> thread_pool" where
  "ThreadPool_Run p = p\<lparr>tp_threads := tp_threads p @ replicate (tp_threads_num p) True\<rparr>"

definition JoinAll :: "thread_pool \<Rightarrow> thread_pool" where
  "JoinAll p = p\<lparr>tp_threads := map (\<lambda>joinable. False) (tp_threads p)\<rparr>"

lemma JoinAll_Run: "tp_threads (JoinAll (ThreadPool_Run (ThreadPool n))) = replicate n False"
  by (simp add: JoinAll_def ThreadPool_Run_def ThreadPool_def)

section \<open>The event loop of a thread\<close>

text \<open>What a handler did: the new state, what it posted, whether it stopped the loop, what it threw.\<close>

record ('t, 's) handler_result =
  hr_state :: 's
  hr_posts :: "'t list"
  hr_stops :: bool
  hr_throws :: "exn option"

record ('t, 's) io_context =
  io_queue :: "'t list"
  io_stopped :: bool
  io_state :: 's
  io_logger :: logger

definition io_stop :: "('t, 's) io_context \<Rightarrow> ('t, 's) io_context" where
  "io_stop io = io\<lparr>io_stopped := True\<rparr>"

definition run_handler ::
  "('t \<Rightarrow> 's \<Rightarrow> ('t, 's) handler_result) \<Rightarrow> 't \<Rightarrow> ('t, 's) io_context \<Rightarrow> ('t, 's) io_context \<times> exn option" where
  "run_handler exec t io =
     (let r = exec t (io_state io)
      in (io\<lparr>io_state := hr_state r, io_queue := io_queue io @ hr_posts r,
             io_stopped := io_stopped io \<or> hr_stops r\<rparr>, hr_throws r))"

text \<open>
  Asio's \<open>io_context::run()\<close>: it runs the posted handlers in order until it is stopped, or
  until there are none left, which stops it; an exception of a handler leaves \<open>run()\<close> and
  the rest of the queue stays.  A loop that has not ended within the fuel is \<open>None\<close>.
\<close>

primrec io_run ::
  "('t \<Rightarrow> 's \<Rightarrow> ('t, 's) handler_result) \<Rightarrow> nat \<Rightarrow> ('t, 's) io_context \<Rightarrow>
     (('t, 's) io_context \<times> exn option) option" where
  "io_run exec 0 io = None"
| "io_run exec (Suc n) io =
     (if io_stopped io then Some (io, None)
      else case io_queue io of
        [] \<Rightarrow> Some (io_stop io, None)
      | t # q \<Rightarrow>
          (case run_handler exec t (io\<lparr>io_queue := q\<rparr>) of
             (io', Some e) \<Rightarrow> Some (io', Some e)
           | (io', None) \<Rightarrow> io_run exec n io'))"

text \<open>\<open>diag\<close>: \<open>boost::current_exception_diagnostic_information()\<close>.\<close>

fun exception_record :: "string \<Rightarrow> exn \<Rightarrow> Level \<times> string" where
  "exception_record diag (StdException msg) = (lvl_error, ''Unhandled exception: '' @ msg)"
| "exception_record diag (HttpException msg st) = (lvl_error, ''Unhandled exception: '' @ msg)"
| "exception_record diag UnknownException = (lvl_error, ''Unknown exception: '' @ diag)"

text \<open>\<open>LOG(error, ...)\<close> in a \<open>catch\<close> block, to the default logger, which checks its level.\<close>

definition log_exception :: "string \<Rightarrow> exn \<Rightarrow> ('t, 's) io_context \<Rightarrow> ('t, 's) io_context" where
  "log_exception diag e io =
     (case exception_record diag e of
        (lvl, msg) \<Rightarrow> io\<lparr>io_logger := LOG_TO_LOGGER (io_logger io) lvl msg\<rparr>)"

text \<open>The function of a thread: \<open>run()\<close> again and again until the context is stopped.\<close>

primrec thread_cb ::
  "('t \<Rightarrow> 's \<Rightarrow> ('t, 's) handler_result) \<Rightarrow> string \<Rightarrow> nat \<Rightarrow> nat \<Rightarrow> ('t, 's) io_context \<Rightarrow>
     ('t, 's) io_context option" where
  "thread_cb exec diag m 0 io = None"
| "thread_cb exec diag m (Suc n) io =
     (if io_stopped io then Some io
      else case io_run exec m io of
        None \<Rightarrow> None
      | Some (io', None) \<Rightarrow> thread_cb exec diag m n io'
      | Some (io', Some e) \<Rightarrow>
          thread_cb exec diag m n (log_exception diag e io'))"

text \<open>\<open>IOContextBase\<close>: a context and a pool of \<open>threads_num\<close> threads that all run the loop.\<close>

record io_context_base =
  iob_thread_pool :: thread_pool

definition IOContextBase :: "'d lib \<Rightarrow> yaml \<Rightarrow> io_context_base res" where
  "IOContextBase L cfg =
     res_bind (ParseIOContextConfig L cfg) (\<lambda>c. Inr \<lparr>iob_thread_pool = ThreadPool (unat (ioc_threads_num c))\<rparr>)"

definition IOContextBase_Run :: "io_context_base \<Rightarrow> io_context_base" where
  "IOContextBase_Run b = b\<lparr>iob_thread_pool := ThreadPool_Run (iob_thread_pool b)\<rparr>"

definition IOContextBase_Join :: "io_context_base \<Rightarrow> io_context_base" where
  "IOContextBase_Join b = b\<lparr>iob_thread_pool := JoinAll (iob_thread_pool b)\<rparr>"

definition IOContextBase_GetThreadsNum :: "io_context_base \<Rightarrow> nat" where
  "IOContextBase_GetThreadsNum b = GetThreadsNum (iob_thread_pool b)"

section \<open>Exceptions do not stop the loop\<close>

text \<open>
  The reference: the handlers run in order until one stops the loop or none is left, and
  exceptions are only noted.
\<close>

primrec run_all ::
  "('t \<Rightarrow> 's \<Rightarrow> ('t, 's) handler_result) \<Rightarrow> nat \<Rightarrow> 't list \<Rightarrow> 's \<Rightarrow> ('t list \<times> 's \<times> exn list) option" where
  "run_all exec 0 q s = None"
| "run_all exec (Suc n) q s =
     (case q of
        [] \<Rightarrow> Some ([], s, [])
      | t # q' \<Rightarrow>
          (let r = exec t s;
               es = (case hr_throws r of Some e \<Rightarrow> [e] | None \<Rightarrow> []);
               q'' = q' @ hr_posts r
           in if hr_stops r then Some (q'', hr_state r, es)
              else map_option (\<lambda>(q, s, es'). (q, s, es @ es')) (run_all exec n q'' (hr_state r))))"

lemma thread_cb_stopped: "io_stopped io \<Longrightarrow> thread_cb exec diag m (Suc n) io = Some io"
  by simp

text \<open>More fuel does not change a result.\<close>

lemma io_run_more: "io_run exec n io = Some x \<Longrightarrow> n \<le> m \<Longrightarrow> io_run exec m io = Some x"
proof (induction n arbitrary: io m)
  case (Suc n)
  then obtain k where m: "m = Suc k" "n \<le> k" by (cases m) auto
  with Suc show ?case by (auto split: if_splits list.splits prod.splits option.splits)
qed simp

lemma thread_cb_more:
  "thread_cb exec diag m n io = Some x \<Longrightarrow> m \<le> m' \<Longrightarrow> n \<le> n' \<Longrightarrow> thread_cb exec diag m' n' io = Some x"
proof (induction n arbitrary: io n')
  case (Suc n)
  then obtain k where n': "n' = Suc k" "n \<le> k" by (cases n') auto
  show ?case
  proof (cases "io_stopped io")
    case False
    with Suc.prems(1) obtain y where y: "io_run exec m io = Some y" by (auto split: option.splits)
    note y' = io_run_more [OF y Suc.prems(2)]
    obtain io' oe where "y = (io', oe)" by (cases y)
    with Suc.prems Suc.IH [OF _ _ n'(2)] False y y' n'(1) show ?thesis by (cases oe) auto
  qed (use Suc.prems(1) n' in simp)
qed simp

lemma thread_cb_same_run:
  "io_run exec m io = io_run exec m io' \<Longrightarrow> \<not> io_stopped io \<Longrightarrow> \<not> io_stopped io' \<Longrightarrow>
    thread_cb exec diag m (Suc n) io = thread_cb exec diag m (Suc n) io'"
  by simp

text \<open>Running one handler brings the loop to where the handler leaves the context.\<close>

lemma thread_cb_handler:
  assumes "\<not> io_stopped io" and "io_queue io = t # q"
    and "run_handler exec t (io\<lparr>io_queue := q\<rparr>) = (io1, e)"
    and "thread_cb exec diag m k
      (case e of None \<Rightarrow> io1 | Some ex \<Rightarrow> log_exception diag ex io1) = Some x"
  shows "\<exists>m k. thread_cb exec diag m k io = Some x"
proof (cases e)
  case (Some ex)
  with assms have "io_run exec (Suc m) io = Some (io1, Some ex)" by simp
  moreover have "thread_cb exec diag (Suc m) k (log_exception diag ex io1) = Some x"
    using assms(4) Some thread_cb_more [of exec diag m k _ x "Suc m" k] by simp
  ultimately have "thread_cb exec diag (Suc m) (Suc k) io = Some x" using assms(1) by simp
  then show ?thesis by blast
next
  case None
  with assms have run: "io_run exec (Suc j) io = io_run exec j io1" for j by simp
  show ?thesis
  proof (cases "io_stopped io1")
    case True
    with assms(4) None have "x = io1" by (cases k) auto
    with True assms(1) run [of 1] have "thread_cb exec diag 2 2 io = Some x"
      by (simp add: numeral_2_eq_2 del: io_run.simps) simp
    then show ?thesis by blast
  next
    case False
    with assms(4) None obtain k' y where k: "k = Suc k'" and y: "io_run exec m io1 = Some y"
      by (cases k) (auto split: option.splits)
    have "io_run exec (Suc m) io = io_run exec (Suc m) io1"
      using run [of m] y io_run_more [OF y, of "Suc m"] by (simp del: io_run.simps)
    from thread_cb_same_run [OF this assms(1) False]
    have "thread_cb exec diag (Suc m) k io = thread_cb exec diag (Suc m) k io1" by (simp add: k)
    moreover have "thread_cb exec diag (Suc m) k io1 = Some x"
      using assms(4) None thread_cb_more [of exec diag m k io1 x "Suc m" k] by simp
    ultimately show ?thesis by metis
  qed
qed

text \<open>What the log holds after some exceptions: all of them are errors.\<close>

definition log_exceptions :: "string \<Rightarrow> exn list \<Rightarrow> logger \<Rightarrow> logger" where
  "log_exceptions diag es lg =
     lg\<lparr>lg_records := lg_records lg @ (if GetLevel lg \<le> lvl_error then map (exception_record diag) es else [])\<rparr>"

lemma log_exception_eq: "log_exception diag e io = io\<lparr>io_logger := log_exceptions diag [e] (io_logger io)\<rparr>"
  by (cases e) (simp_all add: log_exception_def log_exceptions_def LOG_TO_LOGGER_def CHECK_LOG_LEVEL_def Log_def)

lemma log_exceptions_append [simp]:
  "log_exceptions diag es' (log_exceptions diag es lg) = log_exceptions diag (es @ es') lg"
  "log_exceptions diag [] lg = lg"
  by (simp_all add: log_exceptions_def GetLevel_def)

text \<open>
  C32: the loop of a thread runs every handler in order up to the one that stops it, just as
  if no handler threw: exceptions neither end the loop nor lose or reorder handlers.  Each
  of them leaves one record in the log if the level of the logger lets errors through, and
  none otherwise.
\<close>

theorem event_loop_survives_exceptions:
  assumes "run_all exec n (io_queue io) (io_state io) = Some (q, s, es)" and "\<not> io_stopped io"
  shows "\<exists>m k. thread_cb exec diag m k io =
    Some (io\<lparr>io_queue := q, io_state := s, io_stopped := True,
      io_logger := (io_logger io)\<lparr>lg_records := lg_records (io_logger io) @
        (if GetLevel (io_logger io) \<le> lvl_error then map (exception_record diag) es else [])\<rparr>\<rparr>)"
  unfolding log_exceptions_def [symmetric]
  using assms
proof (induction n arbitrary: io q s es)
  case (Suc n)
  show ?case
  proof (cases "io_queue io")
    case Nil
    with Suc.prems have "thread_cb exec diag 1 2 io =
        Some (io\<lparr>io_queue := q, io_state := s, io_stopped := True,
                 io_logger := log_exceptions diag es (io_logger io)\<rparr>)"
      by (auto simp: numeral_2_eq_2 io_stop_def)
    then show ?thesis by blast
  next
    case (Cons t q')
    let ?r = "exec t (io_state io)"
    let ?es = "case hr_throws ?r of Some e \<Rightarrow> [e] | None \<Rightarrow> []"
    let ?io1 = "io\<lparr>io_queue := q' @ hr_posts ?r, io_state := hr_state ?r, io_stopped := hr_stops ?r\<rparr>"
    let ?io = "?io1\<lparr>io_logger := log_exceptions diag ?es (io_logger io)\<rparr>"
    have first: "\<exists>m k. thread_cb exec diag m k io = Some x" if "thread_cb exec diag m k ?io = Some x" for x m k
    proof (rule thread_cb_handler [OF Suc.prems(2) Cons])
      show "run_handler exec t (io\<lparr>io_queue := q'\<rparr>) = (?io1, hr_throws ?r)"
        using Suc.prems(2) by (simp add: run_handler_def Let_def)
      show "thread_cb exec diag m k (case hr_throws ?r of None \<Rightarrow> ?io1 | Some ex \<Rightarrow> log_exception diag ex ?io1) = Some x"
        using that by (cases "hr_throws ?r") (simp_all add: log_exception_eq)
    qed
    show ?thesis
    proof (cases "hr_stops ?r")
      case True
      with Suc.prems(1) Cons have "(q, s, es) = (q' @ hr_posts ?r, hr_state ?r, ?es)"
        by (simp add: Let_def)
      with True first [OF thread_cb_stopped [of ?io exec diag 0 0]] show ?thesis by simp
    next
      case False
      with Suc.prems(1) Cons obtain es' where
        rest: "run_all exec n (q' @ hr_posts ?r) (hr_state ?r) = Some (q, s, es')" and es: "es = ?es @ es'"
        by (auto simp: Let_def)
      from Suc.IH [of ?io q s es'] rest False obtain m k where
        "thread_cb exec diag m k ?io = Some (?io\<lparr>io_queue := q, io_state := s, io_stopped := True,
           io_logger := log_exceptions diag es' (io_logger ?io)\<rparr>)" by auto
      from first [OF this] es show ?thesis by simp
    qed
  qed
qed simp

theorem event_loop_survives_exceptions_witness:
  "\<exists>m k. thread_cb (\<lambda>t s. \<lparr>hr_state = s + t, hr_posts = [], hr_stops = t = 9,
       hr_throws = if t = 2 then Some (StdException ''late'') else None\<rparr>) [] m k
     \<lparr>io_queue = [1, 2, 3, 9, 4], io_stopped = False, io_state = 0 :: nat, io_logger = StdoutLogger ''x''\<rparr> =
   Some \<lparr>io_queue = [4], io_stopped = True, io_state = 15,
      io_logger = Log (StdoutLogger ''x'') lvl_error ''Unhandled exception: late''\<rparr>"
proof -
  let ?exec = "\<lambda>t s. \<lparr>hr_state = s + t, hr_posts = [], hr_stops = t = 9,
      hr_throws = if t = 2 then Some (StdException ''late'') else None\<rparr>"
  let ?io = "\<lparr>io_queue = [1, 2, 3, 9, 4], io_stopped = False, io_state = 0 :: nat, io_logger = StdoutLogger ''x''\<rparr>"
  have "run_all ?exec 5 (io_queue ?io) (io_state ?io) = Some ([4], 15, [StdException ''late''])"
    by (simp add: eval_nat_numeral Let_def)
  moreover have "GetLevel (StdoutLogger ''x'') \<le> lvl_error" by code_simp
  ultimately show ?thesis
    using event_loop_survives_exceptions [of ?exec 5 ?io "[4]" 15 "[StdException ''late'']" "[]"]
    by (simp add: Log_def)
qed

end
