(* ===== verification/Pg_Cache_Init.thy ===== *)
theory Pg_Cache_Init
  imports Pg_Cache Io_Context
begin

text \<open>
  \<open>InitPgCaches\<close> of \<open>engine/src/http_server/server_builder.cpp\<close> with \<open>AsyncRunInit\<close>, \<open>WaitForInit\<close>
  and \<open>NotifyAboutInitCompletion\<close> of \<open>pg_cache.hpp\<close>: the initial load of the caches by a pool
  with one thread for each cache.  A cache's completion handler runs on a thread of the
  pool and may block there until other caches are initialised (\<open>WaitForInit\<close>).
\<close>

section \<open>The state\<close>

text \<open>
  What a cache's load is doing: its statement has no reply yet; the handler of the reply
  waits for a thread (with whether the reply was an error); it runs, and is perhaps blocked;
  or it has ended.  A cache is initialised (\<open>is_init_\<close>) from the end of its handler on.
\<close>

datatype load = Querying | Replied bool | Loading | Loaded

record init_state =
  in_loads :: "load list"
  in_is_init :: "bool list"
  in_threads :: nat
  in_terminated :: bool

text \<open>
  \<open>AsyncRunInit\<close> sends the statement of a cache; \<open>InitPgCaches\<close> sends those of all caches and
  starts as many threads.
\<close>

definition AsyncRunInit :: "init_state \<Rightarrow> init_state" where
  "AsyncRunInit s = s\<lparr>in_loads := in_loads s @ [Querying], in_is_init := in_is_init s @ [False]\<rparr>"

definition start_loads :: "nat \<Rightarrow> nat \<Rightarrow> init_state" where
  "start_loads threads caches_num =
     (AsyncRunInit ^^ caches_num)
       \<lparr>in_loads = [], in_is_init = [], in_threads = GetThreadsNum (ThreadPool threads), in_terminated = False\<rparr>"

definition InitPgCaches :: "nat \<Rightarrow> init_state" where
  "InitPgCaches caches_num = start_loads caches_num caches_num"

text \<open>
  \<open>WaitForInit\<close> of cache \<open>j\<close> returns if the flag of the cache is set; \<open>deps i\<close> are the caches
  the update of cache \<open>i\<close> waits for.
\<close>

definition WaitForInit_returns :: "init_state \<Rightarrow> nat \<Rightarrow> bool" where
  "WaitForInit_returns s j = (in_is_init s ! j)"

definition NotifyAboutInitCompletion :: "nat \<Rightarrow> init_state \<Rightarrow> init_state" where
  "NotifyAboutInitCompletion i s = s\<lparr>in_is_init := (in_is_init s)[i := True]\<rparr>"

definition busy :: "init_state \<Rightarrow> nat" where
  "busy s = length (filter (\<lambda>l. l = Loading) (in_loads s))"

text \<open>
  The steps: a reply arrives; a free thread takes a handler, which throws on an error reply
  or starts the update; once the caches it waits for are initialised the update ends, or
  throws (\<open>throwing i\<close>).  What is thrown leaves the function of the thread, so the program is
  terminated.
\<close>

inductive init_step :: "(nat \<Rightarrow> nat list) \<Rightarrow> (nat \<Rightarrow> bool) \<Rightarrow> init_state \<Rightarrow> init_state \<Rightarrow> bool"
  for deps :: "nat \<Rightarrow> nat list" and throwing :: "nat \<Rightarrow> bool"
where
  Reply: "\<not> in_terminated s \<Longrightarrow> i < length (in_loads s) \<Longrightarrow> in_loads s ! i = Querying \<Longrightarrow>
    init_step deps throwing s (s\<lparr>in_loads := (in_loads s)[i := Replied ec]\<rparr>)"
| Throw: "\<not> in_terminated s \<Longrightarrow> i < length (in_loads s) \<Longrightarrow> in_loads s ! i = Replied True \<Longrightarrow>
    busy s < in_threads s \<Longrightarrow> init_step deps throwing s (s\<lparr>in_terminated := True\<rparr>)"
| Take: "\<not> in_terminated s \<Longrightarrow> i < length (in_loads s) \<Longrightarrow> in_loads s ! i = Replied False \<Longrightarrow>
    busy s < in_threads s \<Longrightarrow> init_step deps throwing s (s\<lparr>in_loads := (in_loads s)[i := Loading]\<rparr>)"
| Finish: "\<not> in_terminated s \<Longrightarrow> i < length (in_loads s) \<Longrightarrow> in_loads s ! i = Loading \<Longrightarrow> \<not> throwing i \<Longrightarrow>
    \<forall>j \<in> set (deps i). WaitForInit_returns s j \<Longrightarrow>
    init_step deps throwing s (NotifyAboutInitCompletion i (s\<lparr>in_loads := (in_loads s)[i := Loaded]\<rparr>))"
| Update_throws: "\<not> in_terminated s \<Longrightarrow> i < length (in_loads s) \<Longrightarrow> in_loads s ! i = Loading \<Longrightarrow> throwing i \<Longrightarrow>
    \<forall>j \<in> set (deps i). WaitForInit_returns s j \<Longrightarrow> init_step deps throwing s (s\<lparr>in_terminated := True\<rparr>)"

inductive_cases init_stepE: "init_step deps throwing s s'"

section \<open>No deadlock\<close>

text \<open>The flag of a cache is set exactly when its handler has ended, and a termination has a cause.\<close>

definition init_inv :: "(nat \<Rightarrow> bool) \<Rightarrow> nat \<Rightarrow> nat \<Rightarrow> init_state \<Rightarrow> bool" where
  "init_inv throwing threads n s \<longleftrightarrow>
     length (in_loads s) = n \<and> length (in_is_init s) = n \<and> in_threads s = threads \<and>
     (\<forall>i < n. in_is_init s ! i \<longleftrightarrow> in_loads s ! i = Loaded) \<and>
     (in_terminated s \<longrightarrow> (\<exists>i < n. in_loads s ! i = Replied True \<or> in_loads s ! i = Loading \<and> throwing i))"

lemma start_loads_eq:
  "start_loads threads n =
     \<lparr>in_loads = replicate n Querying, in_is_init = replicate n False, in_threads = threads,
      in_terminated = False\<rparr>"
  unfolding start_loads_def
  by (induction n) (simp_all add: AsyncRunInit_def GetThreadsNum_def ThreadPool_def replicate_append_same)

lemma init_inv_start: "init_inv throwing threads n (start_loads threads n)"
  by (simp add: init_inv_def start_loads_eq)

lemma init_step_inv: "init_step deps throwing s s' \<Longrightarrow> init_inv throwing threads n s \<Longrightarrow> init_inv throwing threads n s'"
  by (auto simp: init_inv_def NotifyAboutInitCompletion_def nth_list_update elim!: init_stepE split: if_splits)

lemma reachable_init_inv:
  "(init_step deps throwing)\<^sup>*\<^sup>* (start_loads threads n) s \<Longrightarrow> init_inv throwing threads n s"
  by (induction rule: rtranclp_induct) (auto intro: init_inv_start init_step_inv)

text \<open>Every step uses up something, so the steps come to an end.\<close>

fun load_rest :: "load \<Rightarrow> nat" where
  "load_rest Querying = 3"
| "load_rest (Replied ec) = 2"
| "load_rest Loading = 1"
| "load_rest Loaded = 0"

definition init_rest :: "init_state \<Rightarrow> nat" where
  "init_rest s = (if in_terminated s then 0 else Suc (sum_list (map load_rest (in_loads s))))"

lemma sum_list_update_less:
  "i < length xs \<Longrightarrow> f x < f (xs ! i) \<Longrightarrow> sum_list (map f (xs[i := x])) < sum_list (map (f :: 'a \<Rightarrow> nat) xs)"
proof (induction xs arbitrary: i)
  case (Cons y xs)
  then show ?case by (cases i) auto
qed simp

lemma init_step_decreases: "init_step deps throwing s s' \<Longrightarrow> init_rest s' < init_rest s"
  by (auto simp: init_rest_def NotifyAboutInitCompletion_def elim!: init_stepE)
    (rule sum_list_update_less; simp)+

text \<open>
  A state without a next step in which a cache is not loaded: every such cache is blocked,
  so the one of lowest rank waits for one of lower rank.
\<close>

lemma stuck_all_loaded:
  assumes inv: "init_inv throwing threads n s" and "n \<le> threads" and "\<not> in_terminated s"
    and stuck: "\<And>s'. \<not> init_step deps throwing s s'"
    and rank: "\<And>i j. i < n \<Longrightarrow> j \<in> set (deps i) \<Longrightarrow> j < n \<and> (rank j :: nat) < rank i"
    and "i < n"
  shows "in_loads s ! i = Loaded"
  using \<open>i < n\<close>
proof (induction "rank i" arbitrary: i rule: less_induct)
  case less
  have len: "length (in_loads s) = n" "in_threads s = threads" using inv by (auto simp: init_inv_def)
  show ?case
  proof (cases "in_loads s ! i")
    case Querying
    with init_step.Reply [of s i deps throwing] stuck assms(3) less.prems len show ?thesis by blast
  next
    case (Replied ec)
    then have "busy s < threads"
      using length_filter_less [of "in_loads s ! i" "in_loads s" "\<lambda>l. l = Loading"] less.prems len assms(2)
        nth_mem [of i "in_loads s"]
      by (simp add: busy_def)
    with Replied init_step.Throw [of s i deps throwing] init_step.Take [of s i deps throwing] stuck assms(3) less.prems len
    show ?thesis by (cases ec) auto
  next
    case Loading
    have "WaitForInit_returns s j" if "j \<in> set (deps i)" for j
      using less.hyps [of j] rank [OF less.prems that] inv by (simp add: WaitForInit_returns_def init_inv_def)
    with Loading init_step.Finish [of s i throwing deps] init_step.Update_throws [of s i throwing deps] stuck assms(3) less.prems len show ?thesis by blast
  next
    case Loaded
    then show ?thesis .
  qed
qed

text \<open>
  C18: with a thread for every cache, and waits that do not go round in a circle, the
  initial load always ends: no run of it is infinite, and a run that cannot go on has either
  initialised every cache or was terminated, because a reply was an error or because an
  update threw.
\<close>

theorem caches_initialization_ends:
  assumes "(init_step deps throwing)\<^sup>*\<^sup>* (InitPgCaches n) s"
    and "\<And>i j. i < n \<Longrightarrow> j \<in> set (deps i) \<Longrightarrow> j < n \<and> (rank j :: nat) < rank i"
  shows "(\<forall>s'. init_step deps throwing s s' \<longrightarrow> init_rest s' < init_rest s) \<and>
    ((\<forall>s'. \<not> init_step deps throwing s s') \<longrightarrow>
       (if in_terminated s
        then \<exists>i < n. in_loads s ! i = Replied True \<or> in_loads s ! i = Loading \<and> throwing i
        else in_is_init s = replicate n True))"
proof -
  have inv: "init_inv throwing n n s" using assms(1) unfolding InitPgCaches_def by (rule reachable_init_inv)
  have "in_is_init s = replicate n True" if "\<And>s'. \<not> init_step deps throwing s s'" "\<not> in_terminated s"
    using stuck_all_loaded [OF inv order_refl that(2,1) assms(2)] inv
    by (auto simp: init_inv_def intro!: nth_equalityI)
  moreover have "in_terminated s \<longrightarrow> (\<exists>i < n. in_loads s ! i = Replied True \<or> in_loads s ! i = Loading \<and> throwing i)"
    using inv by (simp add: init_inv_def)
  ultimately show ?thesis using init_step_decreases by simp
qed

text \<open>The caches of the program: the exchange rates (1) wait for the currencies (0).\<close>

definition service_deps :: "nat \<Rightarrow> nat list" where
  "service_deps i = (if i = 1 then [0] else [])"

theorem caches_initialization_ends_witness:
  "\<exists>s. (init_step service_deps (\<lambda>i. False))\<^sup>*\<^sup>* (InitPgCaches 2) s \<and>
     (\<forall>s'. \<not> init_step service_deps (\<lambda>i. False) s s') \<and>
     (if in_terminated s then \<exists>i < 2. in_loads s ! i = Replied True else in_is_init s = [True, True])"
proof -
  let ?step = "init_step service_deps (\<lambda>i. False)"
  have rank: "i < 2 \<Longrightarrow> j \<in> set (service_deps i) \<Longrightarrow> j < 2 \<and> id j < id i" for i j
    by (auto simp: service_deps_def split: if_splits)
  have "\<exists>s. ?step\<^sup>*\<^sup>* s0 s \<and> (\<forall>s'. \<not> ?step s s')" for s0
  proof (induction "init_rest s0" arbitrary: s0 rule: less_induct)
    case less
    then show ?case using init_step_decreases by (meson converse_rtranclp_into_rtranclp rtranclp.rtrancl_refl)
  qed
  then obtain s where s: "?step\<^sup>*\<^sup>* (InitPgCaches 2) s" "\<forall>s'. \<not> ?step s s'" by blast
  from caches_initialization_ends [OF s(1) rank] s(2)
  have "if in_terminated s then \<exists>i < 2. in_loads s ! i = Replied True else in_is_init s = [True, True]"
    by (auto simp: numeral_2_eq_2 split: if_splits)
  with s show ?thesis by blast
qed

text \<open>
  One thread would not be enough for the two caches of the program: if the reply for
  the rates is handled first, its handler blocks the thread and nothing happens any more.
\<close>

theorem one_thread_deadlocks:
  "\<exists>s. (init_step service_deps (\<lambda>i. False))\<^sup>*\<^sup>* (start_loads 1 2) s \<and> \<not> in_terminated s \<and>
     in_is_init s = [False, False] \<and> (\<forall>s'. \<not> init_step service_deps (\<lambda>i. False) s s')"
proof -
  let ?step = "init_step service_deps (\<lambda>i. False)"
  let ?s = "\<lambda>loads. \<lparr>in_loads = loads, in_is_init = [False, False], in_threads = 1, in_terminated = False\<rparr>"
  have "start_loads 1 2 = ?s [Querying, Querying]"
    by (simp add: start_loads_eq numeral_2_eq_2)
  moreover have "?step (?s [Querying, Querying]) (?s [Replied False, Querying])"
    using init_step.Reply [of "?s [Querying, Querying]" 0 service_deps "\<lambda>i. False" False] by simp
  moreover have "?step (?s [Replied False, Querying]) (?s [Replied False, Replied False])"
    using init_step.Reply [of "?s [Replied False, Querying]" 1 service_deps "\<lambda>i. False" False] by simp
  moreover have "?step (?s [Replied False, Replied False]) (?s [Replied False, Loading])"
    using init_step.Take [of "?s [Replied False, Replied False]" 1 service_deps "\<lambda>i. False"] by (simp add: busy_def)
  ultimately have "?step\<^sup>*\<^sup>* (start_loads 1 2) (?s [Replied False, Loading])"
    by (metis converse_rtranclp_into_rtranclp rtranclp.rtrancl_refl)
  moreover have "\<not> ?step (?s [Replied False, Loading]) s'" for s'
    by (auto simp: less_Suc_eq busy_def service_deps_def WaitForInit_returns_def elim!: init_stepE)
  ultimately show ?thesis by (intro exI [of _ "?s [Replied False, Loading]"]) simp
qed

end
