(* ===== verification/Child_Vector.thy ===== *)
theory Child_Vector
  imports Http_Status
begin

text \<open>
  \<open>child_idx_vector\<close> of \<open>third_party/router/src/detail/impl/router.cpp\<close>: a vector of node
  indices with room for five of them inside the object.  \<open>N\<close> is the number of inline
  places; a \<open>size_t\<close> has eight bytes, least significant first.
\<close>

section \<open>The vector\<close>

definition inline_places :: nat where
  "inline_places = 5"

lemma inline_places_pos [simp]: "0 < inline_places"
  by (simp add: inline_places_def)

text \<open>
  \<open>cv_heap\<close> is the array behind the pointer \<open>child_idx\<close> (\<open>None\<close>: null); its length is the
  number of places that were allocated.
\<close>

record child_idx_vector =
  cv_static :: "nat list"
  cv_heap :: "nat list option"
  cv_size :: nat
  cv_cap :: nat

definition child_idx_vector_empty :: child_idx_vector where
  "child_idx_vector_empty =
     \<lparr>cv_static = replicate inline_places 0, cv_heap = None, cv_size = 0, cv_cap = 0\<rparr>"

text \<open>\<open>begin()\<close> points into the heap array if there is one; the elements are what it holds.\<close>

definition cv_array :: "child_idx_vector \<Rightarrow> nat list" where
  "cv_array v = (case cv_heap v of Some a \<Rightarrow> a | None \<Rightarrow> cv_static v)"

definition elements :: "child_idx_vector \<Rightarrow> nat list" where
  "elements v = take (cv_size v) (cv_array v)"

text \<open>\<open>push_back\<close>: growing copies the old elements in front of unspecified places (\<open>junk\<close>).\<close>

definition cv_grow :: "nat list \<Rightarrow> child_idx_vector \<Rightarrow> child_idx_vector" where
  "cv_grow junk v =
     (if cv_size v = inline_places \<and> cv_heap v = None then
        v\<lparr>cv_heap := Some (take inline_places (cv_static v) @ take inline_places junk), cv_cap := 2 * inline_places\<rparr>
      else case cv_heap v of
        None \<Rightarrow> v
      | Some a \<Rightarrow>
          if cv_size v = cv_cap v
          then v\<lparr>cv_heap := Some (take (cv_cap v) a @ take (cv_cap v) junk), cv_cap := 2 * cv_cap v\<rparr>
          else v)"

definition push_back :: "nat list \<Rightarrow> nat \<Rightarrow> child_idx_vector \<Rightarrow> child_idx_vector" where
  "push_back junk x v =
     (let w = cv_grow junk v
      in case cv_heap w of
           Some a \<Rightarrow> w\<lparr>cv_heap := Some (a[cv_size w := x]), cv_size := Suc (cv_size w)\<rparr>
         | None \<Rightarrow> w\<lparr>cv_static := (cv_static w)[cv_size w := x], cv_size := Suc (cv_size w)\<rparr>)"

text \<open>The copy constructor.\<close>

definition cv_copy :: "nat list \<Rightarrow> child_idx_vector \<Rightarrow> child_idx_vector" where
  "cv_copy junk other =
     (case cv_heap other of
        Some a \<Rightarrow>
          \<lparr>cv_static = replicate inline_places 0,
           cv_heap = Some (take (cv_size other) a @ take (cv_cap other - cv_size other) junk),
           cv_size = cv_size other, cv_cap = cv_cap other\<rparr>
      | None \<Rightarrow>
          \<lparr>cv_static = take (cv_size other) (cv_static other) @ replicate (inline_places - cv_size other) 0,
           cv_heap = None, cv_size = cv_size other, cv_cap = cv_cap other\<rparr>)"

section \<open>Bytes\<close>

definition le_bytes :: "nat \<Rightarrow> nat list" where
  "le_bytes n = map (\<lambda>k. n div 256 ^ k mod 256) [0..<8]"

fun le_word :: "nat list \<Rightarrow> nat" where
  "le_word [] = 0"
| "le_word (b # bs) = b + 256 * le_word bs"

definition memory_of :: "nat list \<Rightarrow> nat list" where
  "memory_of xs = concat (map le_bytes xs)"

fun words_of :: "nat \<Rightarrow> nat list \<Rightarrow> nat list" where
  "words_of 0 bs = []"
| "words_of (Suc n) bs = le_word (take 8 bs) # words_of n (drop 8 bs)"

text \<open>
  The move constructor: \<open>memcpy(static_child_idx_, other.static_child_idx_, N)\<close> copies \<open>N\<close>
  bytes, not \<open>N\<close> places, over the zeros of the initialiser \<open>static_child_idx_[N]{}\<close>.
\<close>

definition cv_move :: "child_idx_vector \<Rightarrow> child_idx_vector" where
  "cv_move other =
     \<lparr>cv_static = words_of inline_places
        (take inline_places (memory_of (cv_static other)) @ replicate (8 * inline_places - inline_places) 0),
      cv_heap = cv_heap other, cv_size = cv_size other, cv_cap = cv_cap other\<rparr>"

text \<open>
  \<open>erase(it)\<close> on the elements, at position \<open>p\<close>: \<open>memmove(it - 1, it, end() - it)\<close> moves as many
  \<^emph>\<open>bytes\<close> as there are elements from \<open>it\<close> on, to the place before \<open>it\<close>, and drops the last
  element.  Before the first element there is no place: undefined behaviour.
\<close>

definition cv_erase :: "nat \<Rightarrow> nat list \<Rightarrow> nat list res" where
  "cv_erase p xs =
     (let n = length xs - p; mem = memory_of xs; d = 8 * (p - 1)
      in if xs = [] \<or> p = 0 \<and> 0 < n then Inl Undefined
         else Inr (butlast (words_of (length xs)
           (if n = 0 then mem
            else take d mem @ take n (drop (8 * p) mem) @ drop (d + n) mem))))"

text \<open>\<open>std::remove\<close> keeps the other elements in front and the rest of the array as it was.\<close>

definition cv_remove :: "nat \<Rightarrow> nat list \<Rightarrow> nat \<times> nat list" where
  "cv_remove x xs = (let keep = filter (\<lambda>y. y \<noteq> x) xs in (length keep, keep @ drop (length keep) xs))"

definition cv_erase_value :: "nat \<Rightarrow> nat list \<Rightarrow> nat list res" where
  "cv_erase_value x xs = (case cv_remove x xs of (p, ys) \<Rightarrow> cv_erase p ys)"

section \<open>Growing\<close>

text \<open>The state of a vector that was made by the constructor and \<open>push_back\<close> alone.\<close>

definition cv_ok :: "child_idx_vector \<Rightarrow> bool" where
  "cv_ok v \<longleftrightarrow>
     length (cv_static v) = inline_places \<and> cv_size v \<le> length (cv_array v) \<and>
     (case cv_heap v of None \<Rightarrow> True | Some a \<Rightarrow> length a = cv_cap v \<and> 0 < cv_cap v)"

lemma cv_ok_empty: "cv_ok child_idx_vector_empty" and elements_empty: "elements child_idx_vector_empty = []"
  by (simp_all add: cv_ok_def child_idx_vector_empty_def cv_array_def elements_def)

lemma cv_ok_grow:
  assumes "cv_ok v" and "cv_size v \<le> length junk" and "inline_places \<le> length junk"
  shows "cv_ok (cv_grow junk v) \<and> cv_size (cv_grow junk v) = cv_size v \<and>
    cv_size v < length (cv_array (cv_grow junk v)) \<and> elements (cv_grow junk v) = elements v"
  using assms
  by (auto simp: cv_ok_def cv_grow_def cv_array_def elements_def split: option.splits)

text \<open>
  \<open>push_back\<close> appends: through every growth of the vector its elements are the values
  pushed so far, in order.
\<close>

theorem push_back_appends:
  assumes "\<And>x. length (junk x) = 10 + 2 * length xs"
  shows "elements (fold (\<lambda>x. push_back (junk x) x) xs child_idx_vector_empty) = xs"
proof -
  have "cv_ok (fold (\<lambda>x. push_back (junk x) x) ys v) \<and>
      elements (fold (\<lambda>x. push_back (junk x) x) ys v) = elements v @ ys"
    if "cv_ok v" "length (elements v @ ys) \<le> length xs" for v ys
    using that
  proof (induction ys arbitrary: v)
    case (Cons y ys)
    have size: "cv_size v = length (elements v)"
      using Cons.prems(1) by (simp add: elements_def cv_ok_def)
    let ?w = "cv_grow (junk y) v"
    have w: "cv_ok ?w" "cv_size ?w = cv_size v" "cv_size v < length (cv_array ?w)" "elements ?w = elements v"
      using cv_ok_grow [OF Cons.prems(1), of "junk y"] size Cons.prems(2) assms [of y]
      by (auto simp: inline_places_def)
    have ok: "cv_ok (push_back (junk y) y v)"
      using w by (auto simp: push_back_def Let_def cv_ok_def cv_array_def split: option.splits)
    have "elements (push_back (junk y) y v) = elements ?w @ [y]"
      using w(1,2,3)
      by (auto simp: push_back_def Let_def elements_def cv_array_def take_Suc_conv_app_nth split: option.splits)
    with w(4) ok Cons.IH [of "push_back (junk y) y v"] Cons.prems(2) show ?case by simp
  qed simp
  from this [OF cv_ok_empty, of xs] show ?thesis by (simp add: elements_empty)
qed

theorem push_back_appends_witness:
  "elements (fold (\<lambda>x. push_back (replicate 24 0) x) [1, 2, 3, 4, 5, 6, 7] child_idx_vector_empty) =
    [1, 2, 3, 4, 5, 6, 7]"
  using push_back_appends [of "\<lambda>x. replicate 24 0" "[1, 2, 3, 4, 5, 6, 7]"] by simp

section \<open>Moving\<close>

lemma le_bytes_list:
  "le_bytes n = [n mod 256, n div 256 mod 256, n div 256 ^ 2 mod 256, n div 256 ^ 3 mod 256,
     n div 256 ^ 4 mod 256, n div 256 ^ 5 mod 256, n div 256 ^ 6 mod 256, n div 256 ^ 7 mod 256]"
  by (simp add: le_bytes_def upt_rec [of _ 8])

lemma div_256_pow: "n div 256 ^ Suc k = n div 256 ^ k div 256" for n :: nat
  by (simp only: power_Suc2 div_mult2_eq)

lemma le_bytes_word:
  assumes "n < 2 ^ 40"
  shows "le_word (take 5 (le_bytes n) @ [0, 0, 0]) = n"
proof -
  define q :: "nat \<Rightarrow> nat" where "q k = n div 256 ^ k" for k
  have q: "q 0 = n" "q 5 = 0" using assms by (simp_all add: q_def)
  have step: "q k mod 256 + 256 * q j = q k" if "j = Suc k" for k j
    unfolding that q_def div_256_pow by (rule mod_mult_div_eq)
  have steps: "q 0 mod 256 + 256 * q 1 = q 0" "q 1 mod 256 + 256 * q 2 = q 1" "q 2 mod 256 + 256 * q 3 = q 2"
    "q 3 mod 256 + 256 * q 4 = q 3" "q 4 mod 256 + 256 * q 5 = q 4"
    by (rule step; simp)+
  have "le_bytes n = [q 0 mod 256, q 1 mod 256, q 2 mod 256, q 3 mod 256, q 4 mod 256, q 5 mod 256,
      q 6 mod 256, q 7 mod 256]"
    by (simp add: le_bytes_list q_def)
  then have "le_word (take 5 (le_bytes n) @ [0, 0, 0]) =
      q 0 mod 256 + 256 * (q 1 mod 256 + 256 * (q 2 mod 256 + 256 * (q 3 mod 256 + 256 * (q 4 mod 256))))"
    by simp
  also have "\<dots> = n"
    using steps q by (metis add.right_neutral mult_0_right)
  finally show ?thesis .
qed

lemma le_word_zeros: "le_word (replicate n 0) = 0"
  by (induction n) auto

lemma words_of_zeros: "words_of n (replicate (8 * n) 0) = replicate n 0"
  by (induction n) (simp_all add: le_word_zeros drop_replicate)

lemma words_of_moved:
  assumes "length bs = 5"
  shows "words_of 5 (bs @ replicate 35 0) = le_word (bs @ [0, 0, 0]) # replicate 4 0"
proof -
  have "replicate 35 (0 :: nat) = [0, 0, 0] @ replicate (8 * 4) 0"
    using replicate_add [of 3 32 "0 :: nat"] by (simp add: numeral_3_eq_3)
  then have "bs @ replicate 35 0 = (bs @ [0, 0, 0]) @ replicate (8 * 4) 0" by simp
  moreover have "words_of 5 ys = le_word (take 8 ys) # words_of 4 (drop 8 ys)" for ys
    using words_of.simps(2) [of 4 ys] by simp
  ultimately show ?thesis using assms words_of_zeros [of 4] by simp
qed

text \<open>
  A moved vector with inline elements keeps its size and its first element (an index
  below \<open>2\<^sup>4\<^sup>0\<close>), and all the other elements become 0.
\<close>

theorem moved_vector_loses_elements:
  assumes "cv_ok v" and "cv_heap v = None" and "elements v = x # xs" and "x < 2 ^ 40"
  shows "elements (cv_move v) = x # replicate (length xs) 0"
proof -
  from assms(1,2) obtain a b c d e where st: "cv_static v = [a, b, c, d, e]"
    by (auto simp: cv_ok_def inline_places_def numeral_eq_Suc length_Suc_conv)
  with assms(1-3) have size: "cv_size v = Suc (length xs)" "length xs \<le> 4" and a: "a = x"
    by (auto simp: elements_def cv_array_def cv_ok_def take_Cons' split: if_splits)
  have "take 5 (memory_of (cv_static v)) = take 5 (le_bytes x)"
    using st a by (simp add: memory_of_def le_bytes_list)
  moreover have "length (take 5 (le_bytes x)) = 5" by (simp add: le_bytes_list)
  ultimately have "cv_static (cv_move v) = x # replicate 4 0"
    using words_of_moved [of "take 5 (le_bytes x)"] le_bytes_word [OF assms(4)]
    by (simp add: cv_move_def inline_places_def)
  then have "elements (cv_move v) = take (Suc (length xs)) (x # replicate 4 0)"
    using size(1) assms(2) by (simp add: elements_def cv_array_def cv_move_def)
  then show ?thesis using size(2) by (simp add: min_def)
qed

theorem moved_vector_loses_elements_witness:
  "elements (cv_move (push_back (replicate 24 0) 2 (push_back (replicate 24 0) 1 child_idx_vector_empty))) =
    [1, 0]"
proof -
  let ?v = "push_back (replicate 24 0) 2 (push_back (replicate 24 0) 1 child_idx_vector_empty)"
  have v: "?v = \<lparr>cv_static = [1, 2, 0, 0, 0], cv_heap = None, cv_size = 2, cv_cap = 0\<rparr>"
    by (simp add: push_back_def cv_grow_def child_idx_vector_empty_def inline_places_def eval_nat_numeral)
  have "elements (cv_move ?v) = 1 # replicate (length [2 :: nat]) 0"
    by (rule moved_vector_loses_elements)
      (simp_all only: v, simp_all add: cv_ok_def cv_array_def elements_def inline_places_def)
  then show ?thesis by simp
qed

end
