(* ===== verification/Url_Router.thy ===== *)
theory Url_Router
  imports Third_Party Child_Vector Containers
begin

text \<open>
  The URL router of \<open>engine/third_party/router\<close>: path templates, the pool of nodes they are
  inserted into, and the search that matches a request path.  The grammar combinators,
  \<open>segment_rule\<close>, \<open>arg_id_rule\<close>, percent decoding and \<open>parse_path\<close> belong to Boost.URL.  A
  node is named by its index in the pool; reading the pool out of range, a match buffer
  that is too small and a view with a dangling end are \<open>Undefined\<close>.  Assertions are those
  of a release build: off.
\<close>

section \<open>Runs\<close>

text \<open>A run with fuel: \<open>None\<close> has not ended within it.\<close>

type_synonym 'a run = "'a res option"

definition run_bind :: "'a run \<Rightarrow> ('a \<Rightarrow> 'b run) \<Rightarrow> 'b run" where
  "run_bind m f = (case m of None \<Rightarrow> None | Some (Inl e) \<Rightarrow> Some (Inl e) | Some (Inr x) \<Rightarrow> f x)"

definition ret :: "'a \<Rightarrow> 'a run" where
  "ret x = Some (Inr x)"

lemma run_bind_simps [simp]:
  "run_bind None f = None" "run_bind (Some (Inl e)) f = Some (Inl e)" "run_bind (Some (Inr x)) f = f x"
  "run_bind (ret x) f = f x"
  by (simp_all add: run_bind_def ret_def)

lemma run_bind_returns:
  "m \<noteq> None \<Longrightarrow> (\<And>x. m = Some (Inr x) \<Longrightarrow> f x \<noteq> None) \<Longrightarrow> run_bind m f \<noteq> None"
  by (auto simp: run_bind_def split: option.split sum.split)

section \<open>Segment templates\<close>

text \<open>The enumerators in the order of the code: \<open>star\<close> comes before \<open>plus\<close>.\<close>

datatype modifier = mod_none | mod_optional | mod_star | mod_plus

fun modifier_value :: "modifier \<Rightarrow> nat" where
  "modifier_value mod_none = 0"
| "modifier_value mod_optional = 1"
| "modifier_value mod_star = 2"
| "modifier_value mod_plus = 3"

lemma modifier_value_inj: "modifier_value a = modifier_value b \<Longrightarrow> a = b"
  by (cases a; cases b) auto

instantiation modifier :: linorder
begin

definition less_eq_modifier :: "modifier \<Rightarrow> modifier \<Rightarrow> bool" where
  "less_eq_modifier a b = (modifier_value a \<le> modifier_value b)"

definition less_modifier :: "modifier \<Rightarrow> modifier \<Rightarrow> bool" where
  "less_modifier a b = (modifier_value a < modifier_value b)"

instance
  by standard (auto simp: less_eq_modifier_def less_modifier_def intro: modifier_value_inj)

end

record segment_template =
  st_str :: string
  st_is_literal :: bool
  st_modifier :: modifier

definition literal :: "string \<Rightarrow> segment_template" where
  "literal s = \<lparr>st_str = s, st_is_literal = True, st_modifier = mod_none\<rparr>"

definition seg_match :: "'d lib \<Rightarrow> segment_template \<Rightarrow> string \<Rightarrow> bool" where
  "seg_match L t seg = (if st_is_literal t then lib_pct_decode L seg = st_str t else True)"

definition ends_with :: "string \<Rightarrow> char \<Rightarrow> bool" where
  "ends_with s c = (s \<noteq> [] \<and> last s = c)"

definition seg_id :: "segment_template \<Rightarrow> string" where
  "seg_id t =
     (let r = butlast (tl (st_str t))
      in if ends_with r CHR ''?'' \<or> ends_with r CHR ''+'' \<or> ends_with r CHR ''*'' then butlast r else r)"

definition has_modifier :: "segment_template \<Rightarrow> bool" where
  "has_modifier t = (\<not> st_is_literal t \<and> st_modifier t \<noteq> mod_none)"

definition is_optional :: "segment_template \<Rightarrow> bool" where
  "is_optional t = (st_modifier t = mod_optional)"

definition is_star :: "segment_template \<Rightarrow> bool" where
  "is_star t = (st_modifier t = mod_star)"

definition is_plus :: "segment_template \<Rightarrow> bool" where
  "is_plus t = (st_modifier t = mod_plus)"

definition seg_eq :: "segment_template \<Rightarrow> segment_template \<Rightarrow> bool" where
  "seg_eq a b =
     (if st_is_literal a \<noteq> st_is_literal b then False
      else if st_is_literal a then st_str a = st_str b
      else st_modifier a = st_modifier b)"

definition seg_less :: "segment_template \<Rightarrow> segment_template \<Rightarrow> bool" where
  "seg_less a b =
     (if st_is_literal b then False
      else if st_is_literal a then \<not> st_is_literal b
      else st_modifier a < st_modifier b)"

section \<open>Parsing a template\<close>

text \<open>\<open>id_rule\<close> on the whole text between the braces: an optional id, an optional modifier.\<close>

definition id_rule_accepts :: "'d lib \<Rightarrow> string \<Rightarrow> bool" where
  "id_rule_accepts L s =
     (let r = (case lib_arg_id L s of Some rest \<Rightarrow> rest | None \<Rightarrow> s)
      in (case r of [] \<Rightarrow> True | c # cs \<Rightarrow> cs = [] \<and> c \<in> set ''?*+''))"

definition field_template :: "string \<Rightarrow> segment_template" where
  "field_template s =
     \<lparr>st_str = ''{'' @ s @ ''}'', st_is_literal = False,
      st_modifier = (if ends_with s CHR ''?'' then mod_optional
                     else if ends_with s CHR ''*'' then mod_star
                     else if ends_with s CHR ''+'' then mod_plus else mod_none)\<rparr>"

text \<open>The text consumed by \<open>segment_rule\<close> is a prefix of the input; the rest follows it.\<close>

definition parse_literal :: "'d lib \<Rightarrow> string \<Rightarrow> segment_template \<times> string" where
  "parse_literal L s =
     (let seg = fst (lib_segment L s)
      in (literal (lib_pct_decode L seg), drop (length seg) s))"

definition segment_template_rule :: "'d lib \<Rightarrow> string \<Rightarrow> segment_template \<times> string" where
  "segment_template_rule L s =
     (case s of
        [] \<Rightarrow> parse_literal L s
      | c # cs \<Rightarrow>
          if c = CHR ''{'' then
            (let fld = takeWhile (\<lambda>x. x \<noteq> CHR ''}'') cs; send = dropWhile (\<lambda>x. x \<noteq> CHR ''}'') cs
             in if send \<noteq> [] \<and> (fld = [] \<or> id_rule_accepts L fld) then (field_template fld, tl send)
                else parse_literal L s)
          else parse_literal L s)"

lemma segment_template_rule_shrinks: "length (snd (segment_template_rule L s)) \<le> length s"
  using length_dropWhile_le [of "\<lambda>x. x \<noteq> CHR ''}''" "tl s"]
  by (auto simp: segment_template_rule_def parse_literal_def Let_def split: list.split)

lemma segment_template_rule_rest: "(t, c # cs) = segment_template_rule L s \<Longrightarrow> length cs < length s"
  using segment_template_rule_shrinks [of L s] by (metis Suc_le_lessD length_Cons snd_conv)

text \<open>
  \<open>path_template_rule\<close>: an optional slash, then segments separated by slashes; parsing a
  path fails if anything is left over.
\<close>

function segment_range :: "'d lib \<Rightarrow> string \<Rightarrow> segment_template list \<times> string" where
  "segment_range L s =
     (case segment_template_rule L s of
        (t, rest) \<Rightarrow>
          (case rest of
             c # cs \<Rightarrow>
               if c = CHR ''/'' then (case segment_range L cs of (ts, r) \<Rightarrow> (t # ts, r)) else ([t], rest)
           | [] \<Rightarrow> ([t], [])))"
  by pat_completeness auto

termination
  by (relation "measure (\<lambda>(L, s). length s)") (auto dest: segment_template_rule_rest)

declare segment_range.simps [simp del]

definition remove_slash :: "string \<Rightarrow> string" where
  "remove_slash s = (case s of c # cs \<Rightarrow> if c = CHR ''/'' then cs else s | [] \<Rightarrow> [])"

definition path_template_rule :: "'d lib \<Rightarrow> string \<Rightarrow> segment_template list option" where
  "path_template_rule L path =
     (case segment_range L (remove_slash path) of (ts, rest) \<Rightarrow> if rest = [] then Some ts else None)"

section \<open>The pool of nodes\<close>

record 'r node =
  nd_seg :: segment_template
  nd_resource :: "'r option"
  nd_path_template :: string
  nd_parent_idx :: "nat option"
  nd_child_idx :: "nat list"

type_synonym 'r pool = "'r node list"

definition node_empty :: "'r node" where
  "node_empty = \<lparr>nd_seg = literal [], nd_resource = None, nd_path_template = [], nd_parent_idx = None,
     nd_child_idx = []\<rparr>"

definition router_empty :: "'r pool" where
  "router_empty = [node_empty]"

definition node_at :: "'r pool \<Rightarrow> nat \<Rightarrow> 'r node res" where
  "node_at ns i = (if i < length ns then Inr (ns ! i) else Inl Undefined)"

definition parent_of :: "'r node \<Rightarrow> nat res" where
  "parent_of c = (case nd_parent_idx c of Some p \<Rightarrow> Inr p | None \<Rightarrow> Inl Undefined)"

section \<open>Inserting\<close>

fun find_child :: "'r pool \<Rightarrow> segment_template \<Rightarrow> nat list \<Rightarrow> nat option res" where
  "find_child ns t [] = Inr None"
| "find_child ns t (i # is) =
     res_bind (node_at ns i) (\<lambda>c. if seg_eq (nd_seg c) t then Inr (Some i) else find_child ns t is)"

text \<open>The new child at position \<open>n\<close> moves forward while it is less than the one before it.\<close>

fun sink_child :: "'r pool \<Rightarrow> nat \<Rightarrow> nat list \<Rightarrow> nat list res" where
  "sink_child ns 0 cs = Inr cs"
| "sink_child ns (Suc n) cs =
     res_bind (node_at ns (cs ! Suc n)) (\<lambda>a. res_bind (node_at ns (cs ! n)) (\<lambda>b.
       if seg_less (nd_seg a) (nd_seg b) then sink_child ns n (cs[Suc n := cs ! n, n := cs ! Suc n])
       else Inr cs))"

definition create_child :: "segment_template \<Rightarrow> nat \<Rightarrow> 'r pool \<Rightarrow> 'r pool res" where
  "create_child t cur_id ns =
     (let child = node_empty\<lparr>nd_seg := t, nd_parent_idx := Some cur_id\<rparr>;
          ns' = ns @ [child];
          cs = nd_child_idx (ns ! cur_id) @ [length ns]
      in res_bind (if 1 < length cs then sink_child ns' (length cs - 1) cs else Inr cs)
           (\<lambda>cs'. Inr (ns'[cur_id := (ns' ! cur_id)\<lparr>nd_child_idx := cs'\<rparr>])))"

text \<open>\<open>..\<close> below the root: to the parent, deleting the current node if it was made last and is bare.\<close>

definition insert_dotdot :: "nat \<Rightarrow> 'r pool \<Rightarrow> ('r pool \<times> nat) res" where
  "insert_dotdot cur ns =
     res_bind (node_at ns cur) (\<lambda>c. res_bind (parent_of c) (\<lambda>p.
       if Suc cur = length ns \<and> nd_resource c = None \<and> nd_child_idx c = [] then
         res_bind (node_at ns p) (\<lambda>pn. res_bind (cv_erase_value cur (nd_child_idx pn)) (\<lambda>cs.
           Inr (butlast (ns[p := pn\<lparr>nd_child_idx := cs\<rparr>]), p)))
       else Inr (ns, p)))"

fun insert_segments :: "segment_template list \<Rightarrow> 'r pool \<Rightarrow> nat \<Rightarrow> int \<Rightarrow> ('r pool \<times> nat \<times> int) res" where
  "insert_segments [] ns cur level = Inr (ns, cur, level)"
| "insert_segments (t # ts) ns cur level =
     (if st_str t = ''.'' then insert_segments ts ns cur level
      else if st_str t = ''..'' then
        (if cur = 0 then insert_segments ts ns cur (level - 1)
         else res_bind (insert_dotdot cur ns) (\<lambda>(ns', cur'). insert_segments ts ns' cur' level))
      else if level < 0 then insert_segments ts ns cur (level + 1)
      else res_bind (node_at ns cur) (\<lambda>c. res_bind (find_child ns t (nd_child_idx c)) (\<lambda>cit.
        case cit of
          Some i \<Rightarrow> insert_segments ts ns i level
        | None \<Rightarrow> res_bind (create_child t cur ns) (\<lambda>ns'. insert_segments ts ns' (length ns' - 1) level))))"

definition insert_impl :: "'d lib \<Rightarrow> string \<Rightarrow> 'r \<Rightarrow> 'r pool \<Rightarrow> 'r pool res" where
  "insert_impl L path0 v ns =
     (let path = remove_slash path0
      in case path_template_rule L path of
           None \<Rightarrow> throw_exn (StdException ''system_error'')
         | Some segs \<Rightarrow>
             res_bind (insert_segments segs ns 0 0) (\<lambda>(ns', cur, level).
               if level \<noteq> 0 then throw_exn (StdException ''invalid_argument'')
               else res_bind (node_at ns' cur) (\<lambda>c.
                 Inr (ns'[cur := c\<lparr>nd_resource := Some v, nd_path_template := path\<rparr>]))))"

section \<open>The match buffer\<close>

text \<open>
  A view into the path: nothing, or the segments from one index up to another.  The two
  buffers of \<open>matches_storage\<close> have \<open>match_places\<close> places and are written in step.
\<close>

datatype view = NoView | Segments nat nat

definition match_places :: nat where
  "match_places = 20"

record match_buffer =
  mb_matches :: "view list"
  mb_ids :: "string list"
  mb_pos :: nat

definition matches_storage :: match_buffer where
  "matches_storage = \<lparr>mb_matches = replicate match_places NoView, mb_ids = replicate match_places [], mb_pos = 0\<rparr>"

definition push_match :: "view \<Rightarrow> string \<Rightarrow> match_buffer \<Rightarrow> match_buffer res" where
  "push_match v i m =
     (if mb_pos m < match_places
      then Inr \<lparr>mb_matches = (mb_matches m)[mb_pos m := v], mb_ids = (mb_ids m)[mb_pos m := i],
                mb_pos = Suc (mb_pos m)\<rparr>
      else Inl Undefined)"

definition pop_match :: "match_buffer \<Rightarrow> match_buffer res" where
  "pop_match m = (if mb_pos m = 0 then Inl Undefined else Inr (m\<lparr>mb_pos := mb_pos m - 1\<rparr>))"

definition rewind :: "match_buffer \<Rightarrow> match_buffer \<Rightarrow> match_buffer" where
  "rewind m0 m = m\<lparr>mb_pos := mb_pos m0\<rparr>"

text \<open>\<open>*matches0 = {matches0->data(), prev.data() + prev.size()}\<close>.\<close>

definition extend_match :: "nat \<Rightarrow> nat \<Rightarrow> match_buffer \<Rightarrow> match_buffer res" where
  "extend_match p last_idx m =
     (case mb_matches m ! p of
        Segments i k \<Rightarrow>
          if i < last_idx then Inr (m\<lparr>mb_matches := (mb_matches m)[p := Segments i last_idx]\<rparr>)
          else Inl Undefined
      | NoView \<Rightarrow> Inl Undefined)"

section \<open>Searching\<close>

type_synonym search = "string list \<Rightarrow> nat \<Rightarrow> int \<Rightarrow> match_buffer \<Rightarrow> (nat option \<times> match_buffer) run"

fun optional_children ::
  "(nat \<Rightarrow> match_buffer \<Rightarrow> (nat option \<times> match_buffer) run) \<Rightarrow> 'r pool \<Rightarrow> nat list \<Rightarrow> match_buffer
     \<Rightarrow> (nat option \<times> match_buffer) run" where
  "optional_children rec ns [] m = ret (None, m)"
| "optional_children rec ns (i # is) m =
     run_bind (Some (node_at ns i)) (\<lambda>c.
       if \<not> is_optional (nd_seg c) \<and> \<not> is_star (nd_seg c) then optional_children rec ns is m
       else run_bind (Some (push_match NoView (seg_id (nd_seg c)) m)) (\<lambda>m1.
         run_bind (rec i m1) (\<lambda>(r, m2).
           case r of Some n \<Rightarrow> ret (Some n, m2) | None \<Rightarrow> optional_children rec ns is (rewind m m2))))"

fun find_optional_resource ::
  "'r pool \<Rightarrow> nat \<Rightarrow> nat \<Rightarrow> match_buffer \<Rightarrow> (nat option \<times> match_buffer) run" where
  "find_optional_resource ns 0 root m = None"
| "find_optional_resource ns (Suc n) root m =
     run_bind (Some (node_at ns root)) (\<lambda>r.
       if nd_resource r \<noteq> None then ret (Some root, m)
       else optional_children (find_optional_resource ns n) ns (nd_child_idx r) m)"

fun two_branches :: "'d lib \<Rightarrow> 'r pool \<Rightarrow> string \<Rightarrow> nat list \<Rightarrow> nat \<Rightarrow> bool res" where
  "two_branches L ns s [] lb = Inr False"
| "two_branches L ns s (i # is) lb =
     res_bind (node_at ns i) (\<lambda>c.
       let lb' = (if st_is_literal (nd_seg c) \<or> \<not> has_modifier (nd_seg c)
                  then lb + (if seg_match L (nd_seg c) s then 1 else 0) else 2)
       in if 1 < lb' then Inr True else two_branches L ns s is lb')"

definition needs_branch :: "'d lib \<Rightarrow> 'r pool \<Rightarrow> string \<Rightarrow> nat list \<Rightarrow> bool res" where
  "needs_branch L ns s cs = (if 1 < length cs then two_branches L ns s cs 0 else Inr False)"

text \<open>The look-ahead for \<open>..\<close> compares the segments undecoded; \<open>True\<close>: it stops before the end.\<close>

fun leaves_subtree :: "bool \<Rightarrow> nat \<Rightarrow> nat \<Rightarrow> string list \<Rightarrow> bool" where
  "leaves_subtree star ndotdot nnondot [] = False"
| "leaves_subtree star ndotdot nnondot (x # xs) =
     (if x = ''..'' then
        (if nnondot + (if star then 1 else 0) \<le> Suc ndotdot then True
         else leaves_subtree star (Suc ndotdot) nnondot xs)
      else leaves_subtree star ndotdot (if x \<noteq> ''.'' then Suc nnondot else nnondot) xs)"

text \<open>What the loop over the children ends with: a terminal node, a child to go on from, or neither.\<close>

datatype child_outcome = Matched nat | Moved nat | NoChild

text \<open>
  The loop that lets a \<open>{id*}\<close> or \<open>{id+}\<close> child match many segments: \<open>js\<close> are the numbers of
  segments left to the continuation that are still to be tried, \<open>first\<close> is the last one, and \<open>one\<close> tells that \<open>first\<close> starts behind
  the one segment a \<open>{id+}\<close> needs.
\<close>

fun many_segments ::
  "search \<Rightarrow> string list \<Rightarrow> bool \<Rightarrow> nat \<Rightarrow> int \<Rightarrow> nat \<Rightarrow> string list \<Rightarrow> nat list \<Rightarrow> match_buffer
     \<Rightarrow> (nat option \<times> match_buffer) run" where
  "many_segments rec segs one i level p first [] m =
     run_bind (rec first i level (m\<lparr>mb_pos := Suc p\<rparr>)) (\<lambda>(r, m').
       case r of
         Some n \<Rightarrow> ret (Some n, if one then m' else m'\<lparr>mb_matches := (mb_matches m')[p := NoView]\<rparr>)
       | None \<Rightarrow> ret (None, m'))"
| "many_segments rec segs one i level p first (j # js) m =
     run_bind (rec (drop (length segs - j) segs) i level m) (\<lambda>(r, m').
       case r of
         Some n \<Rightarrow> run_bind (Some (extend_match p (length segs - j) m')) (\<lambda>m''. ret (Some n, m''))
       | None \<Rightarrow> many_segments rec segs one i level p first js (m'\<lparr>mb_pos := Suc p\<rparr>))"

fun try_children ::
  "'d lib \<Rightarrow> 'r pool \<Rightarrow> string list \<Rightarrow> search \<Rightarrow> bool \<Rightarrow> string \<Rightarrow> string list \<Rightarrow> int \<Rightarrow> nat list \<Rightarrow>
     match_buffer \<Rightarrow> (child_outcome \<times> match_buffer) run" where
  "try_children L ns segs rec branch s rest level [] m = ret (NoChild, m)"
| "try_children L ns segs rec branch s rest level (i # is) m =
     run_bind (Some (node_at ns i)) (\<lambda>c.
       let t = nd_seg c; k = length segs - Suc (length rest); this = Segments k (Suc k);
           next = try_children L ns segs rec branch s rest level is
       in if \<not> seg_match L t s then next m
          else if st_is_literal t then
            (if branch then
               run_bind (rec rest i level m) (\<lambda>(r, m1).
                 case r of Some n \<Rightarrow> ret (Matched n, m1) | None \<Rightarrow> next m1)
             else ret (Moved i, m))
          else if \<not> has_modifier t then
            run_bind (Some (push_match this (seg_id t) m)) (\<lambda>m1.
              if branch then
                run_bind (rec rest i level m1) (\<lambda>(r, m2).
                  case r of Some n \<Rightarrow> ret (Matched n, m2) | None \<Rightarrow> next (rewind m m2))
              else ret (Moved i, m1))
          else if is_optional t then
            run_bind (Some (push_match this (seg_id t) m)) (\<lambda>m1.
            run_bind (rec rest i level m1) (\<lambda>(r, m2).
              case r of
                Some n \<Rightarrow> ret (Matched n, m2)
              | None \<Rightarrow>
                  run_bind (Some (push_match NoView (seg_id t) (rewind m m2))) (\<lambda>m3.
                  run_bind (rec (s # rest) i level m3) (\<lambda>(r, m4).
                    case r of Some n \<Rightarrow> ret (Matched n, m4) | None \<Rightarrow> next (rewind m m4)))))
          else if leaves_subtree (is_star t) 0 0 (s # rest) then ret (NoChild, m)
          else
            (let first = (if is_plus t then rest else s # rest)
             in run_bind (Some (push_match this (seg_id t) m)) (\<lambda>m1.
                run_bind (many_segments rec segs (is_plus t) i level (mb_pos m) first [0..<length first] m1)
                  (\<lambda>(r, m2). case r of Some n \<Rightarrow> ret (Matched n, m2) | None \<Rightarrow> next m2))))"

text \<open>The loop over the segments of \<open>try_match\<close>; \<open>rec\<close> is the recursive call.\<close>

fun walk ::
  "'d lib \<Rightarrow> 'r pool \<Rightarrow> string list \<Rightarrow> search \<Rightarrow> string list \<Rightarrow> nat \<Rightarrow> int \<Rightarrow> match_buffer
     \<Rightarrow> (nat option \<times> match_buffer) run" where
  "walk L ns segs rec [] cur level m =
     (if level \<noteq> 0 then ret (None, m)
      else run_bind (Some (node_at ns cur)) (\<lambda>c.
        if nd_resource c = None then find_optional_resource ns (Suc (length ns)) cur m else ret (Some cur, m)))"
| "walk L ns segs rec (s # rest) cur level m =
     (let d = lib_pct_decode L s
      in if d = ''.'' then walk L ns segs rec rest cur level m
         else if d = ''..'' then
           (if level \<le> 0 \<and> cur \<noteq> 0 then
              run_bind (Some (node_at ns cur)) (\<lambda>c.
              run_bind (Some (if st_is_literal (nd_seg c) then Inr m else pop_match m)) (\<lambda>m'.
              run_bind (Some (parent_of c)) (\<lambda>p. walk L ns segs rec rest p level m')))
            else walk L ns segs rec rest cur (level - 1) m)
         else if level < 0 then walk L ns segs rec rest cur (level + 1) m
         else
           run_bind (Some (node_at ns cur)) (\<lambda>c.
           run_bind (Some (needs_branch L ns s (nd_child_idx c))) (\<lambda>branch.
           run_bind (try_children L ns segs rec branch s rest level (nd_child_idx c) m) (\<lambda>(out, m').
             case out of
               Matched n \<Rightarrow> ret (Some n, m')
             | Moved i \<Rightarrow> walk L ns segs rec rest i level m'
             | NoChild \<Rightarrow> walk L ns segs rec rest cur (level + 1) m'))))"

primrec try_match :: "'d lib \<Rightarrow> 'r pool \<Rightarrow> string list \<Rightarrow> nat \<Rightarrow> search" where
  "try_match L ns segs 0 = (\<lambda>rest cur level m. None)"
| "try_match L ns segs (Suc n) = (\<lambda>rest cur level m. walk L ns segs (try_match L ns segs n) rest cur level m)"

text \<open>Fuel for a path: every recursive call is on a shorter rest of it or on a later node.\<close>

definition match_fuel :: "'r pool \<Rightarrow> string list \<Rightarrow> nat" where
  "match_fuel ns segs = Suc (length segs) * Suc (length ns)"

text \<open>An empty path is replaced by \<open>"./"\<close>.\<close>

definition find_impl :: "'d lib \<Rightarrow> 'r pool \<Rightarrow> string list \<Rightarrow> match_buffer \<Rightarrow> (nat option \<times> match_buffer) run" where
  "find_impl L ns path m =
     (case (if path = [] then lib_parse_path L ''./'' else Some path) of
        None \<Rightarrow> Some (throw_exn (StdException ''system_error''))
      | Some segs \<Rightarrow> try_match L ns segs (match_fuel ns segs) segs 0 0 m)"

text \<open>What a view shows of the encoded path.\<close>

fun join_slash :: "string list \<Rightarrow> string" where
  "join_slash [] = []"
| "join_slash [s] = s"
| "join_slash (s # t # ss) = s @ ''/'' @ join_slash (t # ss)"

fun view_text :: "string list \<Rightarrow> view \<Rightarrow> string" where
  "view_text segs NoView = []"
| "view_text segs (Segments i k) = join_slash (take (k - i) (drop i segs))"

text \<open>\<open>router::find\<close>: the resource and the pairs of ids and matches; on failure no match is left.\<close>

definition router_find :: "'d lib \<Rightarrow> 'r pool \<Rightarrow> string list \<Rightarrow> ('r option \<times> (string \<times> string) list) run" where
  "router_find L ns path =
     run_bind (find_impl L ns path matches_storage) (\<lambda>(p, m).
       case p of
         Some n \<Rightarrow>
           run_bind (Some (node_at ns n)) (\<lambda>c.
             let segs = (if path = [] then the (lib_parse_path L ''./'') else path)
             in ret (nd_resource c, zip (take (mb_pos m) (mb_ids m)) (map (view_text segs) (take (mb_pos m) (mb_matches m)))))
       | None \<Rightarrow> ret (None, []))"

definition router_insert :: "'d lib \<Rightarrow> string \<Rightarrow> 'r \<Rightarrow> 'r pool \<Rightarrow> 'r pool res" where
  "router_insert L pattern v ns = insert_impl L pattern v ns"

end
