(* ===== verification/Router_Pool.thy ===== *)
theory Router_Pool
  imports Url_Router
begin

text \<open>
  The pool of the URL router as a map: templates without dot segments are keys up to
  \<open>seg_eq\<close>, inserting one changes the entry of that key and no other.
\<close>

section \<open>Equality of templates\<close>

lemma seg_eq_refl [simp]: "seg_eq a a"
  by (simp add: seg_eq_def)

lemma seg_eq_sym: "seg_eq a b \<Longrightarrow> seg_eq b a"
  by (auto simp: seg_eq_def split: if_splits)

lemma seg_eq_trans: "seg_eq a b \<Longrightarrow> seg_eq b c \<Longrightarrow> seg_eq a c"
  by (auto simp: seg_eq_def split: if_splits)

definition same_template :: "segment_template list \<Rightarrow> segment_template list \<Rightarrow> bool" where
  "same_template ts us = list_all2 seg_eq ts us"

interpretation template_key: key_equality same_template
proof
  show "same_template ts ts" for ts by (simp add: same_template_def list_all2_refl)
  show "same_template ts us \<Longrightarrow> same_template us ts" for ts us
    unfolding same_template_def by (rule list_all2_conv_all_nth [THEN iffD2])
      (auto simp: list_all2_conv_all_nth seg_eq_sym)
  show "same_template ts us \<Longrightarrow> same_template us vs \<Longrightarrow> same_template ts vs" for ts us vs
    unfolding same_template_def by (rule list_all2_trans [OF seg_eq_trans])
qed

section \<open>Well-formed pools\<close>

text \<open>
  Children come later in the pool than their parent, point back to it, and are pairwise
  different templates.
\<close>

definition pool_ok :: "'r pool \<Rightarrow> bool" where
  "pool_ok ns \<longleftrightarrow> ns \<noteq> [] \<and>
     (\<forall>i < length ns. distinct (nd_child_idx (ns ! i)) \<and>
       (\<forall>c \<in> set (nd_child_idx (ns ! i)). i < c \<and> c < length ns \<and> nd_parent_idx (ns ! c) = Some i \<and>
         (\<forall>d \<in> set (nd_child_idx (ns ! i)). seg_eq (nd_seg (ns ! c)) (nd_seg (ns ! d)) \<longrightarrow> c = d)))"

lemma pool_ok_empty: "pool_ok router_empty"
  by (simp add: pool_ok_def router_empty_def node_empty_def)

lemma pool_okD:
  assumes "pool_ok ns" and "i < length ns" and "c \<in> set (nd_child_idx (ns ! i))"
  shows "i < c" "c < length ns" "nd_parent_idx (ns ! c) = Some i"
    "d \<in> set (nd_child_idx (ns ! i)) \<Longrightarrow> seg_eq (nd_seg (ns ! c)) (nd_seg (ns ! d)) \<Longrightarrow> c = d"
  using assms unfolding pool_ok_def by blast+

lemma pool_ok_nonempty: "pool_ok ns \<Longrightarrow> 0 < length ns"
  unfolding pool_ok_def by blast

lemma pool_ok_distinct: "pool_ok ns \<Longrightarrow> i < length ns \<Longrightarrow> distinct (nd_child_idx (ns ! i))"
  unfolding pool_ok_def by blast

lemma node_at_ok [simp]: "i < length ns \<Longrightarrow> node_at ns i = Inr (ns ! i)"
  by (simp add: node_at_def)

section \<open>Following a template\<close>

text \<open>The child whose template equals \<open>t\<close>, and the node at the end of a list of templates.\<close>

definition child_for :: "'r pool \<Rightarrow> nat \<Rightarrow> segment_template \<Rightarrow> nat option" where
  "child_for ns cur t = find (\<lambda>i. seg_eq (nd_seg (ns ! i)) t) (nd_child_idx (ns ! cur))"

primrec descend :: "'r pool \<Rightarrow> nat \<Rightarrow> segment_template list \<Rightarrow> nat option" where
  "descend ns cur [] = Some cur"
| "descend ns cur (t # ts) = (case child_for ns cur t of None \<Rightarrow> None | Some i \<Rightarrow> descend ns i ts)"

lemma child_for_SomeD:
  "child_for ns cur t = Some i \<Longrightarrow> i \<in> set (nd_child_idx (ns ! cur)) \<and> seg_eq (nd_seg (ns ! i)) t"
  by (auto simp: child_for_def find_Some_iff)

lemma child_for_eqI:
  assumes "pool_ok ns" and "cur < length ns" and "i \<in> set (nd_child_idx (ns ! cur))"
    and "seg_eq (nd_seg (ns ! i)) t"
  shows "child_for ns cur t = Some i"
proof -
  from assms(3,4) have "child_for ns cur t \<noteq> None" by (auto simp: child_for_def find_None_iff)
  then obtain j where j: "child_for ns cur t = Some j" by blast
  from child_for_SomeD [OF this] assms(4) have "j \<in> set (nd_child_idx (ns ! cur))"
    "seg_eq (nd_seg (ns ! i)) (nd_seg (ns ! j))"
    by (auto intro: seg_eq_trans seg_eq_sym)
  with pool_okD(4) [OF assms(1-3)] j show ?thesis by blast
qed

lemma child_for_cong: "seg_eq t u \<Longrightarrow> child_for ns cur t = child_for ns cur u"
  unfolding child_for_def by (rule arg_cong2 [where f = find]) (auto intro: seg_eq_trans seg_eq_sym)

lemma descend_cong: "same_template ts us \<Longrightarrow> descend ns cur ts = descend ns cur us"
  unfolding same_template_def
  by (induction ts us arbitrary: cur rule: list_all2_induct) (auto simp: child_for_cong split: option.split)

lemma descend_append:
  "descend ns cur (ts @ us) = (case descend ns cur ts of None \<Rightarrow> None | Some i \<Rightarrow> descend ns i us)"
  by (induction ts arbitrary: cur) (auto split: option.split)

lemma descend_bounds:
  "pool_ok ns \<Longrightarrow> cur < length ns \<Longrightarrow> descend ns cur ts = Some i \<Longrightarrow> cur \<le> i \<and> i < length ns"
proof (induction ts arbitrary: cur)
  case (Cons t ts)
  then obtain j where j: "child_for ns cur t = Some j" "descend ns j ts = Some i"
    by (auto split: option.splits)
  from pool_okD [OF Cons.prems(1,2) child_for_SomeD [OF j(1), THEN conjunct1]] Cons.IH [OF Cons.prems(1) _ j(2)]
  show ?case by simp
qed simp

text \<open>A node is reached by one list of templates only.\<close>

lemma descend_inj:
  assumes "pool_ok ns"
  shows "descend ns 0 ts = Some i \<Longrightarrow> descend ns 0 us = Some i \<Longrightarrow> same_template ts us"
proof (induction ts arbitrary: us i rule: rev_induct)
  case Nil
  then have [simp]: "i = 0" by simp
  show ?case
  proof (cases us rule: rev_cases)
    case (snoc vs u)
    with Nil obtain j where j: "descend ns 0 vs = Some j" "child_for ns j u = Some 0"
      by (auto simp: descend_append split: option.splits)
    have "0 < length ns" using assms by (simp add: pool_ok_def)
    from descend_bounds [OF assms this j(1)] pool_okD(1) [OF assms _ child_for_SomeD [OF j(2), THEN conjunct1]]
    show ?thesis by simp
  qed (simp add: same_template_def)
next
  case (snoc t ts)
  have pos: "0 < length ns" using assms by (simp add: pool_ok_def)
  from snoc.prems(1) obtain j where j: "descend ns 0 ts = Some j" "child_for ns j t = Some i"
    by (auto simp: descend_append split: option.splits)
  note jl = descend_bounds [OF assms pos j(1)]
  note ic = pool_okD [OF assms conjunct2 [OF jl] child_for_SomeD [OF j(2), THEN conjunct1]]
  show ?case
  proof (cases us rule: rev_cases)
    case Nil
    with snoc.prems(2) ic(1) show ?thesis by simp
  next
    case us: (snoc vs u)
    with snoc.prems(2) obtain k where k: "descend ns 0 vs = Some k" "child_for ns k u = Some i"
      by (auto simp: descend_append split: option.splits)
    note kl = descend_bounds [OF assms pos k(1)]
    note kc = pool_okD [OF assms conjunct2 [OF kl] child_for_SomeD [OF k(2), THEN conjunct1]]
    from ic(3) kc(3) have "k = j" by simp
    with snoc.IH [OF j(1)] k(1) have "same_template ts vs" by simp
    moreover have "seg_eq t u"
      using child_for_SomeD [OF j(2)] child_for_SomeD [OF k(2)] by (blast intro: seg_eq_trans seg_eq_sym)
    ultimately show ?thesis using us by (simp add: same_template_def list_all2_appendI)
  qed
qed

text \<open>The pool as a map from templates to resources.\<close>

definition resource_of :: "'r pool \<Rightarrow> segment_template list \<Rightarrow> 'r option" where
  "resource_of ns ts = (case descend ns 0 ts of None \<Rightarrow> None | Some i \<Rightarrow> nd_resource (ns ! i))"

lemma resource_of_empty: "resource_of router_empty ts = None"
  by (cases ts) (simp_all add: resource_of_def router_empty_def node_empty_def child_for_def)

section \<open>Adding a child\<close>

text \<open>\<open>grown ns ns'\<close>: \<open>ns'\<close> keeps the nodes of \<open>ns\<close> and their children, and adds bare nodes.\<close>

definition grown :: "'r pool \<Rightarrow> 'r pool \<Rightarrow> bool" where
  "grown ns ns' \<longleftrightarrow> length ns \<le> length ns' \<and>
     (\<forall>i < length ns. nd_seg (ns' ! i) = nd_seg (ns ! i) \<and> nd_resource (ns' ! i) = nd_resource (ns ! i) \<and>
        nd_parent_idx (ns' ! i) = nd_parent_idx (ns ! i) \<and>
        {c \<in> set (nd_child_idx (ns' ! i)). c < length ns} = set (nd_child_idx (ns ! i))) \<and>
     (\<forall>i. length ns \<le> i \<longrightarrow> i < length ns' \<longrightarrow> nd_resource (ns' ! i) = None)"

lemma grown_refl: "pool_ok ns \<Longrightarrow> grown ns ns"
  unfolding grown_def using pool_okD(2) by fastforce

lemma grown_trans:
  assumes "grown ns ns'" and "grown ns' ns''"
  shows "grown ns ns''"
proof -
  have "{c \<in> set (nd_child_idx (ns'' ! i)). c < length ns} = set (nd_child_idx (ns ! i))" if "i < length ns" for i
  proof -
    from assms that have "{c \<in> set (nd_child_idx (ns'' ! i)). c < length ns'} = set (nd_child_idx (ns' ! i))"
      "{c \<in> set (nd_child_idx (ns' ! i)). c < length ns} = set (nd_child_idx (ns ! i))"
      "length ns \<le> length ns'" by (auto simp: grown_def)
    then show ?thesis by fastforce
  qed
  moreover have "nd_resource (ns'' ! i) = None" if "length ns \<le> i" "i < length ns''" for i
    using assms that by (cases "i < length ns'") (auto simp: grown_def)
  ultimately show ?thesis using assms by (simp add: grown_def)
qed

lemma grown_child_for:
  assumes "grown ns ns'" and "pool_ok ns" and "pool_ok ns'" and "i < length ns"
  shows "child_for ns i t = Some c \<Longrightarrow> child_for ns' i t = Some c"
    and "child_for ns' i t = Some c \<Longrightarrow> c < length ns \<Longrightarrow> child_for ns i t = Some c"
proof -
  note grow = assms(1) [unfolded grown_def]
  have ch: "{c \<in> set (nd_child_idx (ns' ! i)). c < length ns} = set (nd_child_idx (ns ! i))"
    and i': "i < length ns'" using grow assms(4) by auto
  {
    assume "child_for ns i t = Some c"
    note c = child_for_SomeD [OF this]
    with pool_okD(2) [OF assms(2,4)] have "c < length ns" by blast
    moreover from this c ch have "c \<in> set (nd_child_idx (ns' ! i))" by auto
    ultimately show "child_for ns' i t = Some c"
      using c grow child_for_eqI [OF assms(3) i'] by simp
  next
    assume "child_for ns' i t = Some c" and c': "c < length ns"
    note c = child_for_SomeD [OF this(1)]
    with ch c' have "c \<in> set (nd_child_idx (ns ! i))" by auto
    with c c' grow show "child_for ns i t = Some c"
      using child_for_eqI [OF assms(2,4)] by simp
  }
qed

lemma grown_descend:
  assumes "grown ns ns'" and "pool_ok ns" and "pool_ok ns'"
  shows "i < length ns \<Longrightarrow> descend ns i ts = Some j \<Longrightarrow> descend ns' i ts = Some j"
    and "i < length ns \<Longrightarrow> descend ns' i ts = Some j \<Longrightarrow> j < length ns \<Longrightarrow> descend ns i ts = Some j"
proof -
  have "length ns \<le> length ns'" using assms(1) by (simp add: grown_def)
  show "i < length ns \<Longrightarrow> descend ns i ts = Some j \<Longrightarrow> descend ns' i ts = Some j"
  proof (induction ts arbitrary: i)
    case (Cons t ts)
    then obtain c where c: "child_for ns i t = Some c" "descend ns c ts = Some j" by (auto split: option.splits)
    with pool_okD(2) [OF assms(2) Cons.prems(1)] child_for_SomeD [OF c(1)] have "c < length ns" by blast
    with c grown_child_for(1) [OF assms Cons.prems(1) c(1)] Cons.IH show ?case by simp
  qed simp
  show "i < length ns \<Longrightarrow> descend ns' i ts = Some j \<Longrightarrow> j < length ns \<Longrightarrow> descend ns i ts = Some j"
  proof (induction ts arbitrary: i)
    case (Cons t ts)
    then obtain c where c: "child_for ns' i t = Some c" "descend ns' c ts = Some j" by (auto split: option.splits)
    from Cons.prems(1) \<open>length ns \<le> length ns'\<close> have "i < length ns'" by simp
    from pool_okD(2) [OF assms(3) this] child_for_SomeD [OF c(1)] have "c < length ns'" by blast
    from descend_bounds [OF assms(3) this c(2)] Cons.prems(3) have "c < length ns" by simp
    with c grown_child_for(2) [OF assms Cons.prems(1) c(1)] Cons.IH Cons.prems(3) show ?case by simp
  qed simp
qed

lemma sink_child_perm:
  assumes "\<forall>c \<in> set cs. c < length ns" and "n < length cs"
  shows "\<exists>cs'. sink_child ns n cs = Inr cs' \<and> mset cs' = mset cs"
  using assms
proof (induction n arbitrary: cs)
  case (Suc n)
  let ?cs = "cs[Suc n := cs ! n, n := cs ! Suc n]"
  have m: "mset ?cs = mset cs" using Suc.prems(2) mset_swap [of n cs "Suc n"] by simp
  then have "set ?cs = set cs" by (metis set_mset_mset)
  with Suc.prems Suc.IH [of ?cs] m show ?case by (auto simp: nth_mem)
qed simp

lemma create_child_ok:
  assumes "pool_ok ns" and "cur < length ns" and "child_for ns cur t = None"
  shows "\<exists>ns'. create_child t cur ns = Inr ns' \<and> pool_ok ns' \<and> grown ns ns' \<and>
    length ns' = Suc (length ns) \<and> child_for ns' cur t = Some (length ns) \<and> nd_seg (ns' ! length ns) = t"
proof -
  let ?new = "node_empty\<lparr>nd_seg := t, nd_parent_idx := Some cur\<rparr>"
  let ?cs = "nd_child_idx (ns ! cur) @ [length ns]"
  have old: "c < length ns" if "c \<in> set (nd_child_idx (ns ! i))" "i < length ns" for c i
    using pool_okD(2) [OF assms(1) that(2,1)] .
  have "\<exists>cs'. (if 1 < length ?cs then sink_child (ns @ [?new]) (length ?cs - 1) ?cs else Inr ?cs) = Inr cs' \<and>
      mset cs' = mset ?cs"
    using sink_child_perm [of ?cs "ns @ [?new]" "length ?cs - 1"] old [OF _ assms(2)] by (auto simp: less_Suc_eq)
  then obtain cs' where cs: "(if 1 < length ?cs then sink_child (ns @ [?new]) (length ?cs - 1) ?cs else Inr ?cs) =
      Inr cs'" and m: "mset cs' = mset ?cs" by blast
  define ns' where "ns' = (ns @ [?new])[cur := ((ns @ [?new]) ! cur)\<lparr>nd_child_idx := cs'\<rparr>]"
  have r: "create_child t cur ns = Inr ns'"
    using cs by (simp add: create_child_def Let_def ns'_def)
  have set': "set cs' = insert (length ns) (set (nd_child_idx (ns ! cur)))"
    using mset_eq_setD [OF m] by simp
  have "distinct (nd_child_idx (ns ! cur))" by (rule pool_ok_distinct [OF assms(1,2)])
  moreover have "length ns \<notin> set (nd_child_idx (ns ! cur))" using old [OF _ assms(2)] by blast
  ultimately have "distinct ?cs" by simp
  then have dist: "distinct cs'" using mset_eq_imp_distinct_iff [OF m] by simp
  have nth: "ns' ! i = (if i = cur then (ns ! cur)\<lparr>nd_child_idx := cs'\<rparr> else if i < length ns then ns ! i else ?new)"
    if "i \<le> length ns" for i
    using that assms(2) by (auto simp: ns'_def nth_append nth_list_update)
  have len: "length ns' = Suc (length ns)" by (simp add: ns'_def)
  have none: "\<not> seg_eq (nd_seg (ns ! c)) t" if "c \<in> set (nd_child_idx (ns ! cur))" for c
    using assms(3) that by (auto simp: child_for_def find_None_iff)
  have ok: "pool_ok ns'"
    unfolding pool_ok_def
  proof (intro conjI allI impI ballI)
    show "ns' \<noteq> []" using len by auto
    fix i assume "i < length ns'"
    then have i: "i \<le> length ns" using len by simp
    show "distinct (nd_child_idx (ns' ! i))"
      using nth [OF i] dist pool_ok_distinct [OF assms(1), of i] by (simp add: node_empty_def)
    fix c assume c: "c \<in> set (nd_child_idx (ns' ! i))"
    have il: "i < length ns" using c nth [OF i] assms(2) by (auto simp: node_empty_def split: if_splits)
    have cc: "c \<in> set (nd_child_idx (ns ! i)) \<or> i = cur \<and> c = length ns"
      using c nth [OF i] set' il by (auto split: if_splits)
    show "i < c" "c < length ns'" "nd_parent_idx (ns' ! c) = Some i"
      using cc pool_okD(1-3) [OF assms(1) il, of c] il len nth [of c] assms(2) by auto
    fix d assume d: "d \<in> set (nd_child_idx (ns' ! i))" "seg_eq (nd_seg (ns' ! c)) (nd_seg (ns' ! d))"
    have dd: "d \<in> set (nd_child_idx (ns ! i)) \<or> i = cur \<and> d = length ns"
      using d(1) nth [OF i] set' il by (auto split: if_splits)
    have seg: "nd_seg (ns' ! x) = (if x < length ns then nd_seg (ns ! x) else t)" if "x \<le> length ns" for x
      using nth [OF that] assms(2) by auto
    from cc dd d(2) show "c = d"
      using pool_okD(4) [OF assms(1) il, of c d] none seg_eq_sym old [OF _ il] seg [of c] seg [of d] by fastforce
  qed
  have "grown ns ns'"
    unfolding grown_def using nth len set' old assms(2) by (auto simp: node_empty_def le_less_Suc_eq)
  moreover have "child_for ns' cur t = Some (length ns)"
    using child_for_eqI [OF ok, of cur "length ns" t] nth [of cur] nth [of "length ns"] set' assms(2) len by simp
  moreover have "nd_seg (ns' ! length ns) = t" using nth [of "length ns"] assms(2) by simp
  ultimately show ?thesis using r ok len by blast
qed

section \<open>Inserting a template\<close>

text \<open>Node \<open>j\<close> is the one of the first \<open>k\<close> segments of \<open>ts\<close> below \<open>pre\<close>, with the last of them as its template.\<close>

definition on_path ::
  "'r pool \<Rightarrow> segment_template list \<Rightarrow> segment_template list \<Rightarrow> nat \<Rightarrow> nat \<Rightarrow> bool" where
  "on_path ns pre ts k j \<longleftrightarrow>
     k < length ts \<and> descend ns 0 (pre @ take (Suc k) ts) = Some j \<and> nd_seg (ns ! j) = ts ! k"

lemma on_path_Cons: "on_path ns (pre @ [t]) ts k j \<Longrightarrow> on_path ns pre (t # ts) (Suc k) j"
  by (simp add: on_path_def)

text \<open>A template without \<open>.\<close> and \<open>..\<close> segments.\<close>

definition dot_free :: "segment_template list \<Rightarrow> bool" where
  "dot_free ts \<longleftrightarrow> (\<forall>t \<in> set ts. st_str t \<noteq> ''.'' \<and> st_str t \<noteq> ''..'')"

lemma find_child_ok: "\<forall>c \<in> set cs. c < length ns \<Longrightarrow>
    find_child ns t cs = Inr (find (\<lambda>i. seg_eq (nd_seg (ns ! i)) t) cs)"
  by (induction cs) auto

lemma find_child_for:
  "pool_ok ns \<Longrightarrow> cur < length ns \<Longrightarrow> find_child ns t (nd_child_idx (ns ! cur)) = Inr (child_for ns cur t)"
  using find_child_ok [of "nd_child_idx (ns ! cur)" ns t] pool_okD(2) [of ns cur] by (auto simp: child_for_def)

lemma insert_segments_ok:
  assumes "pool_ok ns" and "descend ns 0 pre = Some cur" and "dot_free ts"
  shows "\<exists>ns' cur'. insert_segments ts ns cur 0 = Inr (ns', cur', 0) \<and> pool_ok ns' \<and> grown ns ns' \<and>
    descend ns' 0 (pre @ ts) = Some cur' \<and>
    (\<forall>j. length ns \<le> j \<longrightarrow> j < length ns' \<longrightarrow> (\<exists>k. on_path ns' pre ts k j))"
  using assms
proof (induction ts arbitrary: ns pre cur)
  case Nil
  then show ?case by (auto simp: grown_refl)
next
  case (Cons t ts)
  have pos: "0 < length ns" using Cons.prems(1) by (simp add: pool_ok_def)
  have cur: "cur < length ns" using descend_bounds [OF Cons.prems(1) pos Cons.prems(2)] by simp
  have t: "st_str t \<noteq> ''.''" "st_str t \<noteq> ''..''" "dot_free ts" using Cons.prems(3) by (auto simp: dot_free_def)
  note step = find_child_for [OF Cons.prems(1) cur, of t]
  show ?case
  proof (cases "child_for ns cur t")
    case (Some i)
    then have "descend ns 0 (pre @ [t]) = Some i" using Cons.prems(2) by (simp add: descend_append)
    from Cons.IH [OF Cons.prems(1) this t(3)] obtain ns' cur' where
      ns': "insert_segments ts ns i 0 = Inr (ns', cur', 0)" "pool_ok ns'" "grown ns ns'"
        "descend ns' 0 (pre @ t # ts) = Some cur'"
      and new: "\<forall>j. length ns \<le> j \<longrightarrow> j < length ns' \<longrightarrow> (\<exists>k. on_path ns' (pre @ [t]) ts k j)"
      by auto
    from new have "\<forall>j. length ns \<le> j \<longrightarrow> j < length ns' \<longrightarrow> (\<exists>k. on_path ns' pre (t # ts) k j)"
      by (blast dest: on_path_Cons)
    with ns' t Some step cur show ?thesis by simp
  next
    case None
    from create_child_ok [OF Cons.prems(1) cur None] obtain ns1 where
      ns1: "create_child t cur ns = Inr ns1" "pool_ok ns1" "grown ns ns1" "length ns1 = Suc (length ns)"
        "child_for ns1 cur t = Some (length ns)" "nd_seg (ns1 ! length ns) = t" by blast
    have "descend ns1 0 (pre @ [t]) = Some (length ns)"
      using grown_descend(1) [OF ns1(3) Cons.prems(1) ns1(2) pos Cons.prems(2)] ns1(5) by (simp add: descend_append)
    from Cons.IH [OF ns1(2) this t(3)] obtain ns' cur' where
      ns': "insert_segments ts ns1 (length ns) 0 = Inr (ns', cur', 0)" "pool_ok ns'" "grown ns1 ns'"
        "descend ns' 0 (pre @ t # ts) = Some cur'"
      and new: "\<forall>j. length ns1 \<le> j \<longrightarrow> j < length ns' \<longrightarrow> (\<exists>k. on_path ns' (pre @ [t]) ts k j)"
      by auto
    have "length ns1 \<le> length ns'" using ns'(3) by (simp add: grown_def)
    then have "on_path ns' pre (t # ts) 0 (length ns)"
      using grown_descend(1) [OF ns'(3) ns1(2) ns'(2) _ \<open>descend ns1 0 (pre @ [t]) = _\<close>] ns1(4) ns'(3) ns1(6)
      by (simp add: on_path_def grown_def)
    moreover from new have "\<forall>j. length ns1 \<le> j \<longrightarrow> j < length ns' \<longrightarrow> (\<exists>k. on_path ns' pre (t # ts) k j)"
      by (blast dest: on_path_Cons)
    ultimately have "\<forall>j. length ns \<le> j \<longrightarrow> j < length ns' \<longrightarrow> (\<exists>k. on_path ns' pre (t # ts) k j)"
      using ns1(4) by (metis Suc_leI le_neq_implies_less)
    moreover have "grown ns ns'" by (rule grown_trans [OF ns1(3) ns'(3)])
    moreover have "insert_segments (t # ts) ns cur 0 = Inr (ns', cur', 0)"
      using t None step cur ns1 ns'(1) by simp
    ultimately show ?thesis using ns'(2,4) by blast
  qed
qed

lemma pool_ok_cong:
  assumes "pool_ok ns" and "length ns' = length ns"
    and same: "\<And>i. i < length ns \<Longrightarrow> nd_seg (ns' ! i) = nd_seg (ns ! i) \<and>
      nd_parent_idx (ns' ! i) = nd_parent_idx (ns ! i) \<and> nd_child_idx (ns' ! i) = nd_child_idx (ns ! i)"
  shows "pool_ok ns'"
  unfolding pool_ok_def
proof (intro conjI allI impI ballI)
  show "ns' \<noteq> []" using pool_ok_nonempty [OF assms(1)] assms(2) by auto
  fix i assume "i < length ns'"
  then have i: "i < length ns" using assms(2) by simp
  show "distinct (nd_child_idx (ns' ! i))" using same [OF i] pool_ok_distinct [OF assms(1) i] by simp
  fix c assume "c \<in> set (nd_child_idx (ns' ! i))"
  then have c: "c \<in> set (nd_child_idx (ns ! i))" using same [OF i] by simp
  note cc = pool_okD [OF assms(1) i c]
  show "i < c" "c < length ns'" "nd_parent_idx (ns' ! c) = Some i" using cc(1-3) same [OF cc(2)] assms(2) by auto
  fix d assume "d \<in> set (nd_child_idx (ns' ! i))" "seg_eq (nd_seg (ns' ! c)) (nd_seg (ns' ! d))"
  moreover from this have d: "d \<in> set (nd_child_idx (ns ! i))" using same [OF i] by simp
  ultimately show "c = d" using cc(4) [OF d] same [OF cc(2)] same [OF pool_okD(2) [OF assms(1) i d]] by simp
qed

definition with_resource :: "'r pool \<Rightarrow> nat \<Rightarrow> 'r \<Rightarrow> string \<Rightarrow> 'r pool" where
  "with_resource ns i v p = ns[i := (ns ! i)\<lparr>nd_resource := Some v, nd_path_template := p\<rparr>]"

lemma with_resource_fields:
  "length (with_resource ns i v p) = length ns"
  "j < length ns \<Longrightarrow> nd_seg (with_resource ns i v p ! j) = nd_seg (ns ! j) \<and>
     nd_parent_idx (with_resource ns i v p ! j) = nd_parent_idx (ns ! j) \<and>
     nd_child_idx (with_resource ns i v p ! j) = nd_child_idx (ns ! j)"
  "j < length ns \<Longrightarrow> nd_resource (with_resource ns i v p ! j) = (if j = i then Some v else nd_resource (ns ! j))"
  by (cases "j = i"; simp add: with_resource_def)+

lemma pool_ok_with_resource: "pool_ok ns \<Longrightarrow> pool_ok (with_resource ns i v p)"
  by (erule pool_ok_cong) (simp_all add: with_resource_fields)

lemma descend_with_resource:
  assumes "pool_ok ns"
  shows "cur < length ns \<Longrightarrow> descend (with_resource ns i v p) cur ts = descend ns cur ts"
proof (induction ts arbitrary: cur)
  case (Cons t ts)
  have "child_for (with_resource ns i v p) cur t = child_for ns cur t"
    unfolding child_for_def using with_resource_fields(2) [of _ ns i v p] pool_okD(2) [OF assms Cons.prems] Cons.prems
    by (auto intro!: find_cong)
  then show ?case
    using pool_okD(2) [OF assms Cons.prems] child_for_SomeD [of ns cur t] Cons.IH
    by (cases "child_for ns cur t") auto
qed simp

text \<open>
  Inserting a dot-free template changes the resource of that template and of no other, and
  every node of the new pool is on the path of an old node or of the template.
\<close>

lemma insert_impl_ok:
  assumes "pool_ok ns" and "path_template_rule L (remove_slash path) = Some ts" and "dot_free ts"
  shows "\<exists>ns'. insert_impl L path v ns = Inr ns' \<and> pool_ok ns' \<and>
    (\<forall>us. resource_of ns' us = (if same_template ts us then Some v else resource_of ns us)) \<and>
    (\<forall>us j. descend ns' 0 us = Some j \<longrightarrow>
       descend ns 0 us = Some j \<and> nd_seg (ns' ! j) = nd_seg (ns ! j) \<or>
       (\<exists>k < length ts. same_template us (take (Suc k) ts) \<and> nd_seg (ns' ! j) = ts ! k))"
proof -
  have pos: "0 < length ns" using assms(1) by (simp add: pool_ok_def)
  from insert_segments_ok [OF assms(1) _ assms(3), of "[]" 0] obtain ns1 cur where
    ins: "insert_segments ts ns 0 0 = Inr (ns1, cur, 0)" and ok: "pool_ok ns1" and grow: "grown ns ns1"
    and cur: "descend ns1 0 ts = Some cur"
    and new: "\<forall>j. length ns \<le> j \<longrightarrow> j < length ns1 \<longrightarrow> (\<exists>k. on_path ns1 [] ts k j)"
    by auto
  have pos1: "0 < length ns1" using ok by (simp add: pool_ok_def)
  define ns' where "ns' = with_resource ns1 cur v (remove_slash path)"
  have curl: "cur < length ns1" using descend_bounds [OF ok pos1 cur] by simp
  have r: "insert_impl L path v ns = Inr ns'"
    using ins curl assms(2) by (simp add: insert_impl_def Let_def ns'_def with_resource_def)
  have desc: "descend ns' 0 us = descend ns1 0 us" for us
    unfolding ns'_def by (rule descend_with_resource [OF ok pos1])
  have old: "descend ns 0 us = Some j" if "descend ns1 0 us = Some j" "j < length ns" for us j
    by (rule grown_descend(2) [OF grow assms(1) ok pos that])
  have res: "resource_of ns' us = (if same_template ts us then Some v else resource_of ns us)" for us
  proof (cases "descend ns1 0 us")
    case None
    then have "\<not> same_template ts us" using descend_cong [of ts us ns1 0] cur by auto
    moreover have "descend ns 0 us = None"
      using grown_descend(1) [OF grow assms(1) ok pos, of us] None by (cases "descend ns 0 us") auto
    ultimately show ?thesis using None by (simp add: resource_of_def desc)
  next
    case (Some j)
    note jl = descend_bounds [OF ok pos1 Some]
    have resj: "resource_of ns' us = (if j = cur then Some v else nd_resource (ns1 ! j))"
      using Some jl with_resource_fields(3) [of j ns1 cur v "remove_slash path"]
      unfolding resource_of_def desc by (auto simp: ns'_def)
    have eq: "j = cur \<longleftrightarrow> same_template ts us"
      using descend_inj [OF ok cur] descend_cong [of ts us ns1 0] cur Some by auto
    show ?thesis
    proof (cases "j = cur")
      case True
      with eq resj show ?thesis by simp
    next
      case False
      then have "resource_of ns' us = nd_resource (ns1 ! j)" using resj by simp
      also have "\<dots> = resource_of ns us"
      proof (cases "j < length ns")
        case True
        with old [OF Some] grow show ?thesis by (simp add: resource_of_def grown_def)
      next
        case new: False
        have "descend ns 0 us = None"
        proof (cases "descend ns 0 us")
          case (Some i)
          from grown_descend(1) [OF grow assms(1) ok pos this] \<open>descend ns1 0 us = Some j\<close>
            descend_bounds [OF assms(1) pos this] new show ?thesis by simp
        qed
        with new jl grow show ?thesis by (simp add: resource_of_def grown_def)
      qed
      finally show ?thesis using False eq by simp
    qed
  qed
  have "descend ns 0 us = Some j \<and> nd_seg (ns' ! j) = nd_seg (ns ! j) \<or>
      (\<exists>k < length ts. same_template us (take (Suc k) ts) \<and> nd_seg (ns' ! j) = ts ! k)"
    if "descend ns' 0 us = Some j" for us j
  proof -
    from that have j: "descend ns1 0 us = Some j" by (simp add: desc)
    with descend_bounds [OF ok pos1 j] have seg: "nd_seg (ns' ! j) = nd_seg (ns1 ! j)" "j < length ns1"
      using with_resource_fields(2) [of j ns1 cur v "remove_slash path"] by (auto simp: ns'_def)
    show ?thesis
    proof (cases "j < length ns")
      case True
      with old [OF j] seg grow show ?thesis by (simp add: grown_def)
    next
      case False
      with seg new obtain k where "on_path ns1 [] ts k j" by (meson not_le)
      with seg descend_inj [OF ok j, of "take (Suc k) ts"] show ?thesis by (auto simp: on_path_def)
    qed
  qed
  with r res pool_ok_with_resource [OF ok, of cur v] show ?thesis unfolding ns'_def by blast
qed

end
