(* ===== verification/Router_Table.thy ===== *)
theory Router_Table
  imports Router_Pool
begin

text \<open>
  The pool made by inserting routes one after the other, against a table of routes: the
  templates as keys of an associative container.  The children of a node stay sorted,
  literals first.
\<close>

section \<open>Children are sorted\<close>

text \<open>The precedence of a template; the smaller one is tried first.\<close>

definition precedence :: "segment_template \<Rightarrow> nat" where
  "precedence t = (if st_is_literal t then 0 else Suc (modifier_value (st_modifier t)))"

lemma seg_less_precedence: "seg_less a b \<longleftrightarrow> precedence a < precedence b"
  by (auto simp: seg_less_def precedence_def less_modifier_def)

definition child_precedences :: "'r pool \<Rightarrow> nat list \<Rightarrow> nat list" where
  "child_precedences ns cs = map (\<lambda>c. precedence (nd_seg (ns ! c))) cs"

definition pool_sorted :: "'r pool \<Rightarrow> bool" where
  "pool_sorted ns \<longleftrightarrow> (\<forall>i < length ns. sorted (child_precedences ns (nd_child_idx (ns ! i))))"

lemma pool_sorted_empty: "pool_sorted router_empty"
  by (simp add: pool_sorted_def router_empty_def node_empty_def child_precedences_def)

lemma sink_child_sorted:
  assumes "sink_child ns (length xs) (xs @ x # zs) = Inr cs'" and "\<forall>c \<in> set (xs @ x # zs). c < length ns"
    and "sorted (child_precedences ns (xs @ zs))"
    and "\<forall>z \<in> set zs. precedence (nd_seg (ns ! x)) \<le> precedence (nd_seg (ns ! z))"
  shows "sorted (child_precedences ns cs')"
  using assms
proof (induction xs arbitrary: zs rule: rev_induct)
  case Nil
  then show ?case by (auto simp: child_precedences_def)
next
  case (snoc y ys)
  let ?swapped = "ys @ x # y # zs"
  have swap: "((ys @ [y]) @ x # zs)[Suc (length ys) := y, length ys := x] = ?swapped"
    by (simp add: list_update_append)
  have nths: "((ys @ [y]) @ x # zs) ! Suc (length ys) = x" "((ys @ [y]) @ x # zs) ! length ys = y"
    by (simp_all add: nth_append)
  show ?case
  proof (cases "precedence (nd_seg (ns ! x)) < precedence (nd_seg (ns ! y))")
    case True
    then have "sink_child ns (length ys) ?swapped = Inr cs'"
      using snoc.prems(1,2) nths swap by (simp add: seg_less_precedence)
    from snoc.IH [OF this] snoc.prems(2-4) True show ?thesis by auto
  next
    case False
    then have "cs' = (ys @ [y]) @ x # zs"
      using snoc.prems(1,2) nths by (simp add: seg_less_precedence)
    with False snoc.prems(3,4) show ?thesis
      by (auto simp: child_precedences_def sorted_append intro: order_trans)
  qed
qed

lemma create_child_sorted:
  assumes "pool_ok ns" and "pool_sorted ns" and "cur < length ns" and "create_child t cur ns = Inr ns'"
  shows "pool_sorted ns'"
proof -
  let ?new = "node_empty\<lparr>nd_seg := t, nd_parent_idx := Some cur\<rparr>"
  let ?old = "nd_child_idx (ns ! cur)"
  have old: "\<forall>c \<in> set (nd_child_idx (ns ! i)). c < length ns" if "i < length ns" for i
    using pool_okD(2) [OF assms(1) that] by blast
  from assms(3,4) obtain cs' where
    cs: "(if 1 < length (?old @ [length ns])
          then sink_child (ns @ [?new]) (length (?old @ [length ns]) - 1) (?old @ [length ns])
          else Inr (?old @ [length ns])) = Inr cs'"
    and ns': "ns' = (ns @ [?new])[cur := ((ns @ [?new]) ! cur)\<lparr>nd_child_idx := cs'\<rparr>]"
    unfolding create_child_def Let_def res_bind_Inr_iff by auto
  have same: "child_precedences (ns @ [?new]) (nd_child_idx (ns ! i)) = child_precedences ns (nd_child_idx (ns ! i))"
    if "i < length ns" for i
    using old [OF that] by (auto simp: child_precedences_def nth_append)
  have "sorted (child_precedences (ns @ [?new]) cs')"
  proof (cases "?old = []")
    case True
    with cs show ?thesis by (auto simp: child_precedences_def)
  next
    case False
    then have "sink_child (ns @ [?new]) (length ?old) (?old @ length ns # []) = Inr cs'" using cs by simp
    from sink_child_sorted [OF this] old [OF assms(3)] same [OF assms(3)] assms(2,3)
    show ?thesis by (fastforce simp: pool_sorted_def)
  qed
  moreover have "nd_seg (ns' ! c) = nd_seg ((ns @ [?new]) ! c)" for c
    using assms(3) unfolding ns' by (cases "c = cur") (simp_all add: nth_list_update)
  then have prec: "child_precedences ns' cs = child_precedences (ns @ [?new]) cs" for cs
    by (simp add: child_precedences_def)
  moreover have child: "nd_child_idx (ns' ! i) =
      (if i = cur then cs' else if i < length ns then nd_child_idx (ns ! i) else [])" if "i < length ns'" for i
    using that assms(3) unfolding ns'
    by (cases "i = cur") (auto simp: nth_list_update nth_append node_empty_def less_Suc_eq)
  moreover have "sorted (child_precedences ns (nd_child_idx (ns ! i)))" if "i < length ns" for i
    using assms(2) that unfolding pool_sorted_def by blast
  moreover have "sorted (child_precedences (ns @ [?new]) [])" by (simp add: child_precedences_def)
  ultimately show ?thesis
    unfolding pool_sorted_def using same by metis
qed

lemma insert_segments_sorted:
  assumes "pool_ok ns" and "pool_sorted ns" and "cur < length ns" and "dot_free ts"
    and "insert_segments ts ns cur 0 = Inr (ns', cur', level')"
  shows "pool_sorted ns'"
  using assms
proof (induction ts arbitrary: ns cur)
  case (Cons t ts)
  have t: "st_str t \<noteq> ''.''" "st_str t \<noteq> ''..''" "dot_free ts" using Cons.prems(4) by (auto simp: dot_free_def)
  note step = find_child_for [OF Cons.prems(1,3), of t]
  show ?case
  proof (cases "child_for ns cur t")
    case (Some i)
    with Cons.prems step t have "insert_segments ts ns i 0 = Inr (ns', cur', level')" by simp
    moreover have "i < length ns"
      using pool_okD(2) [OF Cons.prems(1,3)] child_for_SomeD [OF Some] by blast
    ultimately show ?thesis using Cons.IH [OF Cons.prems(1,2) _ t(3)] by blast
  next
    case None
    from create_child_ok [OF Cons.prems(1,3) None] obtain ns1 where
      ns1: "create_child t cur ns = Inr ns1" "pool_ok ns1" "length ns1 = Suc (length ns)" by blast
    with Cons.prems step t None have "insert_segments ts ns1 (length ns1 - 1) 0 = Inr (ns', cur', level')" by simp
    from Cons.IH [OF ns1(2) create_child_sorted [OF Cons.prems(1-3) ns1(1)] _ t(3) this] ns1(3) show ?thesis
      by simp
  qed
qed simp

lemma insert_impl_sorted:
  assumes "pool_ok ns" and "pool_sorted ns" and "path_template_rule L (remove_slash path) = Some ts"
    and "dot_free ts" and "insert_impl L path v ns = Inr ns'"
  shows "pool_sorted ns'"
proof -
  from assms(3,5) obtain ns1 cur level where ins: "insert_segments ts ns 0 0 = Inr (ns1, cur, level)"
    and ns': "ns' = with_resource ns1 cur v (remove_slash path)" "cur < length ns1"
    by (auto simp: insert_impl_def Let_def res_simps with_resource_def node_at_def split: if_splits)
  have "pool_sorted ns1"
    using insert_segments_sorted [OF assms(1,2) _ assms(4) ins] pool_ok_nonempty [OF assms(1)] by blast
  moreover have "nd_seg (ns' ! c) = nd_seg (ns1 ! c) \<and> nd_child_idx (ns' ! c) = nd_child_idx (ns1 ! c)" for c
    using ns' by (cases "c = cur") (simp_all add: with_resource_def)
  ultimately show ?thesis by (simp add: pool_sorted_def child_precedences_def ns'(1) with_resource_def)
qed

section \<open>The table of routes\<close>

text \<open>A pattern whose template parses and has no \<open>.\<close> or \<open>..\<close> segment.\<close>

definition routable :: "'d lib \<Rightarrow> string \<Rightarrow> bool" where
  "routable L pattern =
     (case path_template_rule L (remove_slash pattern) of Some ts \<Rightarrow> dot_free ts | None \<Rightarrow> False)"

definition template_of :: "'d lib \<Rightarrow> string \<Rightarrow> segment_template list" where
  "template_of L pattern = the (path_template_rule L (remove_slash pattern))"

lemma routableD:
  "routable L p \<Longrightarrow> path_template_rule L (remove_slash p) = Some (template_of L p) \<and> dot_free (template_of L p)"
  by (auto simp: routable_def template_of_def split: option.splits)

primrec insert_all :: "'d lib \<Rightarrow> (string \<times> 'r) list \<Rightarrow> 'r pool \<Rightarrow> 'r pool res" where
  "insert_all L [] ns = Inr ns"
| "insert_all L (r # rs) ns = res_bind (router_insert L (fst r) (snd r) ns) (insert_all L rs)"

text \<open>The abstract router: an associative container whose keys are templates.\<close>

definition route_table :: "'d lib \<Rightarrow> (string \<times> 'r) list \<Rightarrow> (segment_template list, 'r) kv" where
  "route_table L routes =
     fold (\<lambda>r m. kv_insert_or_assign same_template (template_of L (fst r)) (snd r) m) routes []"

text \<open>
  What the pool knows of a table: the resources are those of the table, and every node but
  the root has the segment of one of the templates whose path it is on.
\<close>

definition represents :: "segment_template list set \<Rightarrow> (segment_template list, 'r) kv \<Rightarrow> 'r pool \<Rightarrow> bool" where
  "represents T m ns \<longleftrightarrow> pool_ok ns \<and> pool_sorted ns \<and>
     (\<forall>us. resource_of ns us = kv_find same_template us m) \<and>
     (\<forall>us j. descend ns 0 us = Some j \<longrightarrow> us = [] \<or>
        (\<exists>ts \<in> T. \<exists>k < length ts. same_template us (take (Suc k) ts) \<and> nd_seg (ns ! j) = ts ! k))"

lemma descend_router_empty: "descend router_empty 0 us = Some j \<Longrightarrow> us = []"
  by (cases us) (auto simp: router_empty_def node_empty_def child_for_def)

lemma represents_empty: "represents {} [] router_empty"
  by (auto simp: represents_def pool_ok_empty pool_sorted_empty resource_of_empty dest: descend_router_empty)

lemma represents_insert:
  assumes "represents T m ns" and "routable L p"
  shows "\<exists>ns'. router_insert L p v ns = Inr ns' \<and>
    represents (insert (template_of L p) T) (kv_insert_or_assign same_template (template_of L p) v m) ns'"
proof -
  have ok: "pool_ok ns" "pool_sorted ns" using assms(1) by (auto simp: represents_def)
  note t = routableD [OF assms(2)]
  from insert_impl_ok [OF ok(1) conjunct1 [OF t] conjunct2 [OF t], of v] obtain ns' where
    ns': "insert_impl L p v ns = Inr ns'" "pool_ok ns'"
    and res: "\<forall>us. resource_of ns' us = (if same_template (template_of L p) us then Some v else resource_of ns us)"
    and nodes: "\<forall>us j. descend ns' 0 us = Some j \<longrightarrow>
       descend ns 0 us = Some j \<and> nd_seg (ns' ! j) = nd_seg (ns ! j) \<or>
       (\<exists>k < length (template_of L p). same_template us (take (Suc k) (template_of L p)) \<and>
          nd_seg (ns' ! j) = template_of L p ! k)" by blast
  from insert_impl_sorted [OF ok conjunct1 [OF t] conjunct2 [OF t] ns'(1)] have "pool_sorted ns'" .
  moreover have "us = [] \<or> (\<exists>ts \<in> insert (template_of L p) T.
      \<exists>k < length ts. same_template us (take (Suc k) ts) \<and> nd_seg (ns' ! j) = ts ! k)"
    if "descend ns' 0 us = Some j" for us j
    using nodes [rule_format, OF that] assms(1) unfolding represents_def by fastforce
  ultimately have "represents (insert (template_of L p) T)
      (kv_insert_or_assign same_template (template_of L p) v m) ns'"
    using ns'(2) res assms(1) by (simp add: represents_def template_key.find_insert_or_assign)
  with ns'(1) show ?thesis by (auto simp: router_insert_def)
qed

lemma insert_all_represents:
  assumes "\<forall>r \<in> set routes. routable L (fst r)"
  shows "\<exists>ns. insert_all L routes router_empty = Inr ns \<and>
    represents (set (map (template_of L \<circ> fst) routes)) (route_table L routes) ns"
proof -
  have "\<exists>ns'. insert_all L routes ns = Inr ns' \<and>
      represents (T \<union> set (map (template_of L \<circ> fst) routes))
        (fold (\<lambda>r m. kv_insert_or_assign same_template (template_of L (fst r)) (snd r) m) routes m) ns'"
    if "represents T m ns" for T m ns
    using assms that
  proof (induction routes arbitrary: T m ns)
    case (Cons r routes)
    from represents_insert [OF Cons.prems(2), of L "fst r" "snd r"] Cons.prems(1) obtain ns1 where
      "router_insert L (fst r) (snd r) ns = Inr ns1"
      "represents (insert (template_of L (fst r)) T)
         (kv_insert_or_assign same_template (template_of L (fst r)) (snd r) m) ns1" by auto
    with Cons.IH [OF _ this(2)] Cons.prems(1) show ?case by simp
  qed simp
  from this [OF represents_empty] show ?thesis by (simp add: route_table_def)
qed

text \<open>
  C12: inserting routes without dot segments never fails, and the pool is the table: it holds
  a resource for exactly the templates that were inserted, each with the resource inserted
  last under an equal template.
\<close>

theorem insert_routes_is_table:
  assumes "\<forall>r \<in> set routes. routable L (fst r)"
  shows "\<exists>ns. insert_all L routes router_empty = Inr ns \<and>
    (\<forall>us. resource_of ns us = kv_find same_template us (route_table L routes))"
  using insert_all_represents [OF assms] by (auto simp: represents_def)

theorem insert_routes_is_table_witness:
  "\<exists>ns. insert_all ref_lib [(''/rates'', 1), (''/rate/{pair}'', 2), (''/rate/{p}'', 3 :: nat)] router_empty = Inr ns \<and>
    resource_of ns [literal ''rate'', field_template ''x''] = Some 3"
proof -
  let ?routes = "[(''/rates'', 1), (''/rate/{pair}'', 2), (''/rate/{p}'', 3 :: nat)]"
  have "\<forall>r \<in> set ?routes. routable ref_lib (fst r)" by code_simp
  moreover have "kv_find same_template [literal ''rate'', field_template ''x''] (route_table ref_lib ?routes) = Some 3"
    by code_simp
  ultimately show ?thesis using insert_routes_is_table [of ?routes ref_lib] by auto
qed

end
