(* ===== verification/Router_Limits.thy ===== *)
theory Router_Limits
  imports Router_Table
begin

text \<open>
  Where the URL router does not do what a reader of its templates expects: matches that a
  failed branch leaves in the buffer, \<open>..\<close> in a pattern, and the order of \<open>{id*}\<close> and \<open>{id+}\<close>.
\<close>

section \<open>Matches of a failed branch\<close>

definition unmodified :: "string \<Rightarrow> bool" where
  "unmodified x \<longleftrightarrow> \<not> ends_with x CHR ''?'' \<and> \<not> ends_with x CHR ''*'' \<and> \<not> ends_with x CHR ''+''"

lemma unmodified_field:
  assumes "unmodified x"
  shows "st_modifier (field_template x) = mod_none" "has_modifier (field_template x) = False"
    "is_optional (field_template x) = False" "is_star (field_template x) = False" "seg_id (field_template x) = x"
  using assms by (auto simp: unmodified_def field_template_def has_modifier_def is_optional_def is_star_def seg_id_def Let_def)

lemma field_template_sel:
  "st_is_literal (field_template x) = False" "st_str (field_template x) \<noteq> ''.''"
  "st_str (field_template x) \<noteq> ''..''" "seg_match L (field_template x) s"
  by (auto simp: field_template_def seg_match_def)

lemma literal_sel: "st_is_literal (literal s)" "st_str (literal s) = s" "seg_match L (literal a) s \<longleftrightarrow> lib_pct_decode L s = a"
  by (simp_all add: literal_def seg_match_def)

text \<open>The pool of the routes \<open>a/{x}\<close> and \<open>{y}/b/{z}\<close>.\<close>

definition two_routes :: "string \<Rightarrow> string \<Rightarrow> string \<Rightarrow> string \<Rightarrow> string \<Rightarrow> string \<Rightarrow> string \<Rightarrow> 'r \<Rightarrow> 'r \<Rightarrow> 'r pool" where
  "two_routes a x y b z path1 path2 v1 v2 =
     [node_empty\<lparr>nd_child_idx := [1, 3]\<rparr>,
      node_empty\<lparr>nd_seg := literal a, nd_parent_idx := Some 0, nd_child_idx := [2]\<rparr>,
      node_empty\<lparr>nd_seg := field_template x, nd_parent_idx := Some 1, nd_resource := Some v1, nd_path_template := path1\<rparr>,
      node_empty\<lparr>nd_seg := field_template y, nd_parent_idx := Some 0, nd_child_idx := [4]\<rparr>,
      node_empty\<lparr>nd_seg := literal b, nd_parent_idx := Some 3, nd_child_idx := [5]\<rparr>,
      node_empty\<lparr>nd_seg := field_template z, nd_parent_idx := Some 4, nd_resource := Some v2, nd_path_template := path2\<rparr>]"

lemma two_routes_inserted:
  assumes "path_template_rule L (remove_slash p1) = Some [literal a, field_template x]"
    and "path_template_rule L (remove_slash p2) = Some [field_template y, literal b, field_template z]"
    and "a \<noteq> ''.''" "a \<noteq> ''..''" "b \<noteq> ''.''" "b \<noteq> ''..''"
  shows "insert_all L [(p1, v1), (p2, v2)] router_empty =
    Inr (two_routes a x y b z (remove_slash p1) (remove_slash p2) v1 v2)"
  using assms
  by (simp add: router_insert_def insert_impl_def Let_def router_empty_def node_at_def node_empty_def create_child_def
      seg_eq_def seg_less_def literal_sel field_template_sel two_routes_def numeral_eq_Suc)

lemma two_routes_found:
  assumes "unmodified x" "unmodified y" "unmodified z"
    and "lib_pct_decode L s1 = a" "lib_pct_decode L s2 = b"
    and "a \<noteq> ''.''" "a \<noteq> ''..''" "b \<noteq> ''.''" "b \<noteq> ''..''"
    and "lib_pct_decode L s3 \<noteq> ''.''" "lib_pct_decode L s3 \<noteq> ''..''"
  shows "router_find L (two_routes a x y b z path1 path2 v1 v2) [s1, s2, s3] =
    Some (Inr (Some v2, [(x, s2), (y, s1), (z, s3)]))"
proof -
  let ?ns = "two_routes a x y b z path1 path2 v1 v2"
  let ?m1 = "\<lparr>mb_matches = (replicate 20 NoView)[0 := Segments 1 2], mb_ids = (replicate 20 [])[0 := x], mb_pos = 1\<rparr>"
  let ?m2 = "\<lparr>mb_matches = (mb_matches ?m1)[1 := Segments 0 1], mb_ids = (mb_ids ?m1)[1 := y], mb_pos = 2\<rparr>"
  let ?m3 = "\<lparr>mb_matches = (mb_matches ?m2)[2 := Segments 2 3], mb_ids = (mb_ids ?m2)[2 := z], mb_pos = 3\<rparr>"
  note pool = two_routes_def node_at_def node_empty_def numeral_eq_Suc
  have first: "walk L ?ns [s1, s2, s3] rec [s2, s3] 1 0 matches_storage = ret (None, ?m1)" for rec
    using assms unmodified_field [OF assms(1)]
    by (simp add: pool Let_def needs_branch_def literal_sel field_template_sel push_match_def matches_storage_def match_places_def)
  have second: "walk L ?ns [s1, s2, s3] rec [s2, s3] 3 0 ?m2 = ret (Some 5, ?m3)" for rec
    using assms unmodified_field [OF assms(3)]
    by (simp add: pool Let_def needs_branch_def literal_sel field_template_sel push_match_def match_places_def)
  have top: "walk L ?ns [s1, s2, s3] (try_match L ?ns [s1, s2, s3] (Suc n)) [s1, s2, s3] 0 0 matches_storage = ret (Some 5, ?m3)" for n
    using assms unmodified_field [OF assms(2)] first second
    by (simp add: pool Let_def needs_branch_def literal_sel field_template_sel push_match_def match_places_def rewind_def)
  have "match_fuel ?ns [s1, s2, s3] = Suc (Suc 26)"
    by (simp add: match_fuel_def two_routes_def)
  with top have "find_impl L ?ns [s1, s2, s3] matches_storage = ret (Some 5, ?m3)"
    by (simp only: find_impl_def list.distinct if_False option.case try_match.simps)
  then show ?thesis
    by (simp add: router_find_def pool Let_def ret_def)
qed

text \<open>The second route alone.\<close>

definition one_route :: "string \<Rightarrow> string \<Rightarrow> string \<Rightarrow> string \<Rightarrow> 'r \<Rightarrow> 'r pool" where
  "one_route y b z path2 v2 =
     [node_empty\<lparr>nd_child_idx := [1]\<rparr>,
      node_empty\<lparr>nd_seg := field_template y, nd_parent_idx := Some 0, nd_child_idx := [2]\<rparr>,
      node_empty\<lparr>nd_seg := literal b, nd_parent_idx := Some 1, nd_child_idx := [3]\<rparr>,
      node_empty\<lparr>nd_seg := field_template z, nd_parent_idx := Some 2, nd_resource := Some v2, nd_path_template := path2\<rparr>]"

lemma one_route_inserted:
  assumes "path_template_rule L (remove_slash p2) = Some [field_template y, literal b, field_template z]"
    and "b \<noteq> ''.''" "b \<noteq> ''..''"
  shows "insert_all L [(p2, v2)] router_empty = Inr (one_route y b z (remove_slash p2) v2)"
  using assms
  by (simp add: router_insert_def insert_impl_def Let_def router_empty_def node_at_def node_empty_def create_child_def
      literal_sel field_template_sel one_route_def numeral_eq_Suc)

lemma one_route_found:
  assumes "unmodified y" "unmodified z" and "lib_pct_decode L s2 = b" and "b \<noteq> ''.''" "b \<noteq> ''..''"
    and "lib_pct_decode L s1 \<noteq> ''.''" "lib_pct_decode L s1 \<noteq> ''..''"
    and "lib_pct_decode L s3 \<noteq> ''.''" "lib_pct_decode L s3 \<noteq> ''..''"
  shows "router_find L (one_route y b z path2 v2) [s1, s2, s3] = Some (Inr (Some v2, [(y, s1), (z, s3)]))"
proof -
  let ?ns = "one_route y b z path2 v2"
  let ?m = "\<lparr>mb_matches = (replicate 20 NoView)[0 := Segments 0 1, 1 := Segments 2 3],
    mb_ids = (replicate 20 [])[0 := y, 1 := z], mb_pos = 2\<rparr>"
  note pool = one_route_def node_at_def node_empty_def numeral_eq_Suc
  have top: "walk L ?ns [s1, s2, s3] rec [s1, s2, s3] 0 0 matches_storage = ret (Some 3, ?m)" for rec
    using assms unmodified_field [OF assms(1)] unmodified_field [OF assms(2)]
    by (simp add: pool Let_def needs_branch_def literal_sel field_template_sel push_match_def match_places_def matches_storage_def)
  have "match_fuel ?ns [s1, s2, s3] = Suc 19"
    by (simp add: match_fuel_def one_route_def)
  with top have "find_impl L ?ns [s1, s2, s3] matches_storage = ret (Some 3, ?m)"
    by (simp only: find_impl_def list.distinct if_False option.case try_match.simps)
  then show ?thesis
    by (simp add: router_find_def pool Let_def ret_def)
qed

text \<open>
  C39: the branch of a literal child does not give its matches back when it fails. Of the
  routes \<open>a/{x}\<close> and \<open>{y}/b/{z}\<close> only the second one matches a path of the segments \<open>a\<close>, \<open>b\<close> and
  any third one. Alone in the table it is found with its two fields. With the first route
  beside it, which does not match the path, it is found with three matches: before its own
  fields comes \<open>x\<close>, the field of the other route, whatever the three ids are, so that with an
  \<open>x\<close> that is not one of its ids a handler is told of a field its route does not have.
\<close>

theorem failed_branch_leaves_match:
  assumes "path_template_rule L (remove_slash p1) = Some [literal a, field_template x]"
    and "path_template_rule L (remove_slash p2) = Some [field_template y, literal b, field_template z]"
    and "unmodified x" "unmodified y" "unmodified z"
    and "lib_pct_decode L s1 = a" "lib_pct_decode L s2 = b"
    and "a \<noteq> ''.''" "a \<noteq> ''..''" "b \<noteq> ''.''" "b \<noteq> ''..''"
    and "lib_pct_decode L s3 \<noteq> ''.''" "lib_pct_decode L s3 \<noteq> ''..''"
  shows "(\<exists>ns. insert_all L [(p2, v2)] router_empty = Inr ns \<and>
      router_find L ns [s1, s2, s3] = Some (Inr (Some v2, [(y, s1), (z, s3)]))) \<and>
    (\<exists>ns. insert_all L [(p1, v1), (p2, v2)] router_empty = Inr ns \<and>
      router_find L ns [s1, s2, s3] = Some (Inr (Some v2, [(x, s2), (y, s1), (z, s3)])))"
  using assms by (simp add: two_routes_inserted two_routes_found one_route_inserted one_route_found del: insert_all.simps)

theorem failed_branch_leaves_match_witness:
  "\<exists>ns. insert_all ref_lib [(''users/{id}'', 1 :: nat), (''{group}/list/{page}'', 2)] router_empty = Inr ns \<and>
     router_find ref_lib ns [''users'', ''list'', ''7''] =
       Some (Inr (Some 2, [(''id'', ''list''), (''group'', ''users''), (''page'', ''7'')]))"
proof -
  have rules: "path_template_rule ref_lib (remove_slash ''users/{id}'') = Some [literal ''users'', field_template ''id'']"
    "path_template_rule ref_lib (remove_slash ''{group}/list/{page}'') =
       Some [field_template ''group'', literal ''list'', field_template ''page'']"
    by code_simp+
  have plain: "unmodified ''id''" "unmodified ''group''" "unmodified ''page''" by code_simp+
  have decoded: "lib_pct_decode ref_lib ''users'' = ''users''" "lib_pct_decode ref_lib ''list'' = ''list''"
    "lib_pct_decode ref_lib ''7'' \<noteq> ''.''" "lib_pct_decode ref_lib ''7'' \<noteq> ''..''"
    by code_simp+
  from failed_branch_leaves_match [where ?v1.0 = "1 :: nat" and ?v2.0 = 2, OF rules plain decoded(1,2) _ _ _ _ decoded(3,4)]
  show ?thesis by simp
qed

section \<open>The parent directory in a pattern\<close>

text \<open>
  A pattern that goes into a new segment and back with \<open>..\<close> makes the first insertion
  erase before the beginning of an array: undefined behaviour.
\<close>

theorem dotdot_pattern_is_undefined:
  fixes v :: 'r
  assumes "path_template_rule L (remove_slash pattern) = Some (t # u # ts)"
    and "st_str t \<noteq> ''.''" and "st_str t \<noteq> ''..''" and "st_str u = ''..''"
  shows "router_insert L pattern v router_empty = Inl Undefined"
proof -
  let ?ns = "[node_empty\<lparr>nd_child_idx := [1]\<rparr>, node_empty\<lparr>nd_seg := t, nd_parent_idx := Some 0\<rparr>] :: 'r pool"
  have create: "create_child t 0 router_empty = Inr ?ns"
    by (simp add: create_child_def router_empty_def node_empty_def)
  have "cv_erase_value 1 [1] = Inl Undefined"
    by (simp add: cv_erase_value_def cv_remove_def cv_erase_def)
  then have "insert_dotdot 1 ?ns = Inl Undefined"
    by (simp add: insert_dotdot_def node_at_def node_empty_def parent_of_def)
  then have "insert_segments (t # u # ts) (router_empty :: 'r pool) 0 0 = Inl Undefined"
    using assms(2-4) create by (simp add: router_empty_def node_empty_def node_at_def)
  with assms(1) show ?thesis by (simp add: router_insert_def insert_impl_def Let_def)
qed

theorem dotdot_pattern_is_undefined_witness:
  "router_insert ref_lib ''/b/../c'' (1 :: nat) router_empty = Inl Undefined"
  by (rule dotdot_pattern_is_undefined [where t = "literal ''b''" and u = "literal ''..''" and ts = "[literal ''c'']"])
    code_simp+

section \<open>The order of star and plus\<close>

lemma insert_all_runs:
  "(case insert_all L routes router_empty of Inr ns \<Rightarrow> router_find L ns path = res | Inl e \<Rightarrow> False) \<Longrightarrow>
    \<exists>ns. insert_all L routes router_empty = Inr ns \<and> router_find L ns path = res"
  by (cases "insert_all L routes router_empty") auto

text \<open>In either order of insertion a path of one segment or more is given to \<open>{x*}\<close>, not to \<open>{y+}\<close>.\<close>

lemma star_precedes_plus:
  "\<exists>ns. insert_all ref_lib [(''{x*}'', 1), (''{y+}'', 2 :: nat)] router_empty = Inr ns \<and>
     router_find ref_lib ns [''a'', ''b''] = Some (Inr (Some 1, [(''x'', ''a/b'')]))"
  "\<exists>ns. insert_all ref_lib [(''{y+}'', 2 :: nat), (''{x*}'', 1)] router_empty = Inr ns \<and>
     router_find ref_lib ns [''a'', ''b''] = Some (Inr (Some 1, [(''x'', ''a/b'')]))"
  by (rule insert_all_runs, code_simp)+

end
