(* ===== verification/Router_Search.thy ===== *)
theory Router_Search
  imports Router_Table
begin

text \<open>
  Finding a route.  The search always ends; for templates without modifiers it is a
  depth-first search of the pool, and returns the route a reader of the table would pick.
\<close>

section \<open>The search ends\<close>

definition returns :: "'a run \<Rightarrow> bool" where
  "returns m \<longleftrightarrow> m \<noteq> None"

lemma returns_bind: "returns m \<Longrightarrow> (\<And>x. returns (f x)) \<Longrightarrow> returns (run_bind m f)"
  unfolding returns_def by (rule run_bind_returns)

lemma returns_done [simp, intro!]: "returns (ret x)" "returns (Some r)"
  by (simp_all add: returns_def ret_def)

lemma returns_bind_res: "(\<And>x. r = Inr x \<Longrightarrow> returns (f x)) \<Longrightarrow> returns (run_bind (Some r) f)"
  by (cases r) (simp_all add: returns_def)

lemma returns_case_option: "(r = None \<Longrightarrow> returns a) \<Longrightarrow> (\<And>x. r = Some x \<Longrightarrow> returns (f x)) \<Longrightarrow>
    returns (case r of None \<Rightarrow> a | Some x \<Rightarrow> f x)"
  by (cases r) simp_all

lemma returns_if: "(b \<Longrightarrow> returns x) \<Longrightarrow> (\<not> b \<Longrightarrow> returns y) \<Longrightarrow> returns (if b then x else y)"
  by simp

lemmas returns_rules = returns_bind_res returns_bind returns_case_option returns_if

lemma optional_children_returns:
  "(\<And>i m. i \<in> set is \<Longrightarrow> returns (rec i m)) \<Longrightarrow> returns (optional_children rec ns is m)"
proof (induction "is" arbitrary: m)
  case (Cons i "is")
  then show ?case by (auto simp del: run_bind_simps simp: split_def intro!: returns_rules)
qed simp

lemma find_optional_returns:
  assumes "pool_ok ns"
  shows "length ns - root < n \<Longrightarrow> returns (find_optional_resource ns n root m)"
proof (induction n arbitrary: root m)
  case (Suc n)
  show ?case
  proof (cases "root < length ns")
    case True
    have "returns (find_optional_resource ns n i m')" if "i \<in> set (nd_child_idx (ns ! root))" for i m'
      using Suc pool_okD(1) [OF assms True that] True by (intro Suc.IH) simp
    with True show ?thesis by (auto intro!: optional_children_returns)
  qed (simp add: node_at_def)
qed simp

lemma many_segments_returns:
  assumes "\<And>rest level m. length rest \<le> length first \<Longrightarrow> returns (rec rest i level m)"
    and "\<forall>j \<in> set js. j \<le> length first"
  shows "returns (many_segments rec segs one i level p first js m)"
  using assms(2)
proof (induction js arbitrary: m)
  case Nil
  show ?case using assms(1) by (auto simp: split_def intro!: returns_rules)
next
  case (Cons j js)
  have "returns (rec (drop (length segs - j) segs) i level m)" by (rule assms(1)) (use Cons.prems in auto)
  with Cons show ?case by (auto simp del: run_bind_simps simp: split_def intro!: returns_rules)
qed

text \<open>What is left of a search: the segments, then the nodes after the current one.\<close>

definition search_rest :: "nat \<Rightarrow> string list \<Rightarrow> nat \<Rightarrow> nat" where
  "search_rest N rest cur = length rest * Suc N + (N - cur)"

lemma search_rest_shorter: "length rest' < length rest \<Longrightarrow> search_rest N rest' i < search_rest N rest cur"
proof -
  assume "length rest' < length rest"
  then have "Suc (length rest') * Suc N \<le> length rest * Suc N" by (intro mult_le_mono1) simp
  then show ?thesis by (simp add: search_rest_def)
qed

lemma search_rest_later: "cur < i \<Longrightarrow> cur < N \<Longrightarrow> search_rest N rest i < search_rest N rest cur"
  by (simp add: search_rest_def)

lemma try_children_returns:
  assumes "\<And>rest' i level m. search_rest N rest' i < search_rest N (s # rest) cur \<Longrightarrow> returns (rec rest' i level m)"
    and "cur < N" and "\<forall>i \<in> set is. cur < i"
  shows "returns (try_children L ns segs rec branch s rest level is m)"
  using assms(3)
proof (induction "is" arbitrary: m)
  case (Cons i "is")
  have shorter: "returns (rec rest' i level m)" if "length rest' \<le> length rest" for rest' level m
    using that by (intro assms(1) search_rest_shorter) simp
  have same: "returns (rec (s # rest) i level m)" for level m
    using Cons.prems assms(2) by (intro assms(1) search_rest_later) auto
  have upto: "returns (rec rest' i level m)"
    if "length rest' \<le> length (if b then rest else s # rest)" for rest' level m b
  proof (cases "length rest' \<le> length rest")
    case False
    with that have len: "length rest' = length (s # rest)" by (auto split: if_splits)
    have "search_rest N rest' i < search_rest N (s # rest) cur"
      using search_rest_later [of cur i N "s # rest"] Cons.prems assms(2) len by (simp add: search_rest_def)
    then show ?thesis by (rule assms(1))
  qed (rule shorter)
  have many: "returns (many_segments rec segs one i level p (if b then rest else s # rest)
      [0..<length (if b then rest else s # rest)] m)" for one level p m b
    by (rule many_segments_returns) (use upto [of _ b] in auto)
  show ?case
    using Cons shorter [of rest] same many [where b = True, simplified] many [where b = False, simplified]
    by (auto simp del: run_bind_simps many_segments.simps simp: Let_def split_def intro!: returns_rules)
qed simp

lemma walk_returns:
  assumes "pool_ok ns"
  shows "(\<And>rest' i level m. search_rest (length ns) rest' i < search_rest (length ns) rest cur \<Longrightarrow>
      returns (rec rest' i level m)) \<Longrightarrow> returns (walk L ns segs rec rest cur level m)"
proof (induction rest arbitrary: cur level m)
  case Nil
  show ?case using find_optional_returns [OF assms, of cur "Suc (length ns)"]
    by (auto simp del: run_bind_simps find_optional_resource.simps intro!: returns_rules)
next
  case (Cons s rest)
  have go: "returns (walk L ns segs rec rest i level m)" for i level m
  proof (rule Cons.IH)
    fix rest' j level m
    assume "search_rest (length ns) rest' j < search_rest (length ns) rest i"
    also have "\<dots> < search_rest (length ns) (s # rest) cur" by (rule search_rest_shorter) simp
    finally show "returns (rec rest' j level m)" by (rule Cons.prems)
  qed
  have "returns (try_children L ns segs rec branch s rest level (nd_child_idx (ns ! cur)) m)"
    if "cur < length ns" for branch
    by (rule try_children_returns [where N = "length ns" and cur = cur])
      (use Cons.prems that pool_okD(1) [OF assms that] in auto)
  then show ?case
    using go by (auto simp del: run_bind_simps simp: Let_def split_def node_at_def intro!: returns_rules
        split: child_outcome.split if_splits)
qed

lemma try_match_returns:
  assumes "pool_ok ns"
  shows "search_rest (length ns) rest cur < n \<Longrightarrow> returns (try_match L ns segs n rest cur level m)"
proof (induction n arbitrary: rest cur level m)
  case (Suc n)
  show ?case unfolding try_match.simps by (rule walk_returns [OF assms]) (use Suc in auto)
qed simp

text \<open>
  C14: in a pool made of routes without dot segments, with modifiers or not, looking up a
  path always ends.
\<close>

theorem router_search_ends:
  assumes "\<forall>r \<in> set routes. routable L (fst r)" and "insert_all L routes router_empty = Inr ns"
  shows "\<exists>res. router_find L ns path = Some res"
proof -
  from insert_all_represents [OF assms(1)] assms(2) have ok: "pool_ok ns" by (auto simp: represents_def)
  have "returns (try_match L ns segs (match_fuel ns segs) segs 0 0 m)" for segs m
    by (rule try_match_returns [OF ok]) (simp add: match_fuel_def search_rest_def)
  then have "returns (find_impl L ns path matches_storage)"
    by (auto simp: find_impl_def split: option.split)
  then have "returns (router_find L ns path)"
    unfolding router_find_def by (auto simp: Let_def split_def intro!: returns_rules)
  then show ?thesis by (simp add: returns_def)
qed

theorem router_search_ends_witness:
  "\<exists>ns res. insert_all ref_lib [(''/a/{x*}/b'', 1 :: nat), (''/{y?}'', 2)] router_empty = Inr ns \<and>
     router_find ref_lib ns [''a'', ''..'', ''b''] = Some res"
proof -
  have r: "\<forall>r \<in> set [(''/a/{x*}/b'', 1 :: nat), (''/{y?}'', 2)]. routable ref_lib (fst r)" by code_simp
  from insert_all_represents [OF r] obtain ns where
    "insert_all ref_lib [(''/a/{x*}/b'', 1 :: nat), (''/{y?}'', 2)] router_empty = Inr ns" by blast
  with router_search_ends [OF r this, of "[''a'', ''..'', ''b'']"] show ?thesis by blast
qed

end
