(* ===== verification/Router_Best.thy ===== *)
theory Router_Best
  imports Router_Search
begin

text \<open>
  Tables whose templates have no modifiers: the search of the pool against a depth-first
  search without a match buffer, and the route it finds.  A literal is preferred to a field at
  the first segment where two matching templates differ.
\<close>

section \<open>Reachable nodes\<close>

definition reachable :: "'r pool \<Rightarrow> nat \<Rightarrow> bool" where
  "reachable ns i \<longleftrightarrow> (\<exists>us. descend ns 0 us = Some i)"

lemma reachable_root [simp]: "reachable ns 0"
  unfolding reachable_def by (rule exI [of _ "[]"]) simp

lemma reachable_bound: "pool_ok ns \<Longrightarrow> reachable ns i \<Longrightarrow> i < length ns"
  unfolding reachable_def using descend_bounds pool_ok_nonempty by blast

lemma descend_child:
  assumes "pool_ok ns" and "descend ns 0 us = Some i" and "c \<in> set (nd_child_idx (ns ! i))"
  shows "descend ns 0 (us @ [nd_seg (ns ! c)]) = Some c"
proof -
  have "i < length ns" using descend_bounds [OF assms(1) pool_ok_nonempty [OF assms(1)] assms(2)] by simp
  from child_for_eqI [OF assms(1) this assms(3) seg_eq_refl] assms(2) show ?thesis
    by (simp add: descend_append)
qed

lemma reachable_child:
  "pool_ok ns \<Longrightarrow> reachable ns i \<Longrightarrow> c \<in> set (nd_child_idx (ns ! i)) \<Longrightarrow> reachable ns c"
  unfolding reachable_def using descend_child by blast

section \<open>Pools without modifiers\<close>

definition plain :: "segment_template list \<Rightarrow> bool" where
  "plain ts \<longleftrightarrow> list_all (\<lambda>t. st_modifier t = mod_none) ts"

definition plain_pool :: "'r pool \<Rightarrow> bool" where
  "plain_pool ns \<longleftrightarrow> pool_ok ns \<and> pool_sorted ns \<and>
     (\<forall>i c. reachable ns i \<longrightarrow> c \<in> set (nd_child_idx (ns ! i)) \<longrightarrow> st_modifier (nd_seg (ns ! c)) = mod_none)"

lemma represents_plain:
  assumes "represents T m ns" and "\<And>ts. ts \<in> T \<Longrightarrow> plain ts"
  shows "plain_pool ns"
proof -
  have ok: "pool_ok ns" "pool_sorted ns" using assms(1) by (auto simp: represents_def)
  have "st_modifier (nd_seg (ns ! c)) = mod_none" if "reachable ns i" "c \<in> set (nd_child_idx (ns ! i))" for i c
  proof -
    from that(1) obtain us where "descend ns 0 us = Some i" by (auto simp: reachable_def)
    from descend_child [OF ok(1) this that(2)] assms(1) obtain ts k where
      "ts \<in> T" "k < length ts" "nd_seg (ns ! c) = ts ! k" unfolding represents_def by blast
    with assms(2) show ?thesis by (auto simp: plain_def list_all_length)
  qed
  with ok show ?thesis by (simp add: plain_pool_def)
qed

lemma no_modifier [simp]:
  "st_modifier t = mod_none \<Longrightarrow> \<not> has_modifier t \<and> \<not> is_optional t \<and> \<not> is_star t"
  by (simp add: has_modifier_def is_optional_def is_star_def)

text \<open>The children a segment matches: none, one, or a literal before a field.\<close>

definition matching :: "'d lib \<Rightarrow> 'r pool \<Rightarrow> nat \<Rightarrow> string \<Rightarrow> nat list" where
  "matching L ns cur s = filter (\<lambda>i. seg_match L (nd_seg (ns ! i)) s) (nd_child_idx (ns ! cur))"

lemma three_or_more: "length xs \<le> 2 \<or> (\<exists>a b c zs. xs = a # b # c # zs)"
  by (cases xs; cases "tl xs"; cases "tl (tl xs)") auto

lemma matching_cases:
  assumes "plain_pool ns" and "reachable ns cur"
  obtains "matching L ns cur s = []" | i where "matching L ns cur s = [i]"
    | i j where "matching L ns cur s = [i, j]" "st_is_literal (nd_seg (ns ! i))" "\<not> st_is_literal (nd_seg (ns ! j))"
proof -
  let ?M = "matching L ns cur s" and ?lit = "\<lambda>i. st_is_literal (nd_seg (ns ! i))"
  have ok: "pool_ok ns" using assms(1) by (simp add: plain_pool_def)
  note cur = reachable_bound [OF ok assms(2)]
  have dist: "distinct ?M" using pool_ok_distinct [OF ok cur] by (simp add: matching_def)
  have same: "i = j" if "i \<in> set ?M" "j \<in> set ?M" "?lit i = ?lit j" for i j
  proof -
    have "st_modifier (nd_seg (ns ! x)) = mod_none" if "x \<in> set ?M" for x
      using assms that by (auto simp: matching_def plain_pool_def)
    with that have "seg_eq (nd_seg (ns ! i)) (nd_seg (ns ! j))"
      by (auto simp: seg_eq_def matching_def seg_match_def)
    with pool_okD(4) [OF ok cur] that show ?thesis by (auto simp: matching_def)
  qed
  have "sorted (child_precedences ns (nd_child_idx (ns ! cur)))"
    using assms(1) cur by (simp add: plain_pool_def pool_sorted_def)
  then have sort: "sorted (map (\<lambda>i. precedence (nd_seg (ns ! i))) ?M)"
    unfolding matching_def child_precedences_def by (rule sorted_filter)
  have "\<not> (\<exists>a b c zs. ?M = a # b # c # zs)"
  proof
    assume "\<exists>a b c zs. ?M = a # b # c # zs"
    then obtain a b c zs where m: "?M = a # b # c # zs" by blast
    with dist have "a \<noteq> b" "a \<noteq> c" "b \<noteq> c" by auto
    with same [of a b] same [of a c] same [of b c] m show False by auto
  qed
  with three_or_more [of ?M] have "length ?M \<le> 2" by blast
  then consider "?M = []" | i where "?M = [i]" | i j where "?M = [i, j]"
    by (cases ?M; cases "tl ?M") auto
  then show thesis
  proof cases
    case (3 i j)
    then have "?lit i \<noteq> ?lit j" using same [of i j] dist by auto
    moreover have "precedence (nd_seg (ns ! i)) \<le> precedence (nd_seg (ns ! j))" using sort 3 by simp
    ultimately have "?lit i" "\<not> ?lit j" by (auto simp: precedence_def split: if_splits)
    with 3 that(3) show thesis by blast
  qed (use that in blast)+
qed

section \<open>The search without a buffer\<close>

fun first_some :: "('a \<Rightarrow> 'b option) \<Rightarrow> 'a list \<Rightarrow> 'b option" where
  "first_some f [] = None"
| "first_some f (x # xs) = (case f x of None \<Rightarrow> first_some f xs | Some y \<Rightarrow> Some y)"

lemma first_some_filter: "first_some (\<lambda>x. if P x then f x else None) xs = first_some f (filter P xs)"
  by (induction xs) (auto split: option.split)

primrec dfs :: "'d lib \<Rightarrow> 'r pool \<Rightarrow> string list \<Rightarrow> nat \<Rightarrow> nat option" where
  "dfs L ns [] cur = (if nd_resource (ns ! cur) = None then None else Some cur)"
| "dfs L ns (s # rest) cur = first_some (\<lambda>i. if seg_match L (nd_seg (ns ! i)) s then dfs L ns rest i else None)
     (nd_child_idx (ns ! cur))"

lemma dfs_matching: "dfs L ns (s # rest) cur = first_some (dfs L ns rest) (matching L ns cur s)"
  by (simp add: first_some_filter matching_def)

text \<open>A path without dot segments, as it is compared: decoded.\<close>

definition no_dots :: "'d lib \<Rightarrow> string list \<Rightarrow> bool" where
  "no_dots L segs \<longleftrightarrow> list_all (\<lambda>s. lib_pct_decode L s \<noteq> ''.'' \<and> lib_pct_decode L s \<noteq> ''..'') segs"

lemma no_optional:
  assumes "plain_pool ns" and "reachable ns cur" and "nd_resource (ns ! cur) = None"
  shows "find_optional_resource ns (Suc n) cur m = ret (None, m)"
proof -
  have ok: "pool_ok ns" using assms(1) by (simp add: plain_pool_def)
  note cur = reachable_bound [OF ok assms(2)]
  have "optional_children rec ns is m = ret (None, m)" if "set is \<subseteq> set (nd_child_idx (ns ! cur))" for "is" rec
    using that
  proof (induction "is")
    case (Cons i "is")
    then have i: "i \<in> set (nd_child_idx (ns ! cur))" by simp
    with assms(1,2) have "st_modifier (nd_seg (ns ! i)) = mod_none" by (auto simp: plain_pool_def)
    with Cons pool_okD(2) [OF ok cur i] show ?case by simp
  qed simp
  with cur assms(3) show ?thesis by simp
qed

lemma needs_branch_plain:
  assumes "plain_pool ns" and "reachable ns cur"
  shows "needs_branch L ns s (nd_child_idx (ns ! cur)) = Inr (1 < length (matching L ns cur s))"
proof -
  have ok: "pool_ok ns" using assms(1) by (simp add: plain_pool_def)
  note cur = reachable_bound [OF ok assms(2)]
  have "two_branches L ns s is lb = Inr (1 < lb + length (filter (\<lambda>i. seg_match L (nd_seg (ns ! i)) s) is))"
    if "set is \<subseteq> set (nd_child_idx (ns ! cur))" "lb \<le> 1" for "is" lb
    using that
  proof (induction "is" arbitrary: lb)
    case (Cons i "is")
    then have i: "i \<in> set (nd_child_idx (ns ! cur))" by simp
    with assms have "st_modifier (nd_seg (ns ! i)) = mod_none" by (auto simp: plain_pool_def)
    with Cons pool_okD(2) [OF ok cur i] show ?case by auto
  qed simp
  then have "two_branches L ns s (nd_child_idx (ns ! cur)) 0 = Inr (1 < length (matching L ns cur s))"
    by (simp add: matching_def)
  moreover have "length (matching L ns cur s) \<le> length (nd_child_idx (ns ! cur))"
    by (simp add: matching_def)
  ultimately show ?thesis by (simp add: needs_branch_def)
qed

lemma try_children_matching:
  assumes "\<forall>i \<in> set is. i < length ns"
  shows "try_children L ns segs rec branch s rest level is m =
    try_children L ns segs rec branch s rest level (filter (\<lambda>i. seg_match L (nd_seg (ns ! i)) s) is) m"
  using assms
proof (induction "is" arbitrary: m)
  case (Cons i "is")
  then have "try_children L ns segs rec branch s rest level is =
      try_children L ns segs rec branch s rest level (filter (\<lambda>i. seg_match L (nd_seg (ns ! i)) s) is)"
    by (simp add: fun_eq_iff)
  with Cons.prems show ?case by (simp add: Let_def)
qed simp

text \<open>One segment of the walk, by the children it matches.\<close>

lemma walk_plain_step:
  assumes "plain_pool ns" and "reachable ns cur" and "no_dots L (s # rest)" and "0 \<le> level"
  shows "walk L ns segs rec (s # rest) cur level m =
    run_bind (try_children L ns segs rec (1 < length (matching L ns cur s)) s rest level (matching L ns cur s) m)
      (\<lambda>(out, m'). case out of
          Matched n \<Rightarrow> ret (Some n, m')
        | Moved i \<Rightarrow> walk L ns segs rec rest i level m'
        | NoChild \<Rightarrow> walk L ns segs rec rest cur (level + 1) m')"
proof -
  have ok: "pool_ok ns" using assms(1) by (simp add: plain_pool_def)
  note cur = reachable_bound [OF ok assms(2)]
  have "try_children L ns segs rec b s rest level (nd_child_idx (ns ! cur)) m =
      try_children L ns segs rec b s rest level (matching L ns cur s) m" for b
    unfolding matching_def by (rule try_children_matching) (use pool_okD(2) [OF ok cur] in blast)
  with assms(3,4) cur needs_branch_plain [OF assms(1,2), of L s] show ?thesis
    by (simp add: no_dots_def Let_def)
qed

lemma matching_child:
  assumes "plain_pool ns" and "reachable ns cur" and "i \<in> set (matching L ns cur s)"
  shows "reachable ns i \<and> i < length ns \<and> seg_match L (nd_seg (ns ! i)) s \<and> st_modifier (nd_seg (ns ! i)) = mod_none"
proof -
  have ok: "pool_ok ns" using assms(1) by (simp add: plain_pool_def)
  from assms(3) have i: "i \<in> set (nd_child_idx (ns ! cur))" "seg_match L (nd_seg (ns ! i)) s"
    by (auto simp: matching_def)
  with reachable_child [OF ok assms(2) i(1)] reachable_bound [OF ok] assms(1,2) show ?thesis
    by (auto simp: plain_pool_def)
qed

text \<open>A search that ends with \<open>r\<close> and has used less than \<open>b\<close> places of the buffer.\<close>

definition yields :: "(nat option \<times> match_buffer) run \<Rightarrow> nat option \<Rightarrow> match_buffer \<Rightarrow> nat \<Rightarrow> bool" where
  "yields run r m b \<longleftrightarrow> (\<exists>m'. run = ret (r, m') \<and> mb_pos m' < mb_pos m + b)"

lemma push_match_room:
  "mb_pos m < match_places \<Longrightarrow> \<exists>m'. push_match v i m = Inr m' \<and> mb_pos m' = Suc (mb_pos m)"
  by (simp add: push_match_def)

text \<open>
  The two matching children of a branch: the literal's part of the buffer is not given back
  (it stays below the field's), so the places used may double with each segment.
\<close>

lemma branch_step:
  assumes i: "i < length ns" "seg_match L (nd_seg (ns ! i)) s" "st_is_literal (nd_seg (ns ! i))"
    and j: "j < length ns" "seg_match L (nd_seg (ns ! j)) s" "\<not> st_is_literal (nd_seg (ns ! j))"
      "st_modifier (nd_seg (ns ! j)) = mod_none"
    and ri: "\<And>m. mb_pos m + b \<le> Suc match_places \<Longrightarrow> yields (rec rest i level m) ri m b"
    and rj: "\<And>m. mb_pos m + b \<le> Suc match_places \<Longrightarrow> yields (rec rest j level m) rj m b"
    and go: "\<And>m. mb_pos m + b \<le> Suc match_places \<Longrightarrow> yields (go m) None m b"
    and room: "mb_pos m + 2 * b \<le> Suc match_places" "0 < b"
  shows "yields (run_bind (try_children L ns segs rec True s rest level [i, j] m)
      (\<lambda>(out, m'). case out of Matched n \<Rightarrow> ret (Some n, m') | Moved i \<Rightarrow> other i m' | NoChild \<Rightarrow> go m'))
    (case ri of None \<Rightarrow> rj | Some n \<Rightarrow> ri) m (2 * b)"
proof -
  from ri [of m] room obtain m1 where m1: "rec rest i level m = ret (ri, m1)" "mb_pos m1 < mb_pos m + b"
    by (auto simp: yields_def)
  show ?thesis
  proof (cases ri)
    case (Some n)
    with m1 i room show ?thesis by (simp add: Let_def yields_def) (auto simp: ret_def)
  next
    case None
    let ?k = "length segs - Suc (length rest)"
    from m1 room obtain m2 where m2: "push_match (Segments ?k (Suc ?k)) (seg_id (nd_seg (ns ! j))) m1 = Inr m2"
      "mb_pos m2 = Suc (mb_pos m1)" using push_match_room [of m1] by auto
    from rj [of m2] m1 m2 room obtain m3 where m3: "rec rest j level m2 = ret (rj, m3)" "mb_pos m3 < mb_pos m2 + b"
      by (auto simp: yields_def)
    show ?thesis
    proof (cases rj)
      case (Some n)
      with None m1 m2 m3 i j show ?thesis by (simp add: Let_def yields_def) (auto simp: ret_def)
    next
      case rjN: None
      have "mb_pos (rewind m1 m3) = mb_pos m1" by (simp add: rewind_def)
      with go [of "rewind m1 m3"] m1 room have "yields (go (rewind m1 m3)) None m (2 * b)"
        by (auto simp: yields_def)
      with None rjN m1 m2 m3 i j show ?thesis by (simp add: Let_def)
    qed
  qed
qed

lemma single_step:
  assumes i: "i < length ns" "seg_match L (nd_seg (ns ! i)) s" "st_modifier (nd_seg (ns ! i)) = mod_none"
    and ri: "\<And>m. mb_pos m + b \<le> Suc match_places \<Longrightarrow> yields (other i m) ri m b"
    and room: "mb_pos m + 2 * b \<le> Suc match_places" "0 < b"
  shows "yields (run_bind (try_children L ns segs rec False s rest level [i] m)
      (\<lambda>(out, m'). case out of Matched n \<Rightarrow> ret (Some n, m') | Moved i \<Rightarrow> other i m' | NoChild \<Rightarrow> go m'))
    ri m (2 * b)"
proof (cases "st_is_literal (nd_seg (ns ! i))")
  case True
  with i ri [of m] room show ?thesis by (auto simp: Let_def yields_def)
next
  case False
  let ?k = "length segs - Suc (length rest)"
  obtain m2 where m2: "push_match (Segments ?k (Suc ?k)) (seg_id (nd_seg (ns ! i))) m = Inr m2"
    "mb_pos m2 = Suc (mb_pos m)" using push_match_room [of m] room by auto
  with False i ri [of m2] room show ?thesis by (auto simp: Let_def yields_def)
qed

lemma try_match_dfs:
  assumes "plain_pool ns"
  shows "reachable ns cur \<Longrightarrow> no_dots L rest \<Longrightarrow> 0 \<le> level \<Longrightarrow> length rest < n \<Longrightarrow>
    mb_pos m + 2 ^ length rest \<le> Suc match_places \<Longrightarrow>
    yields (try_match L ns segs n rest cur level m) (if level = 0 then dfs L ns rest cur else None) m (2 ^ length rest)"
proof (induction rest arbitrary: cur level m n)
  case Nil
  then obtain k where n: "n = Suc k" by (cases n) auto
  have "cur < length ns" using Nil.prems(1) assms reachable_bound by (auto simp: plain_pool_def)
  with no_optional [OF assms Nil.prems(1)] show ?case
    by (cases "nd_resource (ns ! cur)") (simp_all add: n yields_def ret_def del: find_optional_resource.simps)
next
  case (Cons s rest)
  from Cons.prems(4) obtain k where n: "n = Suc k" "length rest < k" by (cases n) auto
  let ?rec = "try_match L ns segs k" and ?M = "matching L ns cur s" and ?b = "2 ^ length rest :: nat"
  have dots: "no_dots L rest" using Cons.prems(2) by (simp add: no_dots_def)
  have IH: "yields (try_match L ns segs n' rest i level' m') (if level' = 0 then dfs L ns rest i else None) m' ?b"
    if "reachable ns i" "0 \<le> level'" "mb_pos m' + ?b \<le> Suc match_places" "length rest < n'" for i level' m' n'
    using Cons.IH [OF that(1) dots that(2,4,3)] .
  have walk: "yields (walk L ns segs ?rec rest i level' m') (if level' = 0 then dfs L ns rest i else None) m' ?b"
    if "reachable ns i" "0 \<le> level'" "mb_pos m' + ?b \<le> Suc match_places" for i level' m'
    using IH [OF that, of "Suc k"] n(2) by simp
  have go: "yields (walk L ns segs ?rec rest cur (level + 1) m') None m' ?b"
    if "mb_pos m' + ?b \<le> Suc match_places" for m'
    using walk [OF Cons.prems(1) _ that, of "level + 1"] Cons.prems(3) by simp
  have room: "mb_pos m + 2 * ?b \<le> Suc match_places" "0 < ?b" using Cons.prems(5) by simp_all
  note step = walk_plain_step [OF assms Cons.prems(1-3), of segs ?rec m]
  have child: "reachable ns i \<and> i < length ns \<and> seg_match L (nd_seg (ns ! i)) s \<and>
      st_modifier (nd_seg (ns ! i)) = mod_none" if "i \<in> set ?M" for i
    using matching_child [OF assms Cons.prems(1) that] .
  from assms Cons.prems(1) have "yields (walk L ns segs ?rec (s # rest) cur level m)
      (if level = 0 then first_some (dfs L ns rest) ?M else None) m (2 * ?b)"
  proof (cases rule: matching_cases [where L = L and s = s])
    case 1
    with go [of m] room show ?thesis unfolding step by (auto simp: yields_def)
  next
    case (2 i)
    let ?r = "if level = 0 then dfs L ns rest i else None"
    have "yields (walk L ns segs ?rec (s # rest) cur level m) ?r m (2 * ?b)"
    proof -
      have one: "(1 < length [i]) = False" by simp
      have i: "reachable ns i" "i < length ns" "seg_match L (nd_seg (ns ! i)) s"
        "st_modifier (nd_seg (ns ! i)) = mod_none" using child [of i] 2 by auto
      show ?thesis
        unfolding step one 2 by (rule single_step [OF i(2-4) _ room]) (rule walk [OF i(1) Cons.prems(3)])
    qed
    moreover have "first_some (dfs L ns rest) ?M = dfs L ns rest i" using 2 by (cases "dfs L ns rest i") auto
    ultimately show ?thesis by (simp only:)
  next
    case (3 i j)
    let ?r = "\<lambda>i. if level = 0 then dfs L ns rest i else None"
    have "yields (walk L ns segs ?rec (s # rest) cur level m)
        (case ?r i of None \<Rightarrow> ?r j | Some n \<Rightarrow> ?r i) m (2 * ?b)"
    proof -
      have two: "(1 < length [i, j]) = True" by simp
      have i: "reachable ns i" "i < length ns" "seg_match L (nd_seg (ns ! i)) s"
        and j: "reachable ns j" "j < length ns" "seg_match L (nd_seg (ns ! j)) s"
          "st_modifier (nd_seg (ns ! j)) = mod_none" using child [of i] child [of j] 3(1) by auto
      show ?thesis
        unfolding step two 3(1)
        by (rule branch_step [OF i(2,3) 3(2) j(2,3) 3(3) j(4) _ _ go room])
          (rule IH [OF i(1) Cons.prems(3) _ n(2)] IH [OF j(1) Cons.prems(3) _ n(2)], assumption)+
    qed
    moreover have "(case ?r i of None \<Rightarrow> ?r j | Some n \<Rightarrow> ?r i) =
        (if level = 0 then first_some (dfs L ns rest) ?M else None)"
      by (cases "dfs L ns rest i"; cases "dfs L ns rest j"; simp add: 3(1))
    ultimately show ?thesis by (simp only:)
  qed
  then show ?case by (simp only: n(1) try_match.simps(2) dfs_matching length_Cons power_Suc)
qed

end
