(* ===== verification/Router_Spec.thy ===== *)
theory Router_Spec
  imports Router_Best
begin

text \<open>
  What the router promises for a table of templates without modifiers: the resource of the
  best matching template.
\<close>

section \<open>The best template\<close>

definition template_matches :: "'d lib \<Rightarrow> segment_template list \<Rightarrow> string list \<Rightarrow> bool" where
  "template_matches L ts segs = list_all2 (seg_match L) ts segs"

text \<open>\<open>preferred ts us\<close>: the templates are equal, or \<open>ts\<close> has a literal where they first differ.\<close>

fun preferred :: "segment_template list \<Rightarrow> segment_template list \<Rightarrow> bool" where
  "preferred (t # ts) (u # us) = (if seg_eq t u then preferred ts us else st_is_literal t)"
| "preferred ts us = True"

definition best_match :: "'d lib \<Rightarrow> (segment_template list, 'r) kv \<Rightarrow> string list \<Rightarrow> 'r option \<Rightarrow> bool" where
  "best_match L m segs r \<longleftrightarrow>
     (case r of
        None \<Rightarrow> \<forall>(us, w) \<in> set m. \<not> template_matches L us segs
      | Some v \<Rightarrow> \<exists>(ts, w) \<in> set m. w = v \<and> template_matches L ts segs \<and>
          (\<forall>(us, w) \<in> set m. template_matches L us segs \<longrightarrow> preferred ts us))"

lemma seg_match_cong: "seg_eq t u \<Longrightarrow> seg_match L t s = seg_match L u s"
  by (auto simp: seg_eq_def seg_match_def split: if_splits)

lemma template_matches_cong: "same_template ts us \<Longrightarrow> template_matches L ts segs = template_matches L us segs"
  unfolding same_template_def template_matches_def
  by (induction ts us arbitrary: segs rule: list_all2_induct) (auto simp: list_all2_Cons1 seg_match_cong)

lemma preferred_cong:
  "same_template ts us \<Longrightarrow> same_template us' ts' \<Longrightarrow> preferred ts ts' = preferred us us'"
  unfolding same_template_def
proof (induction ts us arbitrary: ts' us' rule: list_all2_induct)
  case (Cons t ts u us)
  show ?case
  proof (cases us')
    case Nil
    with Cons.prems show ?thesis by simp
  next
    case (Cons u' vs')
    with Cons.prems obtain t' vs where ts': "ts' = t' # vs" "seg_eq u' t'" "list_all2 seg_eq vs' vs"
      by (auto simp: list_all2_Cons1)
    have "seg_eq t t' = seg_eq u u'"
      using Cons.hyps(1) ts'(2) by (blast intro: seg_eq_trans seg_eq_sym)
    moreover have "st_is_literal t = st_is_literal u"
      using Cons.hyps(1) by (auto simp: seg_eq_def split: if_splits)
    ultimately show ?thesis using Cons.IH [OF ts'(3)] Cons ts' by simp
  qed
qed simp

section \<open>The depth-first search finds it\<close>

lemma first_some_None: "first_some f xs = None \<longleftrightarrow> (\<forall>x \<in> set xs. f x = None)"
  by (induction xs) (auto split: option.splits)

text \<open>A template that matches goes through one of the matching children.\<close>

lemma descend_matching:
  assumes "template_matches L us (s # rest)" and "descend ns cur us = Some k"
  obtains u us' i where "us = u # us'" "i \<in> set (matching L ns cur s)" "seg_eq (nd_seg (ns ! i)) u"
    "template_matches L us' rest" "descend ns i us' = Some k"
proof -
  from assms(1) obtain u us' where us: "us = u # us'" "seg_match L u s" "template_matches L us' rest"
    by (auto simp: template_matches_def list_all2_Cons2)
  with assms(2) obtain i where i: "child_for ns cur u = Some i" "descend ns i us' = Some k"
    by (auto split: option.splits)
  note c = child_for_SomeD [OF i(1)]
  with us(2) seg_match_cong [of "nd_seg (ns ! i)" u L s] have "i \<in> set (matching L ns cur s)"
    by (auto simp: matching_def)
  with us i c that show thesis by blast
qed

lemma dfs_none:
  "dfs L ns segs cur = None \<Longrightarrow> template_matches L us segs \<Longrightarrow> descend ns cur us = Some k \<Longrightarrow>
    nd_resource (ns ! k) = None"
proof (induction segs arbitrary: cur us)
  case Nil
  then show ?case by (auto simp: template_matches_def split: if_splits)
next
  case (Cons s rest)
  from Cons.prems(2,3) obtain u us' i where "i \<in> set (matching L ns cur s)" "template_matches L us' rest"
    "descend ns i us' = Some k" by (rule descend_matching)
  with Cons.prems(1) Cons.IH show ?case by (auto simp only: dfs_matching first_some_None)
qed

text \<open>\<open>ts\<close> leads from \<open>cur\<close> to the resource of \<open>j\<close>, and is preferred to all that lead to one.\<close>

definition leads_best :: "'d lib \<Rightarrow> 'r pool \<Rightarrow> nat \<Rightarrow> string list \<Rightarrow> segment_template list \<Rightarrow> nat \<Rightarrow> bool" where
  "leads_best L ns cur segs ts j \<longleftrightarrow>
     descend ns cur ts = Some j \<and> template_matches L ts segs \<and> nd_resource (ns ! j) \<noteq> None \<and>
     (\<forall>us k. template_matches L us segs \<longrightarrow> descend ns cur us = Some k \<longrightarrow> nd_resource (ns ! k) \<noteq> None \<longrightarrow>
        preferred ts us)"

lemma leads_best_Cons:
  assumes "plain_pool ns" and "reachable ns cur" and "i \<in> set (matching L ns cur s)"
    and "leads_best L ns i rest ts j"
    and other: "\<And>i' u. i' \<in> set (matching L ns cur s) \<Longrightarrow> i' \<noteq> i \<Longrightarrow>
      st_is_literal (nd_seg (ns ! i)) \<or> dfs L ns rest i' = None"
  shows "leads_best L ns cur (s # rest) (nd_seg (ns ! i) # ts) j"
proof -
  have ok: "pool_ok ns" using assms(1) by (simp add: plain_pool_def)
  note cur = reachable_bound [OF ok assms(2)]
  have i: "i \<in> set (nd_child_idx (ns ! cur))" "seg_match L (nd_seg (ns ! i)) s"
    using assms(3) by (auto simp: matching_def)
  have "preferred (nd_seg (ns ! i) # ts) us"
    if "template_matches L us (s # rest)" "descend ns cur us = Some k" "nd_resource (ns ! k) \<noteq> None" for us k
    using that(1,2)
  proof (rule descend_matching)
    fix u us' i'
    assume us: "us = u # us'" "i' \<in> set (matching L ns cur s)" "seg_eq (nd_seg (ns ! i')) u"
      "template_matches L us' rest" "descend ns i' us' = Some k"
    show ?thesis
    proof (cases "seg_eq (nd_seg (ns ! i)) u")
      case True
      have "i' \<in> set (nd_child_idx (ns ! cur))" using us(2) by (simp add: matching_def)
      from pool_okD(4) [OF ok cur this i(1) seg_eq_trans [OF us(3) seg_eq_sym [OF True]]] have "i' = i" .
      with us that(3) assms(4) True show ?thesis by (auto simp: leads_best_def)
    next
      case False
      with us(3) have "i' \<noteq> i" by blast
      moreover have "dfs L ns rest i' \<noteq> None" using dfs_none [OF _ us(4,5)] that(3) by blast
      ultimately show ?thesis using other [OF us(2)] False us(1) by auto
    qed
  qed
  with assms(4) i child_for_eqI [OF ok cur i(1) seg_eq_refl] show ?thesis
    by (simp add: leads_best_def template_matches_def)
qed

lemma dfs_best:
  assumes "plain_pool ns"
  shows "reachable ns cur \<Longrightarrow> dfs L ns segs cur = Some j \<Longrightarrow> \<exists>ts. leads_best L ns cur segs ts j"
proof (induction segs arbitrary: cur)
  case Nil
  then have "leads_best L ns cur [] [] j"
    by (auto simp: leads_best_def template_matches_def split: if_splits)
  then show ?case by blast
next
  case (Cons s rest)
  from Cons.prems(2) have found: "first_some (dfs L ns rest) (matching L ns cur s) = Some j"
    by (simp only: dfs_matching)
  have step: "\<exists>ts. leads_best L ns cur (s # rest) ts j"
    if "i \<in> set (matching L ns cur s)" "dfs L ns rest i = Some j"
      "\<And>i'. i' \<in> set (matching L ns cur s) \<Longrightarrow> i' \<noteq> i \<Longrightarrow>
        st_is_literal (nd_seg (ns ! i)) \<or> dfs L ns rest i' = None" for i
  proof -
    have "reachable ns i" using matching_child [OF assms Cons.prems(1) that(1)] by blast
    from Cons.IH [OF this that(2)] obtain ts where "leads_best L ns i rest ts j" by blast
    from leads_best_Cons [OF assms Cons.prems(1) that(1) this that(3)] show ?thesis by blast
  qed
  from assms Cons.prems(1) show ?case
  proof (cases rule: matching_cases [where L = L and s = s])
    case 1
    with found show ?thesis by simp
  next
    case (2 i)
    with found step [of i] show ?thesis by (auto split: option.splits)
  next
    case (3 i i')
    with found step [of i] step [of i'] show ?thesis
      by (cases "dfs L ns rest i"; cases "dfs L ns rest i'") auto
  qed
qed

section \<open>The router\<close>

lemma router_find_yields:
  assumes "pool_ok ns" and "segs \<noteq> []"
    and "try_match L ns segs (match_fuel ns segs) segs 0 0 matches_storage = ret (r, m)"
    and "\<And>j. r = Some j \<Longrightarrow> j < length ns"
  shows "router_find L ns segs =
    ret (case r of None \<Rightarrow> (None, [])
         | Some j \<Rightarrow> (nd_resource (ns ! j),
             zip (take (mb_pos m) (mb_ids m)) (map (view_text segs) (take (mb_pos m) (mb_matches m)))))"
  using assms by (auto simp: router_find_def find_impl_def split: option.split)

text \<open>
  C11: in a table of templates without modifiers, a path of one to four segments, none of them a
  dot segment, finds the resource of the best matching template -- a literal wins over a field at the first
  segment where two matching templates differ -- and finds nothing exactly if no template
  matches.
\<close>

theorem router_finds_best_route:
  assumes "\<forall>r \<in> set routes. routable L (fst r) \<and> plain (template_of L (fst r))"
    and "insert_all L routes router_empty = Inr ns"
    and "segs \<noteq> []" and "length segs \<le> 4" and "no_dots L segs"
  shows "\<exists>r bs. router_find L ns segs = Some (Inr (r, bs)) \<and> best_match L (route_table L routes) segs r"
proof -
  let ?m = "route_table L routes"
  from assms(1,2) insert_all_represents [of routes L] have
    rep: "represents (set (map (template_of L \<circ> fst) routes)) ?m ns" by auto
  then have pp: "plain_pool ns" by (rule represents_plain) (use assms(1) in auto)
  then have ok: "pool_ok ns" by (simp add: plain_pool_def)
  have table: "resource_of ns us = kv_find same_template us ?m" for us
    using rep by (simp add: represents_def)
  have dist: "kv_distinct same_template ?m"
    unfolding route_table_def
    by (rule fold_invariant [where Q = "\<lambda>_. True"]) (auto intro: template_key.distinct_insert_or_assign)
  have "(2 :: nat) ^ length segs \<le> 2 ^ 4" using assms(4) by (intro power_increasing) auto
  then have "yields (try_match L ns segs (match_fuel ns segs) segs 0 0 matches_storage) (dfs L ns segs 0)
      matches_storage (2 ^ length segs)"
    using try_match_dfs [OF pp reachable_root assms(5), of 0 "match_fuel ns segs" matches_storage segs]
    by (simp add: matches_storage_def match_places_def match_fuel_def)
  then obtain m where run: "try_match L ns segs (match_fuel ns segs) segs 0 0 matches_storage =
      ret (dfs L ns segs 0, m)" by (auto simp: yields_def)
  have entry: "resource_of ns us = Some w" if "(us, w) \<in> set ?m" for us w
    using template_key.find_entry [OF dist that] table by simp
  show ?thesis
  proof (cases "dfs L ns segs 0")
    case None
    have "\<not> template_matches L us segs" if "(us, w) \<in> set ?m" for us w
      using entry [OF that] dfs_none [OF None, of us] by (auto simp: resource_of_def split: option.splits)
    with router_find_yields [OF ok assms(3) run] None show ?thesis by (auto simp: best_match_def ret_def)
  next
    case (Some j)
    from dfs_best [OF pp reachable_root this] obtain ts where ts: "leads_best L ns 0 segs ts j" by blast
    then obtain v where v: "nd_resource (ns ! j) = Some v" "descend ns 0 ts = Some j"
      by (auto simp: leads_best_def)
    then have "kv_find same_template ts ?m = Some v" using table [of ts] by (simp add: resource_of_def)
    from template_key.find_SomeD [OF this] obtain ts' where
      ts': "same_template ts' ts" "(ts', v) \<in> set ?m" by blast
    have "preferred ts' us" if "(us, w) \<in> set ?m" "template_matches L us segs" for us w
    proof -
      from entry [OF that(1)] obtain k where "descend ns 0 us = Some k" "nd_resource (ns ! k) = Some w"
        by (auto simp: resource_of_def split: option.splits)
      with ts that(2) have "preferred ts us" by (auto simp: leads_best_def)
      then show ?thesis using preferred_cong [OF ts'(1) template_key.eq_refl] by simp
    qed
    moreover have "template_matches L ts' segs"
      using ts template_matches_cong [OF ts'(1), of L segs] by (simp add: leads_best_def)
    ultimately have "best_match L ?m segs (Some v)" using ts'(2) by (fastforce simp: best_match_def)
    moreover have "j < length ns" using descend_bounds [OF ok pool_ok_nonempty [OF ok] v(2)] by simp
    ultimately show ?thesis
      using router_find_yields [OF ok assms(3) run] Some v by (auto simp: ret_def)
  qed
qed

theorem router_finds_best_route_witness:
  "\<exists>ns bs. insert_all ref_lib [(''/{a}/x'', 1), (''/b/{c}'', 2 :: nat)] router_empty = Inr ns \<and>
     router_find ref_lib ns [''b'', ''x''] = Some (Inr (Some 2, bs))"
proof -
  let ?routes = "[(''/{a}/x'', 1), (''/b/{c}'', 2 :: nat)]"
  have r: "\<forall>r \<in> set ?routes. routable ref_lib (fst r) \<and> plain (template_of ref_lib (fst r))" by code_simp
  then have "\<forall>r \<in> set ?routes. routable ref_lib (fst r)" by blast
  from insert_all_represents [OF this] obtain ns where ns: "insert_all ref_lib ?routes router_empty = Inr ns" by blast
  have "no_dots ref_lib [''b'', ''x'']" by code_simp
  from router_finds_best_route [OF r ns _ _ this] obtain res bs where
    found: "router_find ref_lib ns [''b'', ''x''] = Some (Inr (res, bs))"
    and "best_match ref_lib (route_table ref_lib ?routes) [''b'', ''x''] res" by auto
  moreover have "\<not> best_match ref_lib (route_table ref_lib ?routes) [''b'', ''x''] None"
    "\<not> best_match ref_lib (route_table ref_lib ?routes) [''b'', ''x''] (Some 1)" by code_simp+
  moreover have "v = 1 \<or> v = 2"
    if "best_match ref_lib (route_table ref_lib ?routes) [''b'', ''x''] (Some v)" for v
  proof -
    have "v \<in> set (map snd (route_table ref_lib ?routes))" using that by (force simp: best_match_def)
    moreover have "map snd (route_table ref_lib ?routes) = [1, 2]" by code_simp
    ultimately have "v \<in> set [1, 2]" by (simp only:)
    then show ?thesis by simp
  qed
  ultimately have "res = Some 2" by (cases res) auto
  with ns found show ?thesis by blast
qed

end
