(* ===== verification/Router_Bindings.thy ===== *)
theory Router_Bindings
  imports Router_Spec
begin

text \<open>
  Tables in which no two templates compete: where two templates agree up to a segment, both
  go on with a literal or both with the same field.  The routes of the service are of this
  kind.  The search then never branches, and the ids and matches it stores are those of the
  template it finds.
\<close>

section \<open>Templates that do not compete\<close>

fun compatible :: "segment_template list \<Rightarrow> segment_template list \<Rightarrow> bool" where
  "compatible (t # ts) (u # us) =
     (st_is_literal t = st_is_literal u \<and> (if seg_eq t u then t = u \<and> compatible ts us else True))"
| "compatible ts us = True"

definition is_field :: "segment_template \<Rightarrow> bool" where
  "is_field t = (\<not> st_is_literal t)"

definition field_count :: "segment_template list \<Rightarrow> nat" where
  "field_count ts = length (filter is_field ts)"

text \<open>What the handler is told: the id of each field with the segment it matched.\<close>

definition bindings :: "segment_template list \<Rightarrow> string list \<Rightarrow> (string \<times> string) list" where
  "bindings ts segs = map (\<lambda>(t, s). (seg_id t, s)) (filter (\<lambda>(t, s). is_field t) (zip ts segs))"

lemma fields_simps [simp]:
  "field_count [] = 0" "field_count (t # ts) = (if is_field t then Suc (field_count ts) else field_count ts)"
  "field_count (ts @ us) = field_count ts + field_count us"
  by (simp_all add: field_count_def)

lemma fields_take: "field_count (take k ts) \<le> field_count ts"
proof -
  have "field_count ts = field_count (take k ts) + field_count (drop k ts)"
    by (metis append_take_drop_id fields_simps(3))
  then show ?thesis by simp
qed

lemma fields_cong: "same_template ts us \<Longrightarrow> field_count ts = field_count us"
  unfolding same_template_def
  by (induction ts us rule: list_all2_induct) (auto simp: is_field_def seg_eq_def split: if_splits)

lemma compatible_nth:
  "compatible ts us \<Longrightarrow> same_template (take k ts) (take k us) \<Longrightarrow> k < length ts \<Longrightarrow> k < length us \<Longrightarrow>
    st_is_literal (ts ! k) = st_is_literal (us ! k) \<and> (seg_eq (ts ! k) (us ! k) \<longrightarrow> ts ! k = us ! k)"
proof (induction ts us arbitrary: k rule: compatible.induct)
  case (1 t ts u us)
  show ?case
  proof (cases k)
    case (Suc n)
    with 1 show ?thesis by (simp add: same_template_def)
  qed (use 1 in \<open>auto split: if_splits\<close>)
qed simp_all

lemma compatible_matches_eq:
  "compatible ts us \<Longrightarrow> plain ts \<Longrightarrow> plain us \<Longrightarrow> template_matches L ts segs \<Longrightarrow> template_matches L us segs \<Longrightarrow>
    ts = us"
proof (induction ts us arbitrary: segs rule: compatible.induct)
  case (1 t ts u us)
  then obtain s rest where segs: "segs = s # rest" "seg_match L t s" "seg_match L u s"
    "template_matches L ts rest" "template_matches L us rest"
    by (auto simp: template_matches_def list_all2_Cons1)
  with 1 have "seg_eq t u" by (auto simp: seg_eq_def seg_match_def plain_def)
  with 1 segs show ?case by (auto simp: plain_def)
qed (auto simp: template_matches_def)

section \<open>Pools of such tables\<close>

definition clear_pool :: "'r pool \<Rightarrow> bool" where
  "clear_pool ns \<longleftrightarrow> plain_pool ns \<and>
     (\<forall>i c d. reachable ns i \<longrightarrow> c \<in> set (nd_child_idx (ns ! i)) \<longrightarrow> d \<in> set (nd_child_idx (ns ! i)) \<longrightarrow>
        st_is_literal (nd_seg (ns ! c)) = st_is_literal (nd_seg (ns ! d))) \<and>
     (\<forall>us j. descend ns 0 us = Some j \<longrightarrow> field_count us \<le> match_places)"

text \<open>A node's segment, by a template it is on.\<close>

lemma represents_child:
  assumes "represents T m ns" and "descend ns 0 us = Some i" and "c \<in> set (nd_child_idx (ns ! i))"
  obtains ts where "ts \<in> T" "length us < length ts" "same_template us (take (length us) ts)"
    "nd_seg (ns ! c) = ts ! length us"
proof -
  have "pool_ok ns" using assms(1) by (simp add: represents_def)
  from descend_child [OF this assms(2,3)] assms(1) obtain ts k where
    ts: "ts \<in> T" "k < length ts" "same_template (us @ [nd_seg (ns ! c)]) (take (Suc k) ts)" "nd_seg (ns ! c) = ts ! k"
    unfolding represents_def by blast
  then have k: "k = length us" by (auto simp: same_template_def dest: list_all2_lengthD)
  with ts have "same_template us (take k ts)"
    by (simp add: same_template_def take_Suc_conv_app_nth list_all2_append)
  with ts k that show thesis by blast
qed

lemma represents_clear:
  assumes "represents T m ns" and "\<And>ts. ts \<in> T \<Longrightarrow> plain ts \<and> field_count ts \<le> match_places"
    and "\<And>ts us. ts \<in> T \<Longrightarrow> us \<in> T \<Longrightarrow> compatible ts us"
  shows "clear_pool ns"
proof -
  have "st_is_literal (nd_seg (ns ! c)) = st_is_literal (nd_seg (ns ! d))"
    if "descend ns 0 us = Some i" "c \<in> set (nd_child_idx (ns ! i))" "d \<in> set (nd_child_idx (ns ! i))" for us i c d
  proof -
    from represents_child [OF assms(1) that(1,2)] obtain ts where ts: "ts \<in> T" "length us < length ts"
      "same_template us (take (length us) ts)" "nd_seg (ns ! c) = ts ! length us" .
    from represents_child [OF assms(1) that(1,3)] obtain vs where vs: "vs \<in> T" "length us < length vs"
      "same_template us (take (length us) vs)" "nd_seg (ns ! d) = vs ! length us" .
    from template_key.eq_trans [OF template_key.eq_sym [OF ts(3)] vs(3)]
    have "same_template (take (length us) ts) (take (length us) vs)" .
    from compatible_nth [OF assms(3) [OF ts(1) vs(1)] this ts(2) vs(2)] ts(4) vs(4) show ?thesis by simp
  qed
  moreover have "field_count us \<le> match_places" if "descend ns 0 us = Some j" for us j
  proof (cases "us = []")
    case False
    with assms(1) that obtain ts k where "ts \<in> T" "same_template us (take k ts)"
      unfolding represents_def by blast
    with assms(2) [of ts] fields_cong [of us "take k ts"] fields_take [of k ts] show ?thesis by simp
  qed simp
  ultimately show ?thesis
    using represents_plain [OF assms(1)] assms(2) unfolding clear_pool_def reachable_def by blast
qed

section \<open>The walk without branches\<close>

definition buffer_ok :: "match_buffer \<Rightarrow> bool" where
  "buffer_ok m \<longleftrightarrow> length (mb_matches m) = match_places \<and> length (mb_ids m) = match_places"

definition content :: "match_buffer \<Rightarrow> (string \<times> view) list" where
  "content m = zip (take (mb_pos m) (mb_ids m)) (take (mb_pos m) (mb_matches m))"

lemma push_match_content:
  assumes "buffer_ok m" and "mb_pos m < match_places"
  obtains m' where "push_match v i m = Inr m'" "buffer_ok m'" "mb_pos m' = Suc (mb_pos m)"
    "content m' = content m @ [(i, v)]"
  using assms by (auto simp: push_match_def buffer_ok_def content_def take_Suc_conv_app_nth zip_append)

text \<open>What a template stores when it matches from segment \<open>k\<close> on.\<close>

fun trail :: "nat \<Rightarrow> segment_template list \<Rightarrow> (string \<times> view) list" where
  "trail k [] = []"
| "trail k (t # ts) = (if is_field t then [(seg_id t, Segments k (Suc k))] else []) @ trail (Suc k) ts"

text \<open>The segments of the nodes themselves on the way from one node to another.\<close>

primrec exact :: "'r pool \<Rightarrow> segment_template list \<Rightarrow> nat \<Rightarrow> nat \<Rightarrow> bool" where
  "exact ns [] cur j = (cur = j)"
| "exact ns (t # ts) cur j = (\<exists>i \<in> set (nd_child_idx (ns ! cur)). nd_seg (ns ! i) = t \<and> exact ns ts i j)"

lemma exact_descend:
  assumes "pool_ok ns"
  shows "cur < length ns \<Longrightarrow> exact ns ts cur j \<Longrightarrow> descend ns cur ts = Some j"
proof (induction ts arbitrary: cur)
  case (Cons t ts)
  then obtain i where i: "i \<in> set (nd_child_idx (ns ! cur))" "nd_seg (ns ! i) = t" "exact ns ts i j" by auto
  with child_for_eqI [OF assms Cons.prems(1) i(1), of t] Cons.IH [of i] pool_okD(2) [OF assms Cons.prems(1) i(1)]
  show ?case by simp
qed simp

text \<open>A walk that stores the trail of the way it takes.\<close>

definition binds ::
  "'d lib \<Rightarrow> 'r pool \<Rightarrow> (nat option \<times> match_buffer) run \<Rightarrow> nat option \<Rightarrow> match_buffer \<Rightarrow> string list \<Rightarrow> nat \<Rightarrow> nat \<Rightarrow> bool"
where
  "binds L ns run r m rest cur k \<longleftrightarrow>
     (\<exists>m'. run = ret (r, m') \<and>
        (\<forall>j. r = Some j \<longrightarrow> (\<exists>us. exact ns us cur j \<and> template_matches L us rest \<and>
           content m' = content m @ trail k us)))"

lemma clear_step:
  assumes "i < length ns" and "seg_match L (nd_seg (ns ! i)) s" and "st_modifier (nd_seg (ns ! i)) = mod_none"
    and "buffer_ok m" and "is_field (nd_seg (ns ! i)) \<Longrightarrow> mb_pos m < match_places"
  obtains m' where "try_children L ns segs rec False s rest level [i] m = ret (Moved i, m')" "buffer_ok m'"
    "mb_pos m' = mb_pos m + field_count [nd_seg (ns ! i)]"
    "content m' = content m @ trail (length segs - Suc (length rest)) [nd_seg (ns ! i)]"
proof (cases "is_field (nd_seg (ns ! i))")
  case True
  let ?k = "length segs - Suc (length rest)"
  obtain m' where "push_match (Segments ?k (Suc ?k)) (seg_id (nd_seg (ns ! i))) m = Inr m'" "buffer_ok m'"
    "mb_pos m' = Suc (mb_pos m)" "content m' = content m @ [(seg_id (nd_seg (ns ! i)), Segments ?k (Suc ?k))]"
    using push_match_content [OF assms(4) assms(5) [OF True]] .
  with True assms(1-3) that show thesis by (simp add: Let_def is_field_def)
next
  case False
  with assms that show thesis by (simp add: Let_def is_field_def)
qed

lemma walk_binds:
  assumes "clear_pool ns"
  shows "descend ns 0 us = Some cur \<Longrightarrow> no_dots L rest \<Longrightarrow> 0 \<le> level \<Longrightarrow> buffer_ok m \<Longrightarrow> mb_pos m = field_count us \<Longrightarrow>
    length rest \<le> length segs \<Longrightarrow>
    binds L ns (walk L ns segs rec rest cur level m) (if level = 0 then dfs L ns rest cur else None) m rest cur
      (length segs - length rest)"
proof (induction rest arbitrary: us cur level m)
  case Nil
  have pp: "plain_pool ns" using assms by (simp add: clear_pool_def)
  have cur: "reachable ns cur" using Nil.prems(1) by (auto simp: reachable_def)
  then have "cur < length ns" using pp reachable_bound by (auto simp: plain_pool_def)
  with no_optional [OF pp cur] have "walk L ns segs rec [] cur level m = ret (if level = 0 then dfs L ns [] cur else None, m)"
    by (cases "nd_resource (ns ! cur)") (simp_all del: find_optional_resource.simps)
  then show ?case
    by (auto simp: binds_def template_matches_def split: if_splits intro!: exI [of _ "[]"])
next
  case (Cons s rest)
  have pp: "plain_pool ns" and ok: "pool_ok ns" using assms by (simp_all add: clear_pool_def plain_pool_def)
  have cur: "reachable ns cur" using Cons.prems(1) by (auto simp: reachable_def)
  note step = walk_plain_step [OF pp cur Cons.prems(2,3), of segs rec m]
  have dots: "no_dots L rest" using Cons.prems(2) by (simp add: no_dots_def)
  from pp cur show ?case
  proof (cases rule: matching_cases [where L = L and s = s])
    case 1
    with Cons.IH [OF Cons.prems(1) dots, of "level + 1" m] Cons.prems(3-6) show ?thesis
      unfolding step by (cases "level = 0") (auto simp: binds_def dfs_matching simp del: dfs.simps)
  next
    case (2 i)
    let ?t = "nd_seg (ns ! i)" and ?k = "length segs - Suc (length rest)"
    have "i \<in> set (matching L ns cur s)" using 2 by simp
    note child = matching_child [OF pp cur this]
    have i: "i \<in> set (nd_child_idx (ns ! cur))" using \<open>i \<in> set _\<close> by (simp add: matching_def)
    note desc = descend_child [OF ok Cons.prems(1) i]
    from assms desc have room: "field_count (us @ [?t]) \<le> match_places" unfolding clear_pool_def by blast
    obtain m' where m': "try_children L ns segs rec False s rest level [i] m = ret (Moved i, m')" "buffer_ok m'"
      "mb_pos m' = mb_pos m + field_count [?t]" "content m' = content m @ trail ?k [?t]"
      by (rule clear_step [where i = i and m = m and s = s and L = L and ns = ns and segs = segs and rest = rest
            and level = level and rec = rec]) (use child Cons.prems(4,5) room in auto)
    have run: "walk L ns segs rec (s # rest) cur level m = walk L ns segs rec rest i level m'"
      unfolding step 2 using m'(1) by simp
    have "binds L ns (walk L ns segs rec rest i level m') (if level = 0 then dfs L ns rest i else None) m' rest i
        (length segs - length rest)"
      by (rule Cons.IH [OF desc dots Cons.prems(3) m'(2)]) (use m'(3) Cons.prems(5,6) in auto)
    moreover have "dfs L ns (s # rest) cur = dfs L ns rest i"
      unfolding dfs_matching 2 by (cases "dfs L ns rest i") simp_all
    moreover have "Suc ?k = length segs - length rest" using Cons.prems(6) by simp
    moreover have "exact ns (?t # vs) cur j \<and> template_matches L (?t # vs) (s # rest)"
      if "exact ns vs i j" "template_matches L vs rest" for vs j
      using that i child by (auto simp: template_matches_def)
    ultimately have "binds L ns (walk L ns segs rec rest i level m') (if level = 0 then dfs L ns (s # rest) cur else None)
        m (s # rest) cur ?k"
      using m'(4) unfolding binds_def by (fastforce simp del: exact.simps dfs.simps)
    then show ?thesis unfolding run by simp
  next
    case (3 i j)
    then have "i \<in> set (nd_child_idx (ns ! cur))" "j \<in> set (nd_child_idx (ns ! cur))"
      by (metis (no_types, lifting) filter_is_subset list.set_intros matching_def subsetD)+
    with assms cur 3 show ?thesis unfolding clear_pool_def by blast
  qed
qed

section \<open>The router\<close>

lemma trail_texts:
  "template_matches L us rest \<Longrightarrow> drop k segs = rest \<Longrightarrow>
    map (\<lambda>(i, v). (i, view_text segs v)) (trail k us) = bindings us rest"
proof (induction us arbitrary: rest k)
  case (Cons u us)
  then obtain s rest' where rest: "rest = s # rest'" "template_matches L us rest'"
    by (auto simp: template_matches_def list_all2_Cons1)
  with Cons.prems(2) have seg: "take 1 (drop k segs) = [s]" "drop (Suc k) segs = rest'"
    by (simp, metis drop_Suc list.sel(3) tl_drop)
  with Cons.IH [OF rest(2)] rest(1) show ?case by (auto simp: bindings_def)
qed (simp add: bindings_def)

lemma keys_insert_or_assign: "fst ` set (kv_insert_or_assign eq k v m) \<subseteq> insert k (fst ` set m)"
proof (induction m)
  case (Cons x m)
  then show ?case by (cases x) auto
qed simp

lemma route_table_keys: "fst ` set (route_table L routes) \<subseteq> set (map (template_of L \<circ> fst) routes)"
proof -
  have "fst ` set (fold (\<lambda>r. kv_insert_or_assign same_template (template_of L (fst r)) (snd r)) routes m) \<subseteq>
      fst ` set m \<union> set (map (template_of L \<circ> fst) routes)" for m
  proof (induction routes arbitrary: m)
    case (Cons r routes)
    show ?case using Cons.IH [of "kv_insert_or_assign same_template (template_of L (fst r)) (snd r) m"]
        keys_insert_or_assign [of same_template "template_of L (fst r)" "snd r" m] by auto
  qed simp
  from this [of "[]"] show ?thesis by (simp add: route_table_def)
qed

text \<open>The segments of the nodes on the way to a template are those of the template.\<close>

lemma exact_template:
  assumes "represents T m ns" and "\<And>ts us. ts \<in> T \<Longrightarrow> us \<in> T \<Longrightarrow> compatible ts us" and "ts \<in> T"
  shows "descend ns 0 us = Some i \<Longrightarrow> exact ns vs i j \<Longrightarrow> same_template (us @ vs) ts \<Longrightarrow>
    vs = drop (length us) ts"
proof (induction vs arbitrary: us i)
  case Nil
  then show ?case by (auto simp: same_template_def dest: list_all2_lengthD)
next
  case (Cons v vs)
  then obtain c where c: "c \<in> set (nd_child_idx (ns ! i))" "nd_seg (ns ! c) = v" "exact ns vs c j" by auto
  from represents_child [OF assms(1) Cons.prems(1) c(1)] obtain ts' where ts': "ts' \<in> T" "length us < length ts'"
    "same_template us (take (length us) ts')" "v = ts' ! length us" using c(2) by metis
  have all2: "list_all2 seg_eq (us @ v # vs) ts" using Cons.prems(3) by (simp add: same_template_def)
  have ts: "same_template us (take (length us) ts)" "length us < length ts" "seg_eq v (ts ! length us)"
    using list_all2_takeI [OF all2, of "length us"] list_all2_lengthD [OF all2]
      list_all2_nthD [OF all2, of "length us"] by (simp_all add: same_template_def)
  from template_key.eq_trans [OF template_key.eq_sym [OF ts'(3)] ts(1)]
  have "same_template (take (length us) ts') (take (length us) ts)" .
  from compatible_nth [OF assms(2) [OF ts'(1) assms(3)] this ts'(2) ts(2)] ts(3) ts'(4)
  have "v = ts ! length us" by simp
  moreover have "descend ns 0 (us @ [v]) = Some c"
    using descend_child [OF _ Cons.prems(1) c(1)] assms(1) c(2) by (simp add: represents_def)
  from Cons.IH [OF this c(3)] Cons.prems(3) have "vs = drop (Suc (length us)) ts" by simp
  ultimately show ?case using ts(2) by (simp add: Cons_nth_drop_Suc)
qed

text \<open>The route of a path, read off the table.\<close>

definition find_route :: "'d lib \<Rightarrow> (segment_template list, 'r) kv \<Rightarrow> string list \<Rightarrow>
    'r option \<times> (string \<times> string) list" where
  "find_route L m segs =
     (case find (\<lambda>(ts, v). template_matches L ts segs) m of
        None \<Rightarrow> (None, [])
      | Some (ts, v) \<Rightarrow> (Some v, bindings ts segs))"

definition clear_routes :: "'d lib \<Rightarrow> (string \<times> 'r) list \<Rightarrow> bool" where
  "clear_routes L routes \<longleftrightarrow>
     (\<forall>r \<in> set routes. routable L (fst r) \<and> plain (template_of L (fst r)) \<and>
        field_count (template_of L (fst r)) \<le> match_places \<and>
        (\<forall>r' \<in> set routes. compatible (template_of L (fst r)) (template_of L (fst r'))))"

lemma find_route_eq:
  assumes "\<And>ts us. ts \<in> fst ` set m \<Longrightarrow> us \<in> fst ` set m \<Longrightarrow> compatible ts us \<and> plain ts"
    and "kv_distinct same_template m" and "(ts, v) \<in> set m" and "template_matches L ts segs"
  shows "find_route L m segs = (Some v, bindings ts segs)"
proof -
  have "find (\<lambda>(ts, v). template_matches L ts segs) m \<noteq> None"
    using assms(3,4) by (auto simp: find_None_iff)
  then obtain us w where us: "find (\<lambda>(ts, v). template_matches L ts segs) m = Some (us, w)" by auto
  then have "(us, w) \<in> set m" "template_matches L us segs" by (auto simp: find_Some_iff in_set_conv_nth)
  moreover from this assms(3) have keys: "ts \<in> fst ` set m" "us \<in> fst ` set m" by force+
  ultimately have "us = ts"
    using compatible_matches_eq [of us ts L segs] assms(1) [OF keys(1) keys(2)] assms(1) [OF keys(2) keys(1)] assms(4)
    by blast
  moreover from this have "w = v"
    using template_key.find_entry [OF assms(2,3)] template_key.find_entry [OF assms(2) \<open>(us, w) \<in> set m\<close>] by simp
  ultimately show ?thesis using us by (simp add: find_route_def)
qed

lemma router_finds_clear:
  assumes "clear_routes L routes" and "insert_all L routes router_empty = Inr ns"
    and "segs \<noteq> []" and "no_dots L segs"
  shows "router_find L ns segs = Some (Inr (find_route L (route_table L routes) segs))"
proof -
  let ?m = "route_table L routes" and ?T = "set (map (template_of L \<circ> fst) routes)"
  from assms(1,2) insert_all_represents [of routes L] have rep: "represents ?T ?m ns"
    by (auto simp: clear_routes_def)
  have compat: "compatible ts us" if "ts \<in> ?T" "us \<in> ?T" for ts us
    using assms(1) that by (auto simp: clear_routes_def)
  have clear: "clear_pool ns"
    by (rule represents_clear [OF rep _ compat]) (use assms(1) in \<open>auto simp: clear_routes_def\<close>)
  then have ok: "pool_ok ns" by (simp add: clear_pool_def plain_pool_def)
  have table: "resource_of ns us = kv_find same_template us ?m" for us
    using rep by (simp add: represents_def)
  have dist: "kv_distinct same_template ?m"
    unfolding route_table_def
    by (rule fold_invariant [where Q = "\<lambda>_. True"]) (auto intro: template_key.distinct_insert_or_assign)
  have "binds L ns (try_match L ns segs (match_fuel ns segs) segs 0 0 matches_storage) (dfs L ns segs 0)
      matches_storage segs 0 0"
    using walk_binds [OF clear, of "[]" 0 L segs 0 matches_storage segs] assms(4)
    by (simp add: match_fuel_def matches_storage_def buffer_ok_def)
  then obtain m where run: "try_match L ns segs (match_fuel ns segs) segs 0 0 matches_storage =
      ret (dfs L ns segs 0, m)"
    and found: "\<And>j. dfs L ns segs 0 = Some j \<Longrightarrow> \<exists>us. exact ns us 0 j \<and> template_matches L us segs \<and>
      content m = trail 0 us"
    by (auto simp: binds_def content_def matches_storage_def)
  show ?thesis
  proof (cases "dfs L ns segs 0")
    case None
    have "\<not> template_matches L us segs" if "(us, w) \<in> set ?m" for us w
      using template_key.find_entry [OF dist that] table [of us] dfs_none [OF None, of us]
      by (auto simp: resource_of_def split: option.splits)
    then have "find (\<lambda>(ts, v). template_matches L ts segs) ?m = None" by (auto simp: find_None_iff)
    with router_find_yields [OF ok assms(3) run] None show ?thesis by (simp add: find_route_def ret_def)
  next
    case (Some j)
    from found [OF this] obtain us where us: "exact ns us 0 j" "template_matches L us segs"
      "content m = trail 0 us" by blast
    note desc = exact_descend [OF ok pool_ok_nonempty [OF ok] us(1)]
    have j: "j < length ns" using descend_bounds [OF ok pool_ok_nonempty [OF ok] desc] by simp
    have "nd_resource (ns ! j) \<noteq> None"
      using dfs_best [OF _ reachable_root Some] clear by (auto simp: clear_pool_def leads_best_def)
    then obtain v where v: "nd_resource (ns ! j) = Some v" by blast
    with desc table [of us] have "kv_find same_template us ?m = Some v" by (simp add: resource_of_def)
    from template_key.find_SomeD [OF this] obtain ts where ts: "same_template ts us" "(ts, v) \<in> set ?m" by blast
    then have "ts \<in> ?T" using route_table_keys [of L routes] by force
    from exact_template [OF rep compat this _ us(1), of "[]"] template_key.eq_sym [OF ts(1)] have "us = ts" by simp
    have "find_route L ?m segs = (Some v, bindings us segs)"
    proof (rule find_route_eq [OF _ dist])
      show "compatible ts us \<and> plain ts" if "ts \<in> fst ` set ?m" "us \<in> fst ` set ?m" for ts us
      proof -
        have "ts \<in> ?T" "us \<in> ?T" using that route_table_keys [of L routes] by blast+
        moreover have "plain ts" if "ts \<in> ?T" using assms(1) that by (auto simp: clear_routes_def)
        ultimately show ?thesis using compat by blast
      qed
    qed (use ts \<open>us = ts\<close> us(2) in auto)
    moreover have "zip (take (mb_pos m) (mb_ids m)) (map (view_text segs) (take (mb_pos m) (mb_matches m))) =
        bindings us segs"
      using trail_texts [OF us(2), of 0 segs] us(3) by (simp add: content_def zip_map2)
    ultimately show ?thesis
      using router_find_yields [OF ok assms(3) run] Some v j by (simp add: ret_def)
  qed
qed

text \<open>
  C13: in a table whose templates do not compete, have no modifiers and have at most twenty
  fields each, looking up a path of any length without dot segments gives exactly what the table says: the resource of the one
  template that matches, with the segment of each of its fields under the field's id, or
  nothing.
\<close>

theorem router_finds_route_and_bindings:
  assumes "clear_routes L routes" and "insert_all L routes router_empty = Inr ns"
    and "segs \<noteq> []" and "no_dots L segs"
  shows "router_find L ns segs = Some (Inr (find_route L (route_table L routes) segs))"
  by (rule router_finds_clear [OF assms])

theorem router_finds_route_and_bindings_witness:
  "\<exists>ns. insert_all ref_lib [(''/rate/{pair}'', 1), (''/rates'', 2), (''/user/{id}/rate/{pair}'', 3 :: nat)]
      router_empty = Inr ns \<and>
    router_find ref_lib ns [''user'', ''7'', ''rate'', ''USDEUR''] =
      Some (Inr (Some 3, [(''id'', ''7''), (''pair'', ''USDEUR'')]))"
proof -
  let ?routes = "[(''/rate/{pair}'', 1), (''/rates'', 2), (''/user/{id}/rate/{pair}'', 3 :: nat)]"
  let ?segs = "[''user'', ''7'', ''rate'', ''USDEUR'']"
  have clear: "clear_routes ref_lib ?routes" by code_simp
  then have "\<forall>r \<in> set ?routes. routable ref_lib (fst r)" unfolding clear_routes_def by blast
  from insert_all_represents [OF this] obtain ns where ns: "insert_all ref_lib ?routes router_empty = Inr ns" by blast
  have "no_dots ref_lib ?segs" by code_simp
  from router_finds_route_and_bindings [OF clear ns _ this]
  have "router_find ref_lib ns ?segs = Some (Inr (find_route ref_lib (route_table ref_lib ?routes) ?segs))" by simp
  moreover have "find_route ref_lib (route_table ref_lib ?routes) ?segs =
      (Some 3, [(''id'', ''7''), (''pair'', ''USDEUR'')])" by code_simp
  ultimately show ?thesis using ns by simp
qed

end
