(* ===== verification/Router.thy ===== *)
theory Router
  imports Url_Router Http_Tables
begin

text \<open>
  \<open>engine/src/http_server/router.cpp\<close>: one URL router per method.  A route's resource is the
  name of its handler with the handler.
\<close>

type_synonym 'h routes = "(HttpMethod, (string \<times> 'h) pool) kv"

record 'h find_result =
  fr_handler_name :: string
  fr_handler :: 'h
  fr_match_result :: "(string \<times> string) list"

definition Router_Find :: "'d lib \<Rightarrow> 'h routes \<Rightarrow> HttpMethod \<Rightarrow> string \<Rightarrow> 'h find_result option run" where
  "Router_Find L routes http_method uri =
     (case map_find http_method routes of
        None \<Rightarrow> ret None
      | Some r \<Rightarrow>
          (case lib_parse_path L uri of
             None \<Rightarrow> ret None
           | Some path \<Rightarrow>
               run_bind (router_find L r path) (\<lambda>(handler_pair, match_result).
                 case handler_pair of
                   None \<Rightarrow> ret None
                 | Some (name, h) \<Rightarrow>
                     ret (Some \<lparr>fr_handler_name = name, fr_handler = h, fr_match_result = match_result\<rparr>))))"

text \<open>\<open>routes_[http_method]\<close> makes an empty router for a method that has none yet.\<close>

definition Router_Add ::
  "'d lib \<Rightarrow> HttpMethod \<Rightarrow> string \<Rightarrow> string \<Rightarrow> 'h \<Rightarrow> 'h routes \<Rightarrow> 'h routes res" where
  "Router_Add L http_method uri handler_name h routes =
     (let r = (case map_find http_method routes of Some r \<Rightarrow> r | None \<Rightarrow> router_empty)
      in res_bind (router_insert L uri (handler_name, h) r)
           (\<lambda>r'. Inr (kv_insert_or_assign (=) http_method r' routes)))"

end
