(* ===== verification/Http_Filters.thy ===== *)
theory Http_Filters
  imports Http_Handler Config
begin

text \<open>
  \<open>engine/src/http_server/http_filter.cpp\<close>, \<open>http_filter_context.cpp\<close>,
  \<open>http_filter_ctxs_map.cpp\<close> and \<open>FillFilterCtxsMap\<close> of \<open>server_builder.cpp\<close>: the chain of
  filters in front of a handler.  A filter is code of the application, so its \<open>DoFilter\<close> is
  a function of the request, the response and the two continuations of its context.
\<close>

section \<open>Filters\<close>

type_synonym continuation = "http_request option \<Rightarrow> http_response option \<Rightarrow> flow"

record filter_view =
  ctx_Next :: continuation
  ctx_HandleRequest :: continuation

type_synonym http_filter = "http_request \<Rightarrow> http_response \<Rightarrow> filter_view \<Rightarrow> flow"

definition HttpFilterBase_Process ::
  "http_filter \<Rightarrow> filter_view \<Rightarrow> exceptions_handler \<Rightarrow> continuation" where
  "HttpFilterBase_Process DoFilter filter_ctx xh request response =
     (case response of
        None \<Rightarrow> Finished None
      | Some rs \<Rightarrow>
          (case request of
             None \<Rightarrow> Finished (Some (Close rs))
           | Some rq \<Rightarrow> try_catch xh rq rs (DoFilter rq rs filter_ctx)))"

section \<open>Contexts\<close>

text \<open>A context holds its filter, the next context, the handler and the exceptions handler.\<close>

datatype filter_context =
  HttpFilterContextImpl http_filter "filter_context option" "handler option" exceptions_handler

definition ctx_handle_request :: "handler option \<Rightarrow> exceptions_handler \<Rightarrow> continuation" where
  "ctx_handle_request http_handler xh request response =
     (case http_handler of
        None \<Rightarrow> Raised Undefined response
      | Some h \<Rightarrow> HttpHandlerBase_Process h xh request response)"

function Next :: "filter_context \<Rightarrow> http_request option \<Rightarrow> http_response option \<Rightarrow> flow"
  and DoFilter :: "filter_context \<Rightarrow> http_request option \<Rightarrow> http_response option \<Rightarrow> flow" where
  "Next (HttpFilterContextImpl f (Some next_ctx) http_handler xh) request response =
     DoFilter next_ctx request response"
| "Next (HttpFilterContextImpl f None (Some h) xh) request response =
     HttpHandlerBase_Process h xh request response"
| "Next (HttpFilterContextImpl f None None xh) request response =
     (case response of
        Some rs \<Rightarrow> Finished (Some (Close rs))
      | None \<Rightarrow> Finished None)"
| "DoFilter (HttpFilterContextImpl f next_ctx http_handler xh) request response =
     HttpFilterBase_Process f
       \<lparr>ctx_Next = (\<lambda>rq rs. Next (HttpFilterContextImpl f next_ctx http_handler xh) rq rs),
        ctx_HandleRequest = ctx_handle_request http_handler xh\<rparr> xh request response"
  by pat_completeness auto

termination
  by (relation "measure (case_sum (\<lambda>(c, _). 2 * size c) (\<lambda>(c, _). 2 * size c + 1))") auto

section \<open>The map of contexts\<close>

type_synonym filter_contexts_map = "(string, filter_context list) kv"

definition AddFront :: "string \<Rightarrow> filter_context \<Rightarrow> filter_contexts_map \<Rightarrow> filter_contexts_map" where
  "AddFront name ctx m =
     kv_insert_or_assign (=) name (ctx # (case map_find name m of Some l \<Rightarrow> l | None \<Rightarrow> [])) m"

definition HasFilters :: "filter_contexts_map \<Rightarrow> string \<Rightarrow> bool" where
  "HasFilters m name =
     (case map_find name m of None \<Rightarrow> False | Some l \<Rightarrow> l \<noteq> [])"

definition DoFiltersAndHandler :: "filter_contexts_map \<Rightarrow> string \<Rightarrow> continuation" where
  "DoFiltersAndHandler m name request response =
     (case map_find name m of
        None \<Rightarrow> Finished response
      | Some [] \<Rightarrow> Finished response
      | Some (ctx # l) \<Rightarrow> DoFilter ctx request response)"

section \<open>Filling the map\<close>

text \<open>
  \<open>http_filters_factory.Create(name, config, components)\<close> may build components and may throw:
  \<open>create\<close> takes the components and returns the filter, \<open>None\<close> if none is registered under
  the name, and the components.
\<close>

type_synonym 'c filters_factory = "string \<Rightarrow> yaml \<Rightarrow> 'c \<Rightarrow> (http_filter option \<times> 'c) res"

fun fill_filter_ctxs ::
  "'c filters_factory \<Rightarrow> string \<Rightarrow> handler \<Rightarrow> exceptions_handler \<Rightarrow> (string \<times> yaml) list \<Rightarrow>
     filter_context option \<Rightarrow> filter_contexts_map \<times> 'c \<Rightarrow> (filter_contexts_map \<times> 'c) res" where
  "fill_filter_ctxs create handler_name h xh [] prev_filter_ctx (m, components) = Inr (m, components)"
| "fill_filter_ctxs create handler_name h xh ((filter_name, filter_config) # it) prev_filter_ctx (m, components) =
     res_bind (create filter_name filter_config components) (\<lambda>(flt, components').
       case flt of
         None \<Rightarrow> throw_exn (StdException (''HTTP filter \"'' @ filter_name @ ''\" isn't registred''))
       | Some f \<Rightarrow>
           let cur_filter_ctx = HttpFilterContextImpl f prev_filter_ctx (Some h) xh
           in fill_filter_ctxs create handler_name h xh it (Some cur_filter_ctx)
                (AddFront handler_name cur_filter_ctx m, components'))"

definition FillFilterCtxsMap ::
  "'c filters_factory \<Rightarrow> string \<Rightarrow> handler \<Rightarrow> exceptions_handler \<Rightarrow> (string \<times> yaml) list \<Rightarrow>
     filter_contexts_map \<times> 'c \<Rightarrow> (filter_contexts_map \<times> 'c) res" where
  "FillFilterCtxsMap create handler_name h xh filters_config st =
     (if filters_config = [] then Inr st
      else fill_filter_ctxs create handler_name h xh (rev filters_config) None st)"

section \<open>What a chain means\<close>

text \<open>
  The specification: filters run in the order of the configuration, each deciding when the
  rest of the chain runs, with the handler at the end; an exception of a filter or of the
  handler is reported where it was thrown.
\<close>

fun filter_chain :: "exceptions_handler \<Rightarrow> handler \<Rightarrow> http_filter list \<Rightarrow> continuation" where
  "filter_chain xh h [] = HttpHandlerBase_Process h xh"
| "filter_chain xh h (f # fs) =
     HttpFilterBase_Process f
       \<lparr>ctx_Next = filter_chain xh h fs, ctx_HandleRequest = HttpHandlerBase_Process h xh\<rparr> xh"

text \<open>The filters the factory makes of a list of settings, last one first.\<close>

fun create_filters :: "'c filters_factory \<Rightarrow> (string \<times> yaml) list \<Rightarrow> 'c \<Rightarrow> (http_filter list \<times> 'c) res" where
  "create_filters create [] components = Inr ([], components)"
| "create_filters create ((name, cfg) # cfgs) components =
     res_bind (create_filters create cfgs components) (\<lambda>(fs, components').
     res_bind (create name cfg components') (\<lambda>(flt, components'').
       case flt of
         None \<Rightarrow> throw_exn (StdException (''HTTP filter \"'' @ name @ ''\" isn't registred''))
       | Some f \<Rightarrow> Inr (f # fs, components'')))"

text \<open>The contexts of a chain, nested as \<open>fill_filter_ctxs\<close> builds them.\<close>

fun nest :: "exceptions_handler \<Rightarrow> handler \<Rightarrow> http_filter list \<Rightarrow> filter_context option \<Rightarrow> filter_context option" where
  "nest xh h [] prev = prev"
| "nest xh h (f # fs) prev = Some (HttpFilterContextImpl f (nest xh h fs prev) (Some h) xh)"

lemma ctx_handle_request_Some [simp]: "ctx_handle_request (Some h) xh = HttpHandlerBase_Process h xh"
  by (auto simp: fun_eq_iff ctx_handle_request_def)

lemma DoFilter_nest:
  "DoFilter (HttpFilterContextImpl f (nest xh h fs None) (Some h) xh) = filter_chain xh h (f # fs)"
proof (induction fs arbitrary: f)
  case Nil
  have "Next (HttpFilterContextImpl f None (Some h) xh) = HttpHandlerBase_Process h xh"
    by (simp add: fun_eq_iff)
  then show ?case
    by (intro ext) (simp only: DoFilter.simps filter_chain.simps nest.simps ctx_handle_request_Some)
next
  case (Cons g gs)
  have "Next (HttpFilterContextImpl f (nest xh h (g # gs) None) (Some h) xh) = filter_chain xh h (g # gs)"
    by (intro ext) (simp only: nest.simps Next.simps Cons.IH)
  then show ?case
    by (intro ext) (simp only: DoFilter.simps filter_chain.simps ctx_handle_request_Some)
qed

text \<open>The list of contexts \<open>fill_filter_ctxs\<close> leaves under a name.\<close>

fun context_list ::
  "exceptions_handler \<Rightarrow> handler \<Rightarrow> http_filter list \<Rightarrow> filter_context option \<Rightarrow> filter_context list" where
  "context_list xh h [] prev = []"
| "context_list xh h (f # fs) prev =
     HttpFilterContextImpl f (nest xh h fs prev) (Some h) xh # context_list xh h fs prev"

lemma nest_append: "nest xh h (fs @ gs) prev = nest xh h fs (nest xh h gs prev)"
  by (induction fs) auto

lemma context_list_append:
  "context_list xh h (fs @ gs) prev = context_list xh h fs (nest xh h gs prev) @ context_list xh h gs prev"
  by (induction fs) (auto simp: nest_append)

definition contexts_of :: "filter_contexts_map \<Rightarrow> string \<Rightarrow> filter_context list" where
  "contexts_of m name = (case map_find name m of Some l \<Rightarrow> l | None \<Rightarrow> [])"

lemma contexts_of_AddFront [simp]:
  "contexts_of (AddFront name ctx m) n = (if n = name then ctx # contexts_of m name else contexts_of m n)"
  by (simp add: contexts_of_def AddFront_def std_key.find_insert_or_assign)

lemma DoFiltersAndHandler_contexts:
  "DoFiltersAndHandler m name rq rs =
     (case contexts_of m name of [] \<Rightarrow> Finished rs | ctx # l \<Rightarrow> DoFilter ctx rq rs)"
  by (simp add: DoFiltersAndHandler_def contexts_of_def split: option.split list.split)

lemma HasFilters_contexts: "HasFilters m name \<longleftrightarrow> contexts_of m name \<noteq> []"
  by (simp add: HasFilters_def contexts_of_def split: option.split)

lemma create_filters_snoc:
  "create_filters create (xs @ [(name, cfg)]) c =
     res_bind (create name cfg c) (\<lambda>(flt, c').
       case flt of
         None \<Rightarrow> throw_exn (StdException (''HTTP filter \"'' @ name @ ''\" isn't registred''))
       | Some f \<Rightarrow> res_bind (create_filters create xs c') (\<lambda>(fs, c''). Inr (fs @ [f], c'')))"
proof (induction xs)
  case Nil
  show ?case
    by (cases "create name cfg c") (auto split: prod.split option.split)
next
  case (Cons x xs)
  obtain n v where x: "x = (n, v)" by (cases x)
  show ?case
  proof (cases "create name cfg c")
    case (Inr r)
    obtain flt c' where "r = (flt, c')" by (cases r)
    with Inr Cons.IH x show ?thesis
      by (cases flt; cases "create_filters create xs c'")
        (auto simp: res_bind_assoc split: prod.split option.split intro!: res_bind_cong)
  qed (simp add: Cons.IH x)
qed

lemma fill_filter_ctxs_correct:
  assumes "fill_filter_ctxs create name h xh it prev (m, c) = Inr (m', c')"
  shows "\<exists>fs. create_filters create (rev it) c = Inr (fs, c') \<and> length fs = length it \<and>
    contexts_of m' name = context_list xh h fs prev @ contexts_of m name \<and>
    (\<forall>n. n \<noteq> name \<longrightarrow> contexts_of m' n = contexts_of m n)"
  using assms
proof (induction it arbitrary: prev m c)
  case Nil
  then show ?case by auto
next
  case (Cons x it)
  obtain n v where x: "x = (n, v)" by (cases x)
  with Cons.prems obtain f d where f: "create n v c = Inr (Some f, d)"
    and rest: "fill_filter_ctxs create name h xh it (Some (HttpFilterContextImpl f prev (Some h) xh))
      (AddFront name (HttpFilterContextImpl f prev (Some h) xh) m, d) = Inr (m', c')"
    by (auto simp: res_simps Let_def split: option.splits)
  from Cons.IH [OF rest] obtain fs where fs: "create_filters create (rev it) d = Inr (fs, c')"
    "length fs = length it"
    "contexts_of m' name = context_list xh h fs (Some (HttpFilterContextImpl f prev (Some h) xh)) @
       HttpFilterContextImpl f prev (Some h) xh # contexts_of m name"
    "\<forall>k. k \<noteq> name \<longrightarrow> contexts_of m' k = contexts_of m k"
    by auto
  with f x show ?case
    by (intro exI [of _ "fs @ [f]"]) (auto simp: create_filters_snoc context_list_append)
qed

text \<open>
  C9: the contexts that \<open>FillFilterCtxsMap\<close> builds for a handler run as the chain of its
  filters in the order of the configuration, ending in the handler, and the contexts of
  the other handlers are left alone.
\<close>

theorem FillFilterCtxsMap_runs_chain:
  assumes "FillFilterCtxsMap create name h xh filters (m, c) = Inr (m', c')" and "filters \<noteq> []"
  shows "HasFilters m' name \<and>
    (\<exists>fs. create_filters create filters c = Inr (fs, c') \<and> length fs = length filters \<and>
       DoFiltersAndHandler m' name = filter_chain xh h fs) \<and>
    (\<forall>n. n \<noteq> name \<longrightarrow> DoFiltersAndHandler m' n = DoFiltersAndHandler m n)"
proof -
  from assms obtain fs where fs: "create_filters create filters c = Inr (fs, c')"
    "length fs = length filters"
    "contexts_of m' name = context_list xh h fs None @ contexts_of m name"
    "\<forall>n. n \<noteq> name \<longrightarrow> contexts_of m' n = contexts_of m n"
    by (auto simp: FillFilterCtxsMap_def dest!: fill_filter_ctxs_correct)
  with assms(2) obtain g gs where g: "fs = g # gs" by (cases fs) auto
  have "DoFiltersAndHandler m' name = filter_chain xh h fs"
    by (intro ext) (simp only: DoFiltersAndHandler_contexts fs(3) g context_list.simps append_Cons
        list.case DoFilter_nest)
  moreover have "DoFiltersAndHandler m' n = DoFiltersAndHandler m n" if "n \<noteq> name" for n
    using fs(4) that by (intro ext) (simp add: DoFiltersAndHandler_contexts)
  ultimately show ?thesis
    using fs(1,2,3) g by (auto simp: HasFilters_contexts)
qed

theorem FillFilterCtxsMap_runs_chain_witness:
  "\<exists>m' fs. FillFilterCtxsMap (\<lambda>n v c. Inr (Some (\<lambda>rq rs ctx. ctx_Next ctx (Some rq) (Some rs)), c)) ''h''
      (\<lambda>rq rs. Finished (Some rs)) (ExceptionsHandlerImpl ref_lib)
      [(''auth'', YNull), (''log'', YNull)] ([], ()) = Inr (m', ()) \<and>
    HasFilters m' ''h'' \<and> length fs = 2 \<and>
    DoFiltersAndHandler m' ''h'' =
      filter_chain (ExceptionsHandlerImpl ref_lib) (\<lambda>rq rs. Finished (Some rs)) fs"
proof -
  let ?create = "\<lambda>n v c. Inr (Some (\<lambda>rq rs ctx. ctx_Next ctx (Some rq) (Some rs)), c)"
  let ?xh = "ExceptionsHandlerImpl ref_lib" and ?h = "\<lambda>rq rs. Finished (Some rs)"
  have "\<exists>m'. FillFilterCtxsMap ?create ''h'' ?h ?xh [(''auth'', YNull), (''log'', YNull)] ([], ()) =
      Inr (m', ())"
    by (simp add: FillFilterCtxsMap_def Let_def)
  then obtain m' where
    m': "FillFilterCtxsMap ?create ''h'' ?h ?xh [(''auth'', YNull), (''log'', YNull)] ([], ()) = Inr (m', ())"
    by blast
  from FillFilterCtxsMap_runs_chain [OF m' list.distinct(2)] obtain fs where
    "HasFilters m' ''h''" "length fs = length [(''auth'', YNull), (''log'', YNull)]"
    "DoFiltersAndHandler m' ''h'' = filter_chain ?xh ?h fs"
    by blast
  with m' show ?thesis
    by (intro exI [of _ m'] exI [of _ fs]) (simp only: list.size, simp)
qed

end
