(* ===== verification/Request_Handler.thy ===== *)
theory Request_Handler
  imports Router Http_Filters
begin

text \<open>
  \<open>engine/src/http_server/request_handler.hpp\<close> with what it takes from the server context
  (\<open>server_context.cpp\<close>), and the construction of that context's parts in
  \<open>server_builder.cpp\<close>: the router and the filter contexts are filled from the configuration.
\<close>

section \<open>The server context\<close>

record server_context =
  sc_router :: "handler routes"
  sc_config :: config
  sc_http_filter_contexts_map :: filter_contexts_map
  sc_exceptions_handler :: exceptions_handler

definition GetRouter :: "server_context \<Rightarrow> handler routes" where
  "GetRouter c = sc_router c"

definition GetConfig :: "server_context \<Rightarrow> config" where
  "GetConfig c = sc_config c"

definition GetHttpFilterContextsMap :: "server_context \<Rightarrow> filter_contexts_map" where
  "GetHttpFilterContextsMap c = sc_http_filter_contexts_map c"

definition GetExceptionsHandler :: "server_context \<Rightarrow> exceptions_handler" where
  "GetExceptionsHandler c = sc_exceptions_handler c"

lemmas context_defs = GetRouter_def GetConfig_def GetHttpFilterContextsMap_def GetExceptionsHandler_def

section \<open>Handling a request\<close>

text \<open>
  The response of a session starts as \<open>MakeHttpResponse\<close> makes it, with the default content
  type.  A path without a handler is answered with status 500.
\<close>

definition RequestHandler :: "'d lib \<Rightarrow> server_context \<Rightarrow> beast_request \<Rightarrow> flow run" where
  "RequestHandler L server_context beast_request =
     run_bind (Some (MakeHttpRequest L beast_request)) (\<lambda>request.
       let response = MakeHttpResponse L (GetKeepAlive request) (GetHttpVersion request) kApplicationJson
       in run_bind (Router_Find L (GetRouter server_context) (GetMethod L request) (GetPath request))
         (\<lambda>find_result.
           case find_result of
             None \<Rightarrow> ret (answered (Send L [] (SetStatusCode L kInternalServerError response)))
           | Some f \<Rightarrow>
               let request = SetMatchResult request (fr_match_result f);
                   filters = GetHttpFilterContextsMap server_context
               in if \<not> HasFilters filters (fr_handler_name f)
                  then ret (HttpHandlerBase_Process (fr_handler f) (GetExceptionsHandler server_context)
                              (Some request) (Some response))
                  else ret (DoFiltersAndHandler filters (fr_handler_name f) (Some request) (Some response))))"

section \<open>Filling the router\<close>

text \<open>\<open>http_handlers_factory.Create\<close> may make components: it takes and returns them.\<close>

type_synonym 'c handlers_factory = "string \<Rightarrow> yaml \<Rightarrow> 'c \<Rightarrow> (handler option \<times> 'c) res"

definition add_handler ::
  "'d lib \<Rightarrow> 'c handlers_factory \<Rightarrow> 'c filters_factory \<Rightarrow> exceptions_handler \<Rightarrow> string \<times> http_handler_config \<Rightarrow>
     handler routes \<times> filter_contexts_map \<times> 'c \<Rightarrow> (handler routes \<times> filter_contexts_map \<times> 'c) res" where
  "add_handler L create_handler create_filter xh entry st =
     (case (entry, st) of
        ((handler_name, handler_config), (router, http_filters_ctxs_map, components)) \<Rightarrow>
          res_bind (create_handler handler_name (hc_yaml_config handler_config) components) (\<lambda>(h, components').
            case h of
              None \<Rightarrow> throw_exn (StdException
                (''HTTP handler \"'' @ handler_name @ ''\" isn't registred''))
            | Some handler_ptr \<Rightarrow>
                let http_method = ToHttpMethodEnum L (hc_method handler_config)
                in if http_method = kUnknown then
                     throw_exn (StdException (''Unknown HTTP method \"'' @ hc_method handler_config @
                       ''\" in HTTP handler \"'' @ handler_name @ ''\"''))
                   else
                     res_bind (Router_Add L http_method (hc_path handler_config) handler_name handler_ptr router) (\<lambda>router'.
                     res_bind (FillFilterCtxsMap create_filter handler_name handler_ptr xh (hc_filters handler_config)
                                 (http_filters_ctxs_map, components'))
                       (\<lambda>(m', components''). Inr (router', m', components'')))))"

definition MakeRouterAndHttpFilterCtxsMap ::
  "'d lib \<Rightarrow> ((string, http_handler_config) kv \<Rightarrow> (string, http_handler_config) kv) \<Rightarrow> 'c handlers_factory \<Rightarrow>
     'c filters_factory \<Rightarrow> config \<Rightarrow> exceptions_handler \<Rightarrow> 'c \<Rightarrow> (handler routes \<times> filter_contexts_map \<times> 'c) res" where
  "MakeRouterAndHttpFilterCtxsMap L ord create_handler create_filter cfg xh components =
     fold_res (add_handler L create_handler create_filter xh) (ord (cfg_http_handlers cfg)) ([], [], components)"

end
