(* ===== verification/Session.thy ===== *)
theory Session
  imports Request_Handler
begin

text \<open>
  \<open>engine/src/http_server/http_session.cpp\<close> and \<open>http_session.hpp\<close>: one connection.  A
  session is driven by the completions of its socket operations and of the statements its
  handlers wait for; what is pending is part of its state, the completion handlers are
  functions, and a step runs any pending completion.
\<close>

section \<open>The session and its operations\<close>

text \<open>
  \<open>ss_dispatched\<close>: first reads posted by \<open>Run\<close>; \<open>ss_reads\<close> and \<open>ss_writes\<close>: reads and writes
  without a result, a write with the \<open>need_eof()\<close> of its response; \<open>ss_flows\<close>: handlers that
  wait for a reply; \<open>ss_closed\<close>: the sending side was shut down.  \<open>ss_received\<close> counts the
  requests, \<open>ss_calls\<close> lists the calls the handlers made, \<open>ss_failed\<close> tells that the socket
  reported an error, \<open>ss_aborted\<close> that a handler left an exception to the event loop.
\<close>

record session =
  ss_dispatched :: nat
  ss_reads :: nat
  ss_writes :: "bool list"
  ss_flows :: "flow list"
  ss_closed :: bool
  ss_failed :: bool
  ss_aborted :: bool
  ss_received :: nat
  ss_calls :: "session_call list"

definition HttpSession :: session where
  "HttpSession =
     \<lparr>ss_dispatched = 0, ss_reads = 0, ss_writes = [], ss_flows = [], ss_closed = False,
      ss_failed = False, ss_aborted = False, ss_received = 0, ss_calls = []\<rparr>"

definition session_Run :: "session \<Rightarrow> session" where
  "session_Run s = s\<lparr>ss_dispatched := Suc (ss_dispatched s)\<rparr>"

definition session_Read :: "session \<Rightarrow> session" where
  "session_Read s = s\<lparr>ss_reads := Suc (ss_reads s)\<rparr>"

text \<open>\<open>Close\<close> shuts the sending side down; an error of that is only logged.\<close>

definition session_Close :: "session \<Rightarrow> session" where
  "session_Close s = s\<lparr>ss_closed := True\<rparr>"

definition session_Write :: "'d lib \<Rightarrow> beast_response \<Rightarrow> session \<Rightarrow> session" where
  "session_Write L response s = s\<lparr>ss_writes := ss_writes s @ [need_eof L response]\<rparr>"

definition OnWrite :: "bool \<Rightarrow> bool \<Rightarrow> session \<Rightarrow> session" where
  "OnWrite close ec s =
     (if ec then s\<lparr>ss_failed := True\<rparr> else if close then session_Close s else session_Read s)"

text \<open>A call of a response object on its session.\<close>

definition perform :: "'d lib \<Rightarrow> session_call \<Rightarrow> session \<Rightarrow> session" where
  "perform L c s =
     (let s' = (case c of
          Write r \<Rightarrow> session_Write L r s
        | WriteFile r path \<Rightarrow> session_Write L r s
        | Close_session \<Rightarrow> session_Close s)
      in s'\<lparr>ss_calls := ss_calls s' @ [c]\<rparr>)"

text \<open>
  A handler has run as far as it can: it waits, or its calls are on the session.  An
  exception that nothing caught reaches the event loop.
\<close>

fun settle :: "'d lib \<Rightarrow> flow \<Rightarrow> session \<Rightarrow> session" where
  "settle L (Finished None) s = s"
| "settle L (Finished (Some rs)) s = fold (perform L) (rs_calls rs) s"
| "settle L (Raised e None) s = s\<lparr>ss_aborted := True\<rparr>"
| "settle L (Raised e (Some rs)) s = (fold (perform L) (rs_calls rs) s)\<lparr>ss_aborted := True\<rparr>"
| "settle L f s = s\<lparr>ss_flows := ss_flows s @ [f]\<rparr>"

datatype read_result = Received beast_request | EndOfStream | ReadError

definition session_HandleRequest :: "'d lib \<Rightarrow> (beast_request \<Rightarrow> flow) \<Rightarrow> beast_request \<Rightarrow> session \<Rightarrow> session" where
  "session_HandleRequest L request_handler request s = settle L (request_handler request) s"

definition OnRead :: "'d lib \<Rightarrow> (beast_request \<Rightarrow> flow) \<Rightarrow> read_result \<Rightarrow> session \<Rightarrow> session" where
  "OnRead L request_handler r s =
     (case r of
        EndOfStream \<Rightarrow> session_Close s
      | ReadError \<Rightarrow> s\<lparr>ss_failed := True\<rparr>
      | Received request \<Rightarrow>
          session_HandleRequest L request_handler request (s\<lparr>ss_received := Suc (ss_received s)\<rparr>))"

section \<open>Steps\<close>

text \<open>A reply to the statement a flow waits for.\<close>

fun resume :: "pg_server \<Rightarrow> flow \<Rightarrow> flow" where
  "resume db (AwaitCurrencies q k) = k (pg_currencies db q)"
| "resume db (AwaitIds q k) = k (pg_ids db q)"
| "resume db (AwaitRates q k) = k (pg_rates db q)"
| "resume db f = f"

text \<open>\<open>C\<close> are the requests the client may send, \<open>D\<close> the databases that may reply.\<close>

inductive session_step ::
  "'d lib \<Rightarrow> (beast_request \<Rightarrow> flow) \<Rightarrow> beast_request set \<Rightarrow> pg_server set \<Rightarrow> session \<Rightarrow> session \<Rightarrow> bool"
  for L :: "'d lib" and request_handler :: "beast_request \<Rightarrow> flow" and C :: "beast_request set"
  and D :: "pg_server set"
where
  First_read: "ss_dispatched s = Suc n \<Longrightarrow>
    session_step L request_handler C D s (session_Read (s\<lparr>ss_dispatched := n\<rparr>))"
| Read_done: "ss_reads s = Suc n \<Longrightarrow> (\<And>rq. r = Received rq \<Longrightarrow> rq \<in> C) \<Longrightarrow>
    session_step L request_handler C D s (OnRead L request_handler r (s\<lparr>ss_reads := n\<rparr>))"
| Write_done: "ss_writes s = ws @ close # ws' \<Longrightarrow>
    session_step L request_handler C D s (OnWrite close ec (s\<lparr>ss_writes := ws @ ws'\<rparr>))"
| Reply: "ss_flows s = fs @ f # fs' \<Longrightarrow> db \<in> D \<Longrightarrow>
    session_step L request_handler C D s (settle L (resume db f) (s\<lparr>ss_flows := fs @ fs'\<rparr>))"

inductive_cases session_stepE: "session_step L h C D s s'"

text \<open>What a session has pending.\<close>

definition session_tokens :: "session \<Rightarrow> nat" where
  "session_tokens s = ss_dispatched s + ss_reads s + length (ss_writes s) + length (ss_flows s)"

lemma session_tokens_operations [tok_simps]:
  "session_tokens (session_Run s) = Suc (session_tokens s)"
  "session_tokens (session_Read s) = Suc (session_tokens s)"
  "session_tokens (session_Close s) = session_tokens s"
  "session_tokens (session_Write L r s) = Suc (session_tokens s)"
  by (simp_all add: session_tokens_def session_Run_def session_Read_def session_Close_def session_Write_def)

lemma session_tokens_perform [tok_simps]:
  "session_tokens (perform L c s) = session_tokens s + (if is_write c then 1 else 0)"
  by (cases c) (simp_all add: perform_def Let_def session_tokens_def session_Close_def session_Write_def)

lemma perform_fields [simp]:
  "ss_received (perform L c s) = ss_received s" "ss_calls (perform L c s) = ss_calls s @ [c]"
  "ss_failed (perform L c s) = ss_failed s" "ss_aborted (perform L c s) = ss_aborted s"
  "ss_flows (perform L c s) = ss_flows s"
  "ss_closed (perform L c s) = (ss_closed s \<or> c = Close_session)"
  by (cases c; simp add: perform_def Let_def session_Write_def session_Close_def)+

section \<open>Serial sessions\<close>

text \<open>
  A flow that ends with exactly one call on the session, whatever databases of \<open>D\<close> reply.
\<close>

primrec one_call :: "pg_server set \<Rightarrow> flow \<Rightarrow> bool" where
  "one_call D (Finished x) = (\<exists>rs c. x = Some rs \<and> rs_calls rs = [c])"
| "one_call D (Raised e x) = False"
| "one_call D (AwaitCurrencies q k) = (\<forall>db \<in> D. one_call D (k (pg_currencies db q)))"
| "one_call D (AwaitIds q k) = (\<forall>db \<in> D. one_call D (k (pg_ids db q)))"
| "one_call D (AwaitRates q k) = (\<forall>db \<in> D. one_call D (k (pg_rates db q)))"

lemma answers_once_one_call: "answers_once D rs f \<Longrightarrow> rs_calls rs = [] \<Longrightarrow> one_call D f"
  by (induction f) (auto simp: one_write_def)

lemma one_call_resume: "one_call D f \<Longrightarrow> db \<in> D \<Longrightarrow> one_call D (resume db f)"
  by (cases f) auto

fun waits :: "flow \<Rightarrow> bool" where
  "waits (Finished x) = False"
| "waits (Raised e x) = False"
| "waits f = True"

lemma settle_one_call:
  assumes "one_call D f"
  shows "settle L f s = s\<lparr>ss_flows := ss_flows s @ [f]\<rparr> \<and> waits f \<or>
    (\<exists>c. settle L f s = perform L c s) \<and> \<not> waits f"
  using assms by (cases f) auto

text \<open>
  The invariant: at most one thing is pending, and exactly one unless the connection was
  closed or failed; every request received is answered by one call or has its handler
  waiting.
\<close>

definition session_inv :: "pg_server set \<Rightarrow> session \<Rightarrow> bool" where
  "session_inv D s \<longleftrightarrow>
     session_tokens s \<le> 1 \<and> (session_tokens s = 0 \<longrightarrow> ss_closed s \<or> ss_failed s) \<and>
     \<not> ss_aborted s \<and>
     ss_received s = length (ss_calls s) + length (ss_flows s) \<and>
     (\<forall>f \<in> set (ss_flows s). one_call D f \<and> waits f)"

lemma session_inv_start: "session_inv D (session_Run HttpSession)"
  by (simp add: session_inv_def HttpSession_def session_Run_def session_tokens_def)

lemma settle_inv:
  assumes "one_call D f" and "session_tokens s = 0" and "\<not> ss_aborted s"
    and "ss_received s = Suc (length (ss_calls s))"
  shows "session_inv D (settle L f s)"
proof -
  from assms(2) have "ss_flows s = []" by (simp add: session_tokens_def)
  with settle_one_call [OF assms(1), of L s] assms show ?thesis
    by (auto simp: session_inv_def tok_simps session_tokens_def)
      (auto simp: perform_def Let_def session_Write_def session_Close_def split: session_call.splits)
qed

lemma session_progress: "0 < session_tokens s \<Longrightarrow> D \<noteq> {} \<Longrightarrow> \<exists>s'. session_step L h C D s s'"
proof -
  assume "0 < session_tokens s" "D \<noteq> {}"
  then consider n where "ss_dispatched s = Suc n" | n where "ss_reads s = Suc n"
    | w ws where "ss_writes s = [] @ w # ws" | f fs where "ss_flows s = [] @ f # fs"
    by (cases "ss_dispatched s"; cases "ss_reads s"; cases "ss_writes s"; cases "ss_flows s")
      (auto simp: session_tokens_def)
  then show ?thesis using \<open>D \<noteq> {}\<close> by cases (blast intro: session_step.intros)+
qed

text \<open>The contract of a request handler: one call for each request the client may send.\<close>

locale answering =
  fixes L :: "'d lib" and h :: "beast_request \<Rightarrow> flow" and C :: "beast_request set" and D :: "pg_server set"
  assumes answers: "rq \<in> C \<Longrightarrow> one_call D (h rq)"
begin

lemma session_step_inv:
  assumes "session_step L h C D s s'" and "session_inv D s"
  shows "session_inv D s'"
  using assms(1)
proof cases
  case (First_read n)
  with assms(2) show ?thesis by (auto simp: session_inv_def session_tokens_def session_Read_def)
next
  case (Read_done n r)
  with assms(2) have "ss_dispatched s = 0" "n = 0" "ss_writes s = []" "ss_flows s = []"
    by (auto simp: session_inv_def session_tokens_def)
  with Read_done assms(2) answers show ?thesis
    by (cases r) (auto simp: OnRead_def session_HandleRequest_def session_Close_def
        intro!: settle_inv, auto simp: session_inv_def session_tokens_def)
next
  case (Write_done ws close ws' ec)
  with assms(2) have "ss_dispatched s = 0" "ss_reads s = 0" "ws = []" "ws' = []" "ss_flows s = []"
    by (auto simp: session_inv_def session_tokens_def)
  with Write_done assms(2) show ?thesis
    by (auto simp: OnWrite_def session_Close_def session_Read_def session_inv_def session_tokens_def)
next
  case (Reply fs f fs' db)
  with assms(2) have "ss_dispatched s = 0" "ss_reads s = 0" "fs = []" "fs' = []" "ss_writes s = []"
    "one_call D f"
    by (auto simp: session_inv_def session_tokens_def)
  with Reply assms(2) one_call_resume [of D f db] show ?thesis
    unfolding Reply(1) by (intro settle_inv) (auto simp: session_inv_def session_tokens_def)
qed

lemma reachable_session_inv:
  "(session_step L h C D)\<^sup>*\<^sup>* (session_Run HttpSession) s \<Longrightarrow> session_inv D s"
  by (induction rule: rtranclp_induct) (auto intro: session_inv_start session_step_inv)

lemma session_serial:
  assumes "(session_step L h C D)\<^sup>*\<^sup>* (session_Run HttpSession) s"
  shows "ss_dispatched s + ss_reads s + length (ss_writes s) + length (ss_flows s) \<le> 1 \<and>
    ss_received s = length (ss_calls s) + length (ss_flows s) \<and>
    (ss_closed s \<or> ss_failed s \<or> D = {} \<or> (\<exists>s'. session_step L h C D s s'))"
proof -
  from reachable_session_inv [OF assms] have inv: "session_inv D s" .
  moreover from inv session_progress [of s D L h C]
  have "ss_closed s \<or> ss_failed s \<or> D = {} \<or> (\<exists>s'. session_step L h C D s s')"
    by (auto simp: session_inv_def)
  ultimately show ?thesis by (simp add: session_inv_def session_tokens_def)
qed

end

text \<open>
  C10: if every request the client sends is answered by one call, a connection is served one thing at a time:
  there is never more than one read, write or waiting handler, every request received has
  been answered except the one whose handler waits, and until the connection is closed or
  fails something can always happen next.
\<close>

theorem session_is_serial:
  assumes "(session_step L h C D)\<^sup>*\<^sup>* (session_Run HttpSession) s" and "\<And>rq. rq \<in> C \<Longrightarrow> one_call D (h rq)"
  shows "ss_dispatched s + ss_reads s + length (ss_writes s) + length (ss_flows s) \<le> 1 \<and>
    ss_received s = length (ss_calls s) + length (ss_flows s) \<and>
    (ss_closed s \<or> ss_failed s \<or> D = {} \<or> (\<exists>s'. session_step L h C D s s'))"
  by (rule answering.session_serial [OF answering.intro [OF assms(2)] assms(1)])

theorem session_is_serial_witness:
  "\<exists>s'. session_step ref_lib (\<lambda>rq. answered (Send ref_lib ''x'' HttpResponseImpl)) UNIV UNIV
     (session_Run HttpSession) s'"
proof -
  have "one_call UNIV (answered (Send ref_lib ''x'' HttpResponseImpl))"
    by (simp add: resp_simps takes_body_HttpResponseImpl, simp add: HttpResponseImpl_def)
  from session_is_serial [OF rtranclp.rtrancl_refl, where L = ref_lib and C = UNIV and D = UNIV
      and h = "\<lambda>rq. answered (Send ref_lib ''x'' HttpResponseImpl)", OF this]
  show ?thesis by (auto simp: session_Run_def HttpSession_def)
qed

section \<open>Two answers to one request\<close>

text \<open>The replies of one database take a waiting handler to its end.\<close>

lemma flow_runs:
  assumes "db \<in> D"
  shows "ss_flows s = [] \<Longrightarrow> (session_step L h C D)\<^sup>*\<^sup>* (settle L f s) (settle L (run_flow db f) s)"
proof -
  have await: "(session_step L h C D)\<^sup>*\<^sup>* (settle L f s) s'"
    if "(session_step L h C D)\<^sup>*\<^sup>* (settle L (resume db f) s) s'" "waits f" "ss_flows s = []" for f s s'
  proof -
    from that(2,3) have "settle L f s = s\<lparr>ss_flows := [f]\<rparr>" by (cases f) auto
    moreover have "session_step L h C D (s\<lparr>ss_flows := [f]\<rparr>) (settle L (resume db f) s)"
      using session_step.Reply [of "s\<lparr>ss_flows := [f]\<rparr>" "[]" f "[]" db D L h C] assms that(3)
      by (cases s) simp
    ultimately show ?thesis using that(1) by (simp add: converse_rtranclp_into_rtranclp)
  qed
  assume flows: "ss_flows s = []"
  show ?thesis
  proof (induction f)
    case (AwaitCurrencies q k)
    show ?case using await [of "AwaitCurrencies q k"] AwaitCurrencies [OF rangeI] flows by simp
  next
    case (AwaitIds q k)
    show ?case using await [of "AwaitIds q k"] AwaitIds [OF rangeI] flows by simp
  next
    case (AwaitRates q k)
    show ?case using await [of "AwaitRates q k"] AwaitRates [OF rangeI] flows by simp
  qed auto
qed

text \<open>
  C31: a handler that answers a request twice (as \<open>POST /currencies\<close> does) breaks the order
  of its connection: two writes are pending at the same time on one stream, and if both
  keep the connection, two reads are pending after them.
\<close>

theorem double_answer_breaks_session:
  assumes "rq \<in> C" and "db \<in> D" and "run_flow db (h rq) = Finished (Some rs)" and "rs_calls rs = [Write a, Write b]"
  shows "\<exists>s. (session_step L h C D)\<^sup>*\<^sup>* (session_Run HttpSession) s \<and>
      ss_writes s = [need_eof L a, need_eof L b] \<and>
      (keep_alive_of L a \<longrightarrow> keep_alive_of L b \<longrightarrow>
        (\<exists>s'. (session_step L h C D)\<^sup>*\<^sup>* s s' \<and> ss_reads s' = 2))"
proof -
  let ?step = "session_step L h C D"
  define s0 where "s0 = HttpSession\<lparr>ss_received := 1\<rparr>"
  define s where "s = fold (perform L) [Write a, Write b] s0"
  have flows: "ss_flows s0 = []" by (simp add: s0_def HttpSession_def)
  have "?step (session_Run HttpSession) (session_Read HttpSession)"
    using session_step.First_read [of "session_Run HttpSession" 0 L h C D]
    by (simp add: session_Run_def HttpSession_def)
  moreover have "?step (session_Read HttpSession) (settle L (h rq) s0)"
    using session_step.Read_done [of "session_Read HttpSession" 0 "Received rq" C L h D] assms(1)
    by (simp add: session_Read_def HttpSession_def OnRead_def session_HandleRequest_def s0_def)
  moreover have "?step\<^sup>*\<^sup>* (settle L (h rq) s0) s"
    using flow_runs [OF assms(2) flows, of L h C "h rq"] assms(3,4) by (simp add: s_def)
  ultimately have reach: "?step\<^sup>*\<^sup>* (session_Run HttpSession) s"
    by (meson converse_rtranclp_into_rtranclp)
  have w: "ss_writes s = [need_eof L a, need_eof L b]" "ss_reads s = 0"
    by (simp_all add: s_def s0_def HttpSession_def perform_def session_Write_def Let_def)
  have "\<exists>s'. ?step\<^sup>*\<^sup>* s s' \<and> ss_reads s' = 2" if "keep_alive_of L a" "keep_alive_of L b"
  proof -
    from that have w': "ss_writes s = [] @ False # [False]" using w by (simp add: need_eof_def)
    let ?s1 = "OnWrite False False (s\<lparr>ss_writes := [] @ [False]\<rparr>)"
    have "ss_writes ?s1 = [] @ False # []" by (simp add: OnWrite_def session_Read_def)
    from session_step.Write_done [OF w', of L h C D False] session_step.Write_done [OF this, of L h C D False]
    have "?step\<^sup>*\<^sup>* s (OnWrite False False (?s1\<lparr>ss_writes := [] @ []\<rparr>))"
      by (meson rtranclp.rtrancl_into_rtrancl rtranclp.rtrancl_refl)
    moreover have "ss_reads (OnWrite False False (?s1\<lparr>ss_writes := [] @ []\<rparr>)) = 2"
      using w(2) by (simp add: OnWrite_def session_Read_def)
    ultimately show ?thesis by blast
  qed
  with reach w(1) show ?thesis by blast
qed

theorem double_answer_breaks_session_witness:
  "\<exists>s. (session_step ref_lib (\<lambda>rq. sent (Send ref_lib ''a'' HttpResponseImpl) (\<lambda>rs. answered (Send ref_lib ''b'' rs)))
      UNIV UNIV)\<^sup>*\<^sup>* (session_Run HttpSession) s \<and> length (ss_writes s) = 2"
proof -
  let ?h = "\<lambda>rq :: beast_request. sent (Send ref_lib ''a'' HttpResponseImpl) (\<lambda>rs. answered (Send ref_lib ''b'' rs))"
  let ?rs = "Sent ref_lib ''b'' (Sent ref_lib ''a'' HttpResponseImpl)"
  have h: "?h rq = Finished (Some ?rs)" for rq by (simp add: takes_body_HttpResponseImpl)
  obtain a b where "rs_calls ?rs = [Write a, Write b]"
    by (simp add: resp_simps HttpResponseImpl_def)
  from double_answer_breaks_session [OF UNIV_I UNIV_I _ this, where h = ?h and L = ref_lib
      and db = "\<lparr>pg_currencies = \<lambda>q. (None, []), pg_ids = \<lambda>q. (None, []), pg_rates = \<lambda>q. (None, [])\<rparr>"]
  obtain s where "(session_step ref_lib ?h UNIV UNIV)\<^sup>*\<^sup>* (session_Run HttpSession) s"
    "ss_writes s = [need_eof ref_lib a, need_eof ref_lib b]" by (auto simp: h)
  then show ?thesis by (intro exI [of _ s]) simp
qed

end
