(* ===== verification/Components.thy ===== *)
theory Components
  imports Config
begin

text \<open>
  \<open>engine/src/components\<close> and \<open>engine/src/utils/factory.hpp\<close>: the factory of named objects and
  the container that makes components on demand.  The constructor of a component may ask
  the container for others, which makes them in turn.  A C++ type is named by a string; a
  component carries the types it can be cast to.
\<close>

section \<open>Factories\<close>

text \<open>\<open>FactoryBase\<close>: \<open>Add\<close> keeps the first registration of a name.\<close>

type_synonym 'cb factory = "(string, 'cb) kv"

definition FactoryBase_Add :: "string \<Rightarrow> 'cb \<Rightarrow> 'cb factory \<Rightarrow> 'cb factory" where
  "FactoryBase_Add name cb f = kv_insert (=) name cb f"

text \<open>\<open>Create\<close>: the callback of the name, to be applied to the arguments, or \<open>nullptr\<close>.\<close>

definition FactoryBase_Create :: "'cb factory \<Rightarrow> string \<Rightarrow> 'cb option" where
  "FactoryBase_Create f name = map_find name f"

text \<open>\<open>ForEach\<close> visits the registrations in an unspecified order.\<close>

definition FactoryBase_ForEach ::
  "('cb factory \<Rightarrow> 'cb factory) \<Rightarrow> (string \<times> 'cb \<Rightarrow> 's \<Rightarrow> 's) \<Rightarrow> 'cb factory \<Rightarrow> 's \<Rightarrow> 's" where
  "FactoryBase_ForEach ord cb f s = fold cb (ord f) s"

section \<open>Components and their constructors\<close>

record 'o component =
  cp_types :: "string list"
  cp_object :: 'o

text \<open>\<open>std::dynamic_pointer_cast<T>\<close>.\<close>

definition casts_to :: "string \<Rightarrow> 'o component \<Rightarrow> bool" where
  "casts_to T c = (T \<in> set (cp_types c))"

text \<open>
  What a constructor does, seen from the container: it asks for a component of a type under
  a name and goes on with it, or ends with its object, or throws.
\<close>

datatype 'o ctor =
    Constructed "'o component"
  | CtorThrows fault
  | GetComponent string string "'o component \<Rightarrow> 'o ctor"

record 'o components =
  cs_config :: yaml
  cs_factory :: "(yaml \<Rightarrow> 'o ctor) factory"
  cs_components :: "(string, 'o component) kv"

definition Components :: "yaml \<Rightarrow> (yaml \<Rightarrow> 'o ctor) factory \<Rightarrow> 'o components" where
  "Components cfg factory = \<lparr>cs_config = cfg, cs_factory = factory, cs_components = []\<rparr>"

text \<open>\<open>Add\<close> throws on a null pointer (\<open>None\<close>) and keeps a component that is already there.\<close>

definition Components_Add :: "string \<Rightarrow> 'o component option \<Rightarrow> 'o components \<Rightarrow> 'o components res" where
  "Components_Add key v s =
     (case v of
        None \<Rightarrow> throw_exn (StdException (''Trying to add an invalid value with key \"'' @ key @
          ''\" to the Components''))
      | Some c \<Rightarrow> Inr (s\<lparr>cs_components := kv_insert (=) key c (cs_components s)\<rparr>))"

definition Components_Contains :: "string \<Rightarrow> 'o components \<Rightarrow> bool" where
  "Components_Contains name s = kv_contains (=) name (cs_components s)"

definition Components_ForEach ::
  "((string, 'o component) kv \<Rightarrow> (string, 'o component) kv) \<Rightarrow>
     (string \<times> 'o component \<Rightarrow> 's \<Rightarrow> 's res) \<Rightarrow> 'o components \<Rightarrow> 's \<Rightarrow> 's res" where
  "Components_ForEach ord cb s x = fold_res cb (ord (cs_components s)) x"

definition ForEachComponentOfType ::
  "((string, 'o component) kv \<Rightarrow> (string, 'o component) kv) \<Rightarrow> string \<Rightarrow>
     ('o component \<Rightarrow> 's \<Rightarrow> 's res) \<Rightarrow> 'o components \<Rightarrow> 's \<Rightarrow> 's res" where
  "ForEachComponentOfType ord T cb s x =
     Components_ForEach ord (\<lambda>(name, c) y. if casts_to T c then cb c y else Inr y) s x"

definition type_error :: "string \<Rightarrow> string \<Rightarrow> 'a res" where
  "type_error component_name T =
     throw_exn (StdException (''Component \"'' @ component_name @ ''\" isn't type \"'' @ T @ ''\"''))"

text \<open>
  \<open>Get<T>(name)\<close> and the run of a constructor.  A circular dependency recurses without end,
  so \<open>Get\<close> has fuel, and \<open>None\<close> is a call that has not returned within it.
\<close>

primrec run_ctor ::
  "(string \<Rightarrow> string \<Rightarrow> 'o components \<Rightarrow> ('o component \<times> 'o components) res option) \<Rightarrow>
     'o ctor \<Rightarrow> 'o components \<Rightarrow> ('o component \<times> 'o components) res option" where
  "run_ctor get (Constructed c) s = Some (Inr (c, s))"
| "run_ctor get (CtorThrows e) s = Some (Inl e)"
| "run_ctor get (GetComponent T name k) s =
     (case get T name s of
        None \<Rightarrow> None
      | Some (Inl e) \<Rightarrow> Some (Inl e)
      | Some (Inr (c, s')) \<Rightarrow> run_ctor get (k c) s')"

fun Components_Get ::
  "'d lib \<Rightarrow> nat \<Rightarrow> string \<Rightarrow> string \<Rightarrow> 'o components \<Rightarrow> ('o component \<times> 'o components) res option" where
  "Components_Get L 0 T component_name s = None"
| "Components_Get L (Suc n) T component_name s =
     (case map_find component_name (cs_components s) of
        Some c \<Rightarrow> Some (if casts_to T c then Inr (c, s) else type_error component_name T)
      | None \<Rightarrow>
          (case RetrieveValidOrEmptyConfig L component_name (cs_config s) of
             Inl e \<Rightarrow> Some (Inl e)
           | Inr cfg \<Rightarrow>
               (case FactoryBase_Create (cs_factory s) component_name of
                  None \<Rightarrow> Some (throw_exn (StdException
                    (''Component \"'' @ component_name @ ''\" isn't registered in the factory'')))
                | Some cb \<Rightarrow>
                    (case run_ctor (Components_Get L n) (cb cfg) s of
                       None \<Rightarrow> None
                     | Some (Inl e) \<Rightarrow> Some (Inl e)
                     | Some (Inr (c, s')) \<Rightarrow>
                         Some (if casts_to T c
                               then res_bind (Components_Add component_name (Some c) s') (\<lambda>s''. Inr (c, s''))
                               else type_error component_name T)))))"

text \<open>\<open>MakeComponents\<close>: every registered component that is not there yet is made and added.\<close>

definition make_component ::
  "'d lib \<Rightarrow> nat \<Rightarrow> string \<times> (yaml \<Rightarrow> 'o ctor) \<Rightarrow> 'o components res option \<Rightarrow> 'o components res option" where
  "make_component L n entry st =
     (case (st, entry) of
        (Some (Inr s), (name, objCreationCb)) \<Rightarrow>
          if Components_Contains name s then Some (Inr s)
          else (case RetrieveValidOrEmptyConfig L name (cs_config s) of
                  Inl e \<Rightarrow> Some (Inl e)
                | Inr cfg \<Rightarrow>
                    (case run_ctor (Components_Get L n) (objCreationCb cfg) s of
                       None \<Rightarrow> None
                     | Some (Inl e) \<Rightarrow> Some (Inl e)
                     | Some (Inr (c, s')) \<Rightarrow> Some (Components_Add name (Some c) s')))
      | (st', _) \<Rightarrow> st')"

definition make_all_components ::
  "'d lib \<Rightarrow> nat \<Rightarrow> ((yaml \<Rightarrow> 'o ctor) factory \<Rightarrow> (yaml \<Rightarrow> 'o ctor) factory) \<Rightarrow> yaml \<Rightarrow>
     (yaml \<Rightarrow> 'o ctor) factory \<Rightarrow> 'o components res option" where
  "make_all_components L n ord cfg factory =
     FactoryBase_ForEach ord (make_component L n) factory (Some (Inr (Components cfg factory)))"

section \<open>A component is made once\<close>

text \<open>\<open>kept s s'\<close>: \<open>s'\<close> comes from \<open>s\<close> by adding components.\<close>

definition kept :: "'o components \<Rightarrow> 'o components \<Rightarrow> bool" where
  "kept s s' \<longleftrightarrow> cs_config s' = cs_config s \<and> cs_factory s' = cs_factory s \<and>
     (\<forall>name c. map_find name (cs_components s) = Some c \<longrightarrow> map_find name (cs_components s') = Some c)"

lemma kept_refl [simp]: "kept s s"
  by (simp add: kept_def)

lemma kept_trans: "kept s s' \<Longrightarrow> kept s' s'' \<Longrightarrow> kept s s''"
  by (simp add: kept_def)

lemma Components_Add_Some:
  "Components_Add name (Some c) s = Inr (s\<lparr>cs_components := kv_insert (=) name c (cs_components s)\<rparr>)"
  by (simp add: Components_Add_def)

lemma kept_Add: "Components_Add name v s = Inr s' \<Longrightarrow> kept s s' \<and> map_find name (cs_components s') \<noteq> None"
  by (auto simp: Components_Add_def kept_def std_key.find_insert split: option.splits)

lemma run_ctor_kept:
  assumes "\<And>T name s c s'. get T name s = Some (Inr (c, s')) \<Longrightarrow> kept s s'"
    and "run_ctor get k s = Some (Inr (c, s'))"
  shows "kept s s'"
  using assms(2)
proof (induction k arbitrary: s)
  case (GetComponent T name k)
  then obtain d t where "get T name s = Some (Inr (d, t))" "run_ctor get (k d) t = Some (Inr (c, s'))"
    by (auto split: option.splits sum.splits)
  with GetComponent.IH assms(1) show ?case by (blast intro: kept_trans)
qed auto

lemma Components_Get_kept:
  "Components_Get L n T name s = Some (Inr (c, s')) \<Longrightarrow>
    kept s s' \<and> map_find name (cs_components s') \<noteq> None"
proof (induction n arbitrary: T name s c s')
  case (Suc n)
  show ?case
  proof (cases "map_find name (cs_components s)")
    case None
    with Suc.prems obtain cfg cb d t where
      "run_ctor (Components_Get L n) (cb cfg) s = Some (Inr (d, t))"
      "Components_Add name (Some d) t = Inr s'"
      by (auto simp: res_simps type_error_def split: option.splits sum.splits if_splits)
    moreover have "kept s t"
      using run_ctor_kept [OF _ calculation(1)] Suc.IH by blast
    ultimately show ?thesis using kept_Add kept_trans by blast
  next
    case (Some d)
    with Suc.prems show ?thesis by (auto simp: type_error_def split: if_splits)
  qed
qed simp


section \<open>Acyclic dependencies\<close>

text \<open>
  The condition of the comment in \<open>components.hpp\<close>: there is a rank such that a constructor
  only asks for components of a lower rank than its own.
\<close>

primrec asks_below :: "(string \<Rightarrow> nat) \<Rightarrow> nat \<Rightarrow> 'o ctor \<Rightarrow> bool" where
  "asks_below rank r (Constructed c) = True"
| "asks_below rank r (CtorThrows e) = True"
| "asks_below rank r (GetComponent T name k) = (rank name < r \<and> (\<forall>c. asks_below rank r (k c)))"

definition acyclic_factory :: "(string \<Rightarrow> nat) \<Rightarrow> (yaml \<Rightarrow> 'o ctor) factory \<Rightarrow> bool" where
  "acyclic_factory rank f \<longleftrightarrow>
     (\<forall>name cb cfg. map_find name f = Some cb \<longrightarrow> asks_below rank (rank name) (cb cfg))"

text \<open>New components have at most the rank of what was asked for.\<close>

definition adds_upto :: "(string \<Rightarrow> nat) \<Rightarrow> nat \<Rightarrow> 'o components \<Rightarrow> 'o components \<Rightarrow> bool" where
  "adds_upto rank r s s' \<longleftrightarrow>
     (\<forall>name. map_find name (cs_components s') \<noteq> None \<longrightarrow>
        map_find name (cs_components s) \<noteq> None \<or> rank name \<le> r)"

lemma adds_upto_refl [simp]: "adds_upto rank r s s"
  by (simp add: adds_upto_def)

lemma adds_upto_trans: "adds_upto rank r s s' \<Longrightarrow> adds_upto rank r s' s'' \<Longrightarrow> adds_upto rank r s s''"
  unfolding adds_upto_def by metis

lemma run_ctor_adds_below:
  assumes "\<And>T name s c s'. get T name s = Some (Inr (c, s')) \<Longrightarrow> cs_factory s = f \<Longrightarrow>
      cs_factory s' = f \<and> adds_upto rank (rank name) s s'"
    and "run_ctor get k s = Some (Inr (c, s'))" and "asks_below rank (Suc r) k" and "cs_factory s = f"
  shows "adds_upto rank r s s'"
  using assms(2-4)
proof (induction k arbitrary: s)
  case (GetComponent T name k)
  then obtain d t where get: "get T name s = Some (Inr (d, t))"
    and run: "run_ctor get (k d) t = Some (Inr (c, s'))"
    by (auto split: option.splits sum.splits)
  from assms(1) [OF get GetComponent.prems(3)] have t: "cs_factory t = f" "adds_upto rank (rank name) s t"
    by auto
  from GetComponent.prems(2) have "rank name \<le> r" "asks_below rank (Suc r) (k d)" by auto
  moreover from this t have "adds_upto rank r s t" by (auto simp: adds_upto_def)
  ultimately show ?case
    using GetComponent.IH [OF rangeI run] t(1) by (blast intro: adds_upto_trans)
qed auto

lemma asks_below_0: "asks_below rank 0 k \<Longrightarrow> run_ctor get k s = Some (Inr (c, s')) \<Longrightarrow> s' = s"
  by (cases k) auto

lemma Components_Get_adds:
  assumes "acyclic_factory rank (cs_factory s)" and "Components_Get L n T name s = Some (Inr (c, s'))"
  shows "adds_upto rank (rank name) s s' \<and> map_find name (cs_components s') = Some c \<and> casts_to T c"
  using assms
proof (induction n arbitrary: T name s c s')
  case (Suc n)
  show ?case
  proof (cases "map_find name (cs_components s)")
    case (Some d)
    with Suc.prems show ?thesis by (auto simp: type_error_def split: if_splits)
  next
    case None
    with Suc.prems(2) obtain cfg cb t where cb: "FactoryBase_Create (cs_factory s) name = Some cb"
      and run: "run_ctor (Components_Get L n) (cb cfg) s = Some (Inr (c, t))"
      and s': "s' = t\<lparr>cs_components := kv_insert (=) name c (cs_components t)\<rparr>" and T: "casts_to T c"
      by (auto simp: res_simps type_error_def Components_Add_Some split: option.splits sum.splits if_splits)
    have below: "asks_below rank (rank name) (cb cfg)"
      using Suc.prems(1) cb by (simp add: acyclic_factory_def FactoryBase_Create_def)
    have t: "\<forall>m. map_find m (cs_components t) \<noteq> None \<longrightarrow>
        map_find m (cs_components s) \<noteq> None \<or> rank m < rank name"
    proof (cases "rank name")
      case 0
      with below run asks_below_0 show ?thesis by metis
    next
      case (Suc r)
      have "adds_upto rank r s t"
      proof (rule run_ctor_adds_below [OF _ run _ refl])
        show "asks_below rank (Suc r) (cb cfg)" using below Suc by simp
        show "cs_factory u' = cs_factory s \<and> adds_upto rank (rank m) u u'"
          if "Components_Get L n U m u = Some (Inr (d, u'))" "cs_factory u = cs_factory s" for U m u d u'
          using Suc.IH [OF _ that(1)] Components_Get_kept [OF that(1)] that(2) Suc.prems(1)
          by (auto simp: kept_def)
      qed
      with Suc show ?thesis by (auto simp: adds_upto_def)
    qed
    then have "map_find name (cs_components t) = None" using None by blast
    with t s' T show ?thesis
      by (auto simp: adds_upto_def std_key.find_insert)
  qed
qed simp

lemma run_ctor_returns:
  assumes "\<And>T name s. rank name < r \<Longrightarrow> cs_factory s = f \<Longrightarrow> get T name s \<noteq> None"
    and "\<And>T name s c s'. get T name s = Some (Inr (c, s')) \<Longrightarrow> cs_factory s' = cs_factory s"
    and "asks_below rank r k" and "cs_factory s = f"
  shows "run_ctor get k s \<noteq> None"
  using assms(3,4)
proof (induction k arbitrary: s)
  case (GetComponent T name k)
  with assms(1) [of name s T] obtain x where x: "get T name s = Some x" by auto
  show ?case
  proof (cases x)
    case (Inr p)
    obtain d t where p: "p = (d, t)" by (cases p)
    with x Inr assms(2) have "cs_factory t = f" using GetComponent.prems(2) by blast
    with GetComponent.IH [of "k d" t] GetComponent.prems(1) x Inr p show ?thesis by simp
  qed (use x in simp)
qed auto

lemma Components_Get_returns:
  assumes "acyclic_factory rank (cs_factory s)" and "rank name < n"
  shows "Components_Get L n T name s \<noteq> None"
  using assms
proof (induction n arbitrary: T name s)
  case (Suc n)
  have run: "\<exists>r. run_ctor (Components_Get L n) (cb cfg) s = Some r"
    if "FactoryBase_Create (cs_factory s) name = Some cb" for cb cfg
    unfolding not_None_eq [symmetric]
  proof (rule run_ctor_returns [where rank = rank and r = "rank name" and f = "cs_factory s"])
    show "asks_below rank (rank name) (cb cfg)"
      using Suc.prems(1) that by (simp add: acyclic_factory_def FactoryBase_Create_def)
    show "Components_Get L n U m u \<noteq> None" if "rank m < rank name" "cs_factory u = cs_factory s" for U m u
      using Suc.IH [of u m U] Suc.prems that by simp
    show "cs_factory u' = cs_factory u" if "Components_Get L n U m u = Some (Inr (d, u'))" for U m u d u'
      using Components_Get_kept [OF that] by (simp add: kept_def)
  qed simp
  show ?case
  proof (cases "RetrieveValidOrEmptyConfig L name (cs_config s)")
    case cfg: (Inr cfg)
    show ?thesis
    proof (cases "FactoryBase_Create (cs_factory s) name")
      case (Some cb)
      with run [OF Some, of cfg] cfg show ?thesis by (auto split: option.split sum.split)
    qed (use cfg in \<open>simp split: option.split\<close>)
  qed (simp split: option.split)
qed simp

text \<open>
  C26: with acyclic dependencies \<open>Get\<close> returns, and a component it returns is of the type
  asked for and is the one every later \<open>Get\<close> of that name returns, in whatever way the
  container has grown since.
\<close>

theorem component_is_made_once:
  assumes "acyclic_factory rank (cs_factory s)" and "rank name < n"
  shows "\<exists>r. Components_Get L n T name s = Some r \<and>
    (\<forall>c s'. r = Inr (c, s') \<longrightarrow> casts_to T c \<and> kept s s' \<and>
       (\<forall>m t. kept s' t \<longrightarrow> Components_Get L (Suc m) T name t = Some (Inr (c, t))))"
proof -
  obtain r where r: "Components_Get L n T name s = Some r"
    using Components_Get_returns [OF assms, of L T] by blast
  have "casts_to T c \<and> kept s s' \<and>
      (\<forall>m t. kept s' t \<longrightarrow> Components_Get L (Suc m) T name t = Some (Inr (c, t)))"
    if "r = Inr (c, s')" for c s'
    using Components_Get_adds [OF assms(1) r [unfolded that]] Components_Get_kept [OF r [unfolded that]]
    by (auto simp: kept_def)
  with r show ?thesis by blast
qed

theorem component_is_made_once_witness:
  "\<exists>c s'. Components_Get ref_lib 2 ''T'' ''b''
      (Components YNull [(''a'', \<lambda>cfg. Constructed \<lparr>cp_types = [''T''], cp_object = (1 :: nat)\<rparr>),
        (''b'', \<lambda>cfg. GetComponent ''T'' ''a'' (\<lambda>c. Constructed (c\<lparr>cp_object := cp_object c + 1\<rparr>)))]) =
      Some (Inr (c, s')) \<and> cp_object c = 2 \<and>
      Components_Get ref_lib 1 ''T'' ''b'' s' = Some (Inr (c, s'))"
proof -
  define f :: "(yaml \<Rightarrow> nat ctor) factory" where
    "f = [(''a'', \<lambda>cfg. Constructed \<lparr>cp_types = [''T''], cp_object = 1\<rparr>),
      (''b'', \<lambda>cfg. GetComponent ''T'' ''a'' (\<lambda>c. Constructed (c\<lparr>cp_object := cp_object c + 1\<rparr>)))]"
  have "acyclic_factory (\<lambda>name. if name = ''b'' then 1 else 0) (cs_factory (Components YNull f))"
    by (auto simp: acyclic_factory_def Components_def f_def)
  from component_is_made_once [OF this, of "''b''" 2 ref_lib "''T''"]
  obtain r where "Components_Get ref_lib 2 ''T'' ''b'' (Components YNull f) = Some r"
    and once: "\<forall>c s'. r = Inr (c, s') \<longrightarrow> kept s' s' \<longrightarrow>
      Components_Get ref_lib (Suc 0) ''T'' ''b'' s' = Some (Inr (c, s'))" by auto
  moreover from this(1) obtain c s' where "r = Inr (c, s')" "cp_object c = 2"
    by (auto simp: numeral_2_eq_2 Components_def f_def FactoryBase_Create_def casts_to_def yaml_at_def
        RetrieveValidOrEmptyConfig_def IsDefined_def ref_lib_def ref_yaml_sub_def Components_Add_def kv_insert_def)
  ultimately show ?thesis by (auto simp: f_def)
qed

end
