(* ===== verification/Server.thy ===== *)
theory Server
  imports Session Components Io_Context
begin

text \<open>
  \<open>engine/src/http_server/listener.hpp\<close> and \<open>server.cpp\<close>: accepting connections, and the life
  of the server from \<open>Run\<close> to \<open>Stop\<close>.  Sockets, addresses and signals belong to Asio: what
  it says of an address or an endpoint is a parameter.
\<close>

section \<open>The network\<close>

text \<open>
  Does \<open>make_address\<close> accept a text, and what stops an acceptor: its opening, the option, the
  address and port it is bound to, listening (\<open>None\<close>: nothing).
\<close>

record network =
  net_make_address :: "string \<Rightarrow> bool"
  net_open :: "string \<Rightarrow> string option"
  net_set_option :: "string option"
  net_bind :: "string \<Rightarrow> 16 word \<Rightarrow> string option"
  net_listen :: "string option"

section \<open>The listener\<close>

record listener =
  ln_accepts :: nat
  ln_sessions :: "session list"
  ln_log :: "(Level \<times> string) list"

text \<open>The constructor opens, binds and listens; each call throws if the system refuses.\<close>

definition acceptor_call :: "string option \<Rightarrow> unit res" where
  "acceptor_call err = (case err of Some msg \<Rightarrow> throw_exn (StdException msg) | None \<Rightarrow> Inr ())"

definition Listener_ctor :: "network \<Rightarrow> string \<Rightarrow> 16 word \<Rightarrow> listener res" where
  "Listener_ctor net address port =
     res_bind (acceptor_call (net_open net address)) (\<lambda>_.
     res_bind (acceptor_call (net_set_option net)) (\<lambda>_.
     res_bind (acceptor_call (net_bind net address port)) (\<lambda>_.
     res_bind (acceptor_call (net_listen net)) (\<lambda>_.
     Inr \<lparr>ln_accepts = 0, ln_sessions = [], ln_log = []\<rparr>))))"

definition MakeListener :: "network \<Rightarrow> string \<Rightarrow> 16 word \<Rightarrow> listener res" where
  "MakeListener net address port = Listener_ctor net address port"

definition can_listen :: "network \<Rightarrow> string \<Rightarrow> 16 word \<Rightarrow> bool" where
  "can_listen net address port \<longleftrightarrow> net_make_address net address \<and> net_open net address = None \<and>
     net_set_option net = None \<and> net_bind net address port = None \<and> net_listen net = None"

text \<open>A network that refuses nothing.\<close>

definition open_network :: network where
  "open_network = \<lparr>net_make_address = \<lambda>a. True, net_open = \<lambda>a. None, net_set_option = None,
     net_bind = \<lambda>a p. None, net_listen = None\<rparr>"

lemma open_network_listens [simp]: "can_listen open_network address port"
  by (simp add: can_listen_def open_network_def)

lemma MakeListener_Inr:
  "MakeListener net address port = Inr l \<Longrightarrow> l = \<lparr>ln_accepts = 0, ln_sessions = [], ln_log = []\<rparr>"
  by (auto simp: MakeListener_def Listener_ctor_def acceptor_call_def res_simps split: option.splits)

lemma MakeListener_can_listen:
  "can_listen net address port \<Longrightarrow> MakeListener net address port = Inr \<lparr>ln_accepts = 0, ln_sessions = [], ln_log = []\<rparr>"
  by (simp add: MakeListener_def Listener_ctor_def acceptor_call_def can_listen_def res_simps)

definition DoAccept :: "listener \<Rightarrow> listener" where
  "DoAccept l = l\<lparr>ln_accepts := Suc (ln_accepts l)\<rparr>"

definition Listener_Run :: "listener \<Rightarrow> listener" where
  "Listener_Run l = DoAccept l"

text \<open>An endpoint whose address cannot be shown (\<open>ip_ec\<close>) gets its session all the same.\<close>

definition AsyncRunSession :: "string option \<Rightarrow> listener \<Rightarrow> listener" where
  "AsyncRunSession ip_ec l =
     (let l' = (case ip_ec of
          Some msg \<Rightarrow> l\<lparr>ln_log := ln_log l @ [(lvl_error, ''Error converting IP to string. '' @ msg)]\<rparr>
        | None \<Rightarrow> l)
      in l'\<lparr>ln_sessions := ln_sessions l' @ [session_Run HttpSession]\<rparr>)"

datatype accept_result = Accepted "string option" | AcceptError string

definition OnAccept :: "accept_result \<Rightarrow> listener \<Rightarrow> listener" where
  "OnAccept r l =
     (case r of
        AcceptError msg \<Rightarrow>
          DoAccept (l\<lparr>ln_log := ln_log l @ [(lvl_error, ''Error accepting connection. '' @ msg)]\<rparr>)
      | Accepted ip_ec \<Rightarrow> DoAccept (AsyncRunSession ip_ec l))"

text \<open>The results of accepting, one after the other: each completes a pending accept.\<close>

fun listener_events :: "accept_result list \<Rightarrow> listener \<Rightarrow> listener option" where
  "listener_events [] l = Some l"
| "listener_events (r # rs) l =
     (case ln_accepts l of
        0 \<Rightarrow> None
      | Suc n \<Rightarrow> listener_events rs (OnAccept r (l\<lparr>ln_accepts := n\<rparr>)))"

section \<open>The server\<close>

text \<open>
  \<open>server_actions\<close>: what the server does with the system and its components, in order; an
  event loop is named by its component.
\<close>

datatype 'o server_action =
    Listen string "16 word"
  | Run_io "'o component"
  | Join_io "'o component"
  | Stop_io "'o component"

record 'o server =
  sv_context :: server_context
  sv_components :: "'o components"
  sv_io_context :: "'o component"
  sv_signal_waits :: nat

text \<open>The server's own accessors; its context is made of the server and forwards to them.\<close>

definition ServerImpl_GetRouter :: "'o server \<Rightarrow> handler routes" where
  "ServerImpl_GetRouter s = GetRouter (sv_context s)"

definition ServerImpl_GetConfig :: "'o server \<Rightarrow> config" where
  "ServerImpl_GetConfig s = GetConfig (sv_context s)"

definition ServerImpl_GetHttpFilterContextsMap :: "'o server \<Rightarrow> filter_contexts_map" where
  "ServerImpl_GetHttpFilterContextsMap s = GetHttpFilterContextsMap (sv_context s)"

definition ServerImpl_GetExceptionsHandler :: "'o server \<Rightarrow> exceptions_handler" where
  "ServerImpl_GetExceptionsHandler s = GetExceptionsHandler (sv_context s)"

definition SetSigtermAndSigintHandler :: "'o server \<Rightarrow> 'o server" where
  "SetSigtermAndSigintHandler s = s\<lparr>sv_signal_waits := Suc (sv_signal_waits s)\<rparr>"

definition ServerImpl ::
  "'d lib \<Rightarrow> nat \<Rightarrow> config \<Rightarrow> handler routes \<Rightarrow> filter_contexts_map \<Rightarrow> exceptions_handler \<Rightarrow> 'o components \<Rightarrow>
     'o server res option" where
  "ServerImpl L n cfg router http_filter_contexts_map xh components =
     (case Components_Get L n ''ServerIOContext'' ''server_io_context'' components of
        None \<Rightarrow> None
      | Some (Inl e) \<Rightarrow> Some (Inl e)
      | Some (Inr (io, components')) \<Rightarrow>
          Some (Inr (SetSigtermAndSigintHandler
            \<lparr>sv_context = \<lparr>sc_router = router, sc_config = cfg,
                           sc_http_filter_contexts_map = http_filter_contexts_map, sc_exceptions_handler = xh\<rparr>,
             sv_components = components', sv_io_context = io, sv_signal_waits = 0\<rparr>)))"

text \<open>The configured port is a \<open>size_t\<close>; the port type of the network has 16 bits.\<close>

definition server_port :: "config \<Rightarrow> 16 word" where
  "server_port cfg = ucast (general_port (cfg_general cfg))"

definition for_io_contexts ::
  "((string, 'o component) kv \<Rightarrow> (string, 'o component) kv) \<Rightarrow> ('o component \<Rightarrow> 'o server_action) \<Rightarrow>
     'o components \<Rightarrow> 'o server_action list \<Rightarrow> 'o server_action list res" where
  "for_io_contexts ord act cs tr =
     ForEachComponentOfType ord ''IOContextBase'' (\<lambda>c tr. Inr (tr @ [act c])) cs tr"

text \<open>\<open>Run\<close> listens, starts the threads of all event loops, and waits for all of them.\<close>

definition ServerImpl_Run ::
  "network \<Rightarrow> ((string, 'o component) kv \<Rightarrow> (string, 'o component) kv) \<Rightarrow> 'o server \<Rightarrow>
     (listener \<times> 'o server_action list) res" where
  "ServerImpl_Run net ord s =
     (let cfg = GetConfig (sv_context s); address = general_address (cfg_general cfg)
      in if \<not> net_make_address net address then throw_exn (StdException ''make_address'')
         else res_bind (MakeListener net address (server_port cfg)) (\<lambda>l.
              res_bind (for_io_contexts ord Run_io (sv_components s) [Listen address (server_port cfg)]) (\<lambda>tr.
              res_bind (for_io_contexts ord Join_io (sv_components s) tr) (\<lambda>tr.
              Inr (Listener_Run l, tr)))))"

definition ServerImpl_Stop ::
  "((string, 'o component) kv \<Rightarrow> (string, 'o component) kv) \<Rightarrow> 'o server \<Rightarrow> 'o server_action list res" where
  "ServerImpl_Stop ord s = for_io_contexts ord Stop_io (sv_components s) []"

text \<open>The handler of \<open>SIGINT\<close> and \<open>SIGTERM\<close>; an error is only logged.\<close>

definition signal_handler ::
  "((string, 'o component) kv \<Rightarrow> (string, 'o component) kv) \<Rightarrow> bool \<Rightarrow> 'o server \<Rightarrow>
     ('o server \<times> 'o server_action list) res" where
  "signal_handler ord ec s =
     (let s' = s\<lparr>sv_signal_waits := sv_signal_waits s - 1\<rparr>
      in if ec then Inr (s', []) else res_bind (ServerImpl_Stop ord s') (\<lambda>tr. Inr (s', tr)))"

section \<open>Facts\<close>

definition accepted :: "accept_result \<Rightarrow> bool" where
  "accepted r = (case r of Accepted ip \<Rightarrow> True | AcceptError m \<Rightarrow> False)"

lemma OnAccept_fields:
  "ln_accepts (OnAccept r l) = Suc (ln_accepts l)"
  "ln_sessions (OnAccept r l) = ln_sessions l @ (if accepted r then [session_Run HttpSession] else [])"
  by (auto simp: OnAccept_def DoAccept_def AsyncRunSession_def accepted_def Let_def
      split: accept_result.split option.split)

text \<open>
  C33: a running listener always has exactly one accept pending, whatever the earlier
  results were, and has started one fresh session for each connection it accepted.
\<close>

theorem listener_keeps_accepting:
  assumes "MakeListener net address port = Inr l"
  shows "\<exists>l'. listener_events rs (Listener_Run l) = Some l' \<and> ln_accepts l' = 1 \<and>
    ln_sessions l' = replicate (length (filter accepted rs)) (session_Run HttpSession)"
proof -
  have "ln_accepts l = 1 \<Longrightarrow> \<exists>l'. listener_events rs l = Some l' \<and> ln_accepts l' = 1 \<and>
      ln_sessions l' = ln_sessions l @ replicate (length (filter accepted rs)) (session_Run HttpSession)" for l
  proof (induction rs arbitrary: l)
    case (Cons r rs)
    from Cons.IH [of "OnAccept r (l\<lparr>ln_accepts := 0\<rparr>)"] Cons.prems show ?case
      by (auto simp: OnAccept_fields)
  qed simp
  from this [of "Listener_Run l"] assms show ?thesis
    by (auto simp: Listener_Run_def DoAccept_def dest!: MakeListener_Inr)
qed

theorem listener_keeps_accepting_witness:
  "\<exists>l'. listener_events [Accepted None, AcceptError ''busy'', Accepted (Some ''v6'')]
      (Listener_Run \<lparr>ln_accepts = 0, ln_sessions = [], ln_log = []\<rparr>) = Some l' \<and>
    ln_accepts l' = 1 \<and> length (ln_sessions l') = 2"
proof -
  have "MakeListener open_network ''0.0.0.0'' 80 =
      Inr \<lparr>ln_accepts = 0, ln_sessions = [], ln_log = []\<rparr>"
    by (simp add: MakeListener_can_listen)
  from listener_keeps_accepting [OF this, of "[Accepted None, AcceptError ''busy'', Accepted (Some ''v6'')]"]
  show ?thesis by (auto simp: accepted_def)
qed

text \<open>The event loops among the components.\<close>

definition io_components :: "'o components \<Rightarrow> 'o component list" where
  "io_components cs = filter (casts_to ''IOContextBase'') (map snd (cs_components cs))"

lemma for_io_contexts_eq:
  "for_io_contexts ord act cs tr =
     Inr (tr @ map act (filter (casts_to ''IOContextBase'') (map snd (ord (cs_components cs)))))"
proof -
  have "fold_res (\<lambda>(name, c) y. if casts_to ''IOContextBase'' c then Inr (y @ [act c]) else Inr y) m tr =
      Inr (tr @ map act (filter (casts_to ''IOContextBase'') (map snd m)))" for m :: "(string, 'a component) kv"
    by (induction m arbitrary: tr) auto
  then show ?thesis by (simp add: for_io_contexts_def ForEachComponentOfType_def Components_ForEach_def)
qed

lemma io_order:
  assumes "iteration_order ord"
  shows "mset (filter (casts_to ''IOContextBase'') (map snd (ord (cs_components cs)))) = mset (io_components cs)"
  using assms by (simp add: iteration_order_def io_components_def mset_map)

text \<open>
  C34: a server that starts listens once, on its address and on the low 16 bits of its port,
  then starts every event loop once, and only then waits for every one of them.
\<close>

theorem server_run_actions:
  assumes "ServerImpl_Run net ord s = Inr (l, tr)" and "iteration_order ord"
  shows "\<exists>xs ys. tr = Listen (general_address (cfg_general (GetConfig (sv_context s))))
        (server_port (GetConfig (sv_context s))) # map Run_io xs @ map Join_io ys \<and>
      mset xs = mset (io_components (sv_components s)) \<and> mset ys = mset (io_components (sv_components s)) \<and>
      unat (server_port (GetConfig (sv_context s))) =
        unat (general_port (cfg_general (GetConfig (sv_context s)))) mod 65536 \<and>
      ln_accepts l = 1"
proof -
  have "unat (server_port (GetConfig (sv_context s))) =
      unat (general_port (cfg_general (GetConfig (sv_context s)))) mod 65536"
    by (simp add: server_port_def unsigned_ucast_eq take_bit_eq_mod)
  moreover have "ln_accepts l = 1"
    using assms(1) by (auto simp: ServerImpl_Run_def Let_def res_simps Listener_Run_def DoAccept_def
        dest!: MakeListener_Inr split: if_splits sum.splits)
  moreover define xs where
    "xs = filter (casts_to ''IOContextBase'') (map snd (ord (cs_components (sv_components s))))"
  then have "tr = Listen (general_address (cfg_general (GetConfig (sv_context s))))
      (server_port (GetConfig (sv_context s))) # map Run_io xs @ map Join_io xs"
    using assms(1) by (auto simp: ServerImpl_Run_def Let_def res_simps for_io_contexts_eq split: if_splits)
  moreover have "mset xs = mset (io_components (sv_components s))"
    unfolding xs_def by (rule io_order [OF assms(2)])
  ultimately show ?thesis by blast
qed

theorem server_run_actions_witness:
  "let cfg = Config_default\<lparr>cfg_general := General_default\<lparr>general_port := 65616\<rparr>\<rparr>;
       s = \<lparr>sv_context = \<lparr>sc_router = [], sc_config = cfg, sc_http_filter_contexts_map = [],
           sc_exceptions_handler = ExceptionsHandlerImpl ref_lib\<rparr>, sv_components = Components YNull [],
         sv_io_context = \<lparr>cp_types = [], cp_object = ()\<rparr>, sv_signal_waits = 1\<rparr>
   in \<exists>l tr. ServerImpl_Run open_network (\<lambda>m. m) s = Inr (l, tr) \<and>
        hd tr = Listen (general_address General_default) 80 \<and> ln_accepts l = 1"
proof -
  let ?cfg = "Config_default\<lparr>cfg_general := General_default\<lparr>general_port := 65616\<rparr>\<rparr>"
  let ?s = "\<lparr>sv_context = \<lparr>sc_router = [], sc_config = ?cfg, sc_http_filter_contexts_map = [],
      sc_exceptions_handler = ExceptionsHandlerImpl ref_lib\<rparr>, sv_components = Components YNull [],
    sv_io_context = \<lparr>cp_types = [], cp_object = ()\<rparr>, sv_signal_waits = 1\<rparr>"
  have "net_make_address open_network a" for a by (simp add: open_network_def)
  then obtain l tr where run: "ServerImpl_Run open_network (\<lambda>m. m) ?s = Inr (l, tr)"
    by (simp add: ServerImpl_Run_def Let_def MakeListener_can_listen for_io_contexts_eq)
  from server_run_actions [OF this iteration_order_id]
  have "hd tr = Listen (general_address General_default) (server_port ?cfg)" "ln_accepts l = 1"
      "unat (server_port ?cfg) = 80"
    by (auto simp: GetConfig_def)
  moreover from this(3) have "server_port ?cfg = 80" by (simp add: word_unat_eq_iff)
  ultimately show ?thesis using run
    by (simp add: Let_def)
qed

end
