(* ===== verification/Router_Filling.thy ===== *)
theory Router_Filling
  imports Request_Handler Router_Bindings
begin

text \<open>
  The routers that \<open>MakeRouterAndHttpFilterCtxsMap\<close> fills from a configuration: one table of
  routes for each method.
\<close>

section \<open>The routes of a method\<close>

lemma insert_all_append:
  "insert_all L (xs @ ys) ns = res_bind (insert_all L xs ns) (insert_all L ys)"
proof (induction xs arbitrary: ns)
  case (Cons x xs)
  then show ?case by (cases "router_insert L (fst x) (snd x) ns") simp_all
qed simp

text \<open>\<open>H name\<close> is the handler created under a name.\<close>

definition method_routes ::
  "'d lib \<Rightarrow> (string \<Rightarrow> handler) \<Rightarrow> HttpMethod \<Rightarrow> (string, http_handler_config) kv \<Rightarrow> (string \<times> string \<times> handler) list"
where
  "method_routes L H m entries =
     map (\<lambda>(name, c). (hc_path c, (name, H name)))
       (filter (\<lambda>(name, c). ToHttpMethodEnum L (hc_method c) = m) entries)"

definition routed ::
  "'d lib \<Rightarrow> (string \<Rightarrow> handler) \<Rightarrow> (string, http_handler_config) kv \<Rightarrow> handler routes \<Rightarrow> bool" where
  "routed L H entries routes \<longleftrightarrow>
     (\<forall>m. case map_find m routes of
            None \<Rightarrow> method_routes L H m entries = []
          | Some r \<Rightarrow> insert_all L (method_routes L H m entries) router_empty = Inr r)"

text \<open>An entry whose handler exists, whose method is known and which has no filters.\<close>

definition plain_entry ::
  "'d lib \<Rightarrow> 'c handlers_factory \<Rightarrow> ('c \<Rightarrow> bool) \<Rightarrow> (string \<Rightarrow> handler) \<Rightarrow> string \<times> http_handler_config \<Rightarrow> bool" where
  "plain_entry L create ok H entry \<longleftrightarrow>
     (case entry of (name, c) \<Rightarrow>
        (\<forall>s. ok s \<longrightarrow> (\<exists>s'. create name (hc_yaml_config c) s = Inr (Some (H name), s') \<and> ok s')) \<and>
        ToHttpMethodEnum L (hc_method c) \<noteq> kUnknown \<and> routable L (hc_path c) \<and> hc_filters c = [])"

lemma method_routes_routable:
  "\<forall>e \<in> set entries. plain_entry L create ok H e \<Longrightarrow> \<forall>r \<in> set (method_routes L H m entries). routable L (fst r)"
  by (auto simp: method_routes_def plain_entry_def)

lemma add_handler_routed:
  assumes "plain_entry L create ok H e" and "\<forall>e \<in> set entries. plain_entry L create ok H e"
    and "routed L H entries routes" and "ok s"
  shows "\<exists>routes' s'. add_handler L create cf xh e (routes, fm, s) = Inr (routes', fm, s') \<and>
    routed L H (entries @ [e]) routes' \<and> ok s'"
proof -
  obtain name c where e: "e = (name, c)" by (cases e)
  let ?m = "ToHttpMethodEnum L (hc_method c)" and ?new = "(hc_path c, (name, H name))"
  define r where "r = (case map_find ?m routes of Some r \<Rightarrow> r | None \<Rightarrow> router_empty)"
  have r: "insert_all L (method_routes L H ?m entries) router_empty = Inr r"
    using assms(3) unfolding routed_def r_def by (auto split: option.splits dest!: spec [of _ ?m])
  from assms(1,4) e obtain s' where s': "create name (hc_yaml_config c) s = Inr (Some (H name), s')" "ok s'"
    and entry: "?m \<noteq> kUnknown" "routable L (hc_path c)" "hc_filters c = []" by (auto simp: plain_entry_def)
  have "\<forall>x \<in> set (method_routes L H ?m entries @ [?new]). routable L (fst x)"
    using method_routes_routable [OF assms(2)] entry(2) by auto
  from insert_all_represents [OF this] obtain r' where
    r': "insert_all L (method_routes L H ?m entries @ [?new]) router_empty = Inr r'" by blast
  with r have add: "router_insert L (hc_path c) (name, H name) r = Inr r'"
    by (simp add: insert_all_append res_simps)
  let ?routes = "kv_insert_or_assign (=) ?m r' routes"
  have "Router_Add L ?m (hc_path c) name (H name) routes = Inr ?routes"
    using add by (simp add: Router_Add_def Let_def r_def)
  then have "add_handler L create cf xh e (routes, fm, s) = Inr (?routes, fm, s')"
    using s' entry e by (simp add: add_handler_def Let_def FillFilterCtxsMap_def)
  moreover have "routed L H (entries @ [e]) ?routes"
    unfolding routed_def
  proof
    fix m
    have "method_routes L H m (entries @ [e]) = method_routes L H m entries @ (if ?m = m then [?new] else [])"
      by (simp add: method_routes_def e)
    with r' assms(3) [unfolded routed_def, THEN spec, of m] show "case map_find m ?routes of None \<Rightarrow> method_routes L H m (entries @ [e]) = []
        | Some r \<Rightarrow> insert_all L (method_routes L H m (entries @ [e])) router_empty = Inr r"
      by (cases "?m = m"; cases "map_find m routes") (auto simp: std_key.find_insert_or_assign)
  qed
  ultimately show ?thesis using s'(2) by blast
qed

lemma fill_routed:
  assumes "\<forall>e \<in> set entries. plain_entry L create ok H e" and "ok s"
  shows "\<exists>routes s'. fold_res (add_handler L create cf xh) entries ([], [], s) = Inr (routes, [], s') \<and>
    routed L H entries routes \<and> ok s'"
proof -
  have "\<exists>routes' s'. fold_res (add_handler L create cf xh) es (routes, [], s) = Inr (routes', [], s') \<and>
      routed L H (before @ es) routes' \<and> ok s'"
    if "\<forall>e \<in> set (before @ es). plain_entry L create ok H e" "routed L H before routes" "ok s" for before es routes s
    using that
  proof (induction es arbitrary: before routes s)
    case (Cons e es)
    then obtain routes1 s1 where "add_handler L create cf xh e (routes, [], s) = Inr (routes1, [], s1)"
      "routed L H (before @ [e]) routes1" "ok s1"
      using add_handler_routed [of L create ok H e before routes s cf xh "[]"] by auto
    with Cons.IH [of "before @ [e]" routes1 s1] Cons.prems(1) show ?case by simp
  qed simp
  from this [of "[]" entries "[]"] assms show ?thesis by (simp add: routed_def method_routes_def)
qed

section \<open>Looking up\<close>

text \<open>What \<open>Find\<close> returns, for tables whose templates do not compete.\<close>

definition found_route ::
  "'d lib \<Rightarrow> (string \<times> string \<times> handler) list \<Rightarrow> string list \<Rightarrow> handler find_result option" where
  "found_route L rs segs =
     (case find_route L (route_table L rs) segs of
        (None, bs) \<Rightarrow> None
      | (Some (name, h), bs) \<Rightarrow> Some \<lparr>fr_handler_name = name, fr_handler = h, fr_match_result = bs\<rparr>)"

lemma Router_Find_routed:
  assumes "routed L H entries routes" and "clear_routes L (method_routes L H m entries)"
    and "lib_parse_path L uri = Some segs" and "segs \<noteq> []" and "no_dots L segs"
  shows "Router_Find L routes m uri = ret (found_route L (method_routes L H m entries) segs)"
proof (cases "map_find m routes")
  case None
  with assms(1) have "method_routes L H m entries = []" unfolding routed_def by (auto dest!: spec [of _ m])
  with None show ?thesis by (simp add: Router_Find_def found_route_def find_route_def route_table_def)
next
  case (Some r)
  with assms(1) have "insert_all L (method_routes L H m entries) router_empty = Inr r"
    unfolding routed_def by (auto dest!: spec [of _ m])
  from router_finds_clear [OF assms(2) this assms(4,5)] Some assms(3) show ?thesis
    by (cases "find_route L (route_table L (method_routes L H m entries)) segs")
      (auto simp: Router_Find_def found_route_def ret_def split: option.split)
qed

text \<open>A table of pairwise different templates holds its routes, in order.\<close>

lemma route_table_distinct:
  assumes "\<And>i j. i < j \<Longrightarrow> j < length rs \<Longrightarrow>
    \<not> same_template (template_of L (fst (rs ! i))) (template_of L (fst (rs ! j)))"
  shows "route_table L rs = map (\<lambda>r. (template_of L (fst r), snd r)) rs"
  using assms
proof (induction rs rule: rev_induct)
  case (snoc r rs)
  have IH: "route_table L rs = map (\<lambda>r. (template_of L (fst r), snd r)) rs"
    by (rule snoc.IH) (use snoc.prems in \<open>fastforce simp: nth_append\<close>)
  have "kv_find same_template (template_of L (fst r)) (route_table L rs) = None"
    unfolding template_key.find_None_iff IH using snoc.prems [of _ "length rs"]
    by (auto simp: nth_append in_set_conv_nth) (metis fst_conv)
  moreover have "kv_find eq k m = None \<Longrightarrow> kv_insert_or_assign eq k v m = m @ [(k, v)]" for eq k v m
    by (induction m) (auto split: if_splits)
  ultimately show ?case using IH by (simp add: route_table_def)
qed (simp add: route_table_def)

end
