(* ===== verification/Component_Start.thy ===== *)
theory Component_Start
  imports Components
begin

text \<open>
  When a program's components all start: every constructor gets from the container what it
  asks for, in whatever order the factory is visited.
\<close>

section \<open>Contracts of constructors\<close>

text \<open>
  \<open>spec name c\<close>: what the program relies on of the component registered as \<open>name\<close>.  A
  constructor meets its contract if it ends with such a component whenever the components it
  asks for are registered, meet theirs and have the types it casts them to.
\<close>

primrec meets ::
  "(string \<Rightarrow> bool) \<Rightarrow> (string \<Rightarrow> 'o component \<Rightarrow> bool) \<Rightarrow> ('o component \<Rightarrow> bool) \<Rightarrow> 'o ctor \<Rightarrow> bool" where
  "meets registered spec P (Constructed c) = P c"
| "meets registered spec P (CtorThrows e) = False"
| "meets registered spec P (GetComponent T name k) =
     (registered name \<and> (\<forall>c. spec name c \<longrightarrow> casts_to T c \<and> meets registered spec P (k c)))"

definition startable ::
  "'d lib \<Rightarrow> yaml \<Rightarrow> (yaml \<Rightarrow> 'o ctor) factory \<Rightarrow> (string \<Rightarrow> 'o component \<Rightarrow> bool) \<Rightarrow> bool" where
  "startable L cfg f spec \<longleftrightarrow> distinct (map fst f) \<and>
     (\<forall>(name, cb) \<in> set f. \<exists>part. RetrieveValidOrEmptyConfig L name cfg = Inr part \<and>
        meets (\<lambda>m. m \<in> set (map fst f)) spec (spec name) (cb part))"

text \<open>A container on the way: its components are registered, each once, and meet their contracts.\<close>

definition well_made ::
  "yaml \<Rightarrow> (yaml \<Rightarrow> 'o ctor) factory \<Rightarrow> (string \<Rightarrow> 'o component \<Rightarrow> bool) \<Rightarrow> 'o components \<Rightarrow> bool" where
  "well_made cfg f spec s \<longleftrightarrow> cs_config s = cfg \<and> cs_factory s = f \<and> distinct (map fst (cs_components s)) \<and>
     (\<forall>(name, c) \<in> set (cs_components s). name \<in> set (map fst f) \<and> spec name c)"

lemma well_made_find: "well_made cfg f spec s \<Longrightarrow> map_find name (cs_components s) = Some c \<Longrightarrow> spec name c"
  by (auto simp: well_made_def map_find_eq_map_of dest: map_of_SomeD)

lemma well_made_start: "well_made cfg f spec (Components cfg f)"
  by (simp add: well_made_def Components_def)

lemma well_made_Add:
  assumes "well_made cfg f spec s" and "name \<in> set (map fst f)" and "spec name c"
  shows "\<exists>s'. Components_Add name (Some c) s = Inr s' \<and> well_made cfg f spec s'"
proof -
  have "distinct (map fst (kv_insert (=) name c (cs_components s)))"
    using assms(1) std_key.distinct_insert [of "cs_components s" name c]
    by (simp add: well_made_def kv_distinct_iff_distinct)
  with assms show ?thesis
    by (auto simp: well_made_def Components_Add_Some dest!: std_key.insert_entry)
qed

lemma run_ctor_meets:
  assumes "\<And>T name s. rank name < r \<Longrightarrow> name \<in> set (map fst f) \<Longrightarrow> well_made cfg f spec s \<Longrightarrow>
      (\<And>c. spec name c \<Longrightarrow> casts_to T c) \<Longrightarrow>
      \<exists>c s'. get T name s = Some (Inr (c, s')) \<and> well_made cfg f spec s' \<and> spec name c"
    and "meets (\<lambda>m. m \<in> set (map fst f)) spec P k" and "asks_below rank r k" and "well_made cfg f spec s"
  shows "\<exists>c s'. run_ctor get k s = Some (Inr (c, s')) \<and> well_made cfg f spec s' \<and> P c"
  using assms(2-4)
proof (induction k arbitrary: s)
  case (GetComponent T name k)
  then have name: "rank name < r" "name \<in> set (map fst f)" "\<And>c. spec name c \<Longrightarrow> casts_to T c" by auto
  from assms(1) [OF name(1,2) GetComponent.prems(3) name(3)] obtain c s' where
    "get T name s = Some (Inr (c, s'))" "well_made cfg f spec s'" "spec name c" by blast
  with GetComponent.IH [of "k c" s'] GetComponent.prems show ?case by simp
qed auto

lemma startableD:
  assumes "startable L cfg f spec" and "name \<in> set (map fst f)"
  obtains cb part where "map_find name f = Some cb" "RetrieveValidOrEmptyConfig L name cfg = Inr part"
    "meets (\<lambda>m. m \<in> set (map fst f)) spec (spec name) (cb part)"
proof -
  from assms(2) obtain cb where "(name, cb) \<in> set f" by auto
  with assms(1) that show thesis by (auto simp: startable_def map_find_eq_map_of)
qed

lemma Components_Get_meets:
  assumes "startable L cfg f spec" and "acyclic_factory rank f"
  shows "rank name < n \<Longrightarrow> name \<in> set (map fst f) \<Longrightarrow> well_made cfg f spec s \<Longrightarrow>
    (\<And>c. spec name c \<Longrightarrow> casts_to T c) \<Longrightarrow>
    \<exists>c s'. Components_Get L n T name s = Some (Inr (c, s')) \<and> well_made cfg f spec s' \<and> spec name c"
proof (induction n arbitrary: T name s)
  case (Suc n)
  show ?case
  proof (cases "map_find name (cs_components s)")
    case (Some c)
    with well_made_find [OF Suc.prems(3) Some] Suc.prems(3,4) show ?thesis by simp
  next
    case None
    from assms(1) Suc.prems(2) obtain cb part where cb: "map_find name f = Some cb"
      "RetrieveValidOrEmptyConfig L name cfg = Inr part"
      "meets (\<lambda>m. m \<in> set (map fst f)) spec (spec name) (cb part)" by (rule startableD)
    have "asks_below rank (rank name) (cb part)" using assms(2) cb(1) by (simp add: acyclic_factory_def)
    from run_ctor_meets [OF _ cb(3) this Suc.prems(3), of "Components_Get L n"] obtain c t where
      ct: "run_ctor (Components_Get L n) (cb part) s = Some (Inr (c, t))" "well_made cfg f spec t" "spec name c"
      using Suc.IH Suc.prems(1) by (meson less_Suc_eq_le less_le_trans)
    from well_made_Add [OF ct(2) Suc.prems(2) ct(3)] obtain s' where
      "Components_Add name (Some c) t = Inr s'" "well_made cfg f spec s'" by blast
    with None cb ct Suc.prems(3,4) show ?thesis
      by (simp add: well_made_def FactoryBase_Create_def)
  qed
qed simp

lemma make_component_meets:
  assumes "startable L cfg f spec" and "acyclic_factory rank f" and "\<forall>m \<in> set (map fst f). rank m \<le> n"
    and "(name, cb) \<in> set f" and "well_made cfg f spec s"
  shows "\<exists>s'. make_component L n (name, cb) (Some (Inr s)) = Some (Inr s') \<and> well_made cfg f spec s' \<and>
    kept s s' \<and> map_find name (cs_components s') \<noteq> None"
proof (cases "Components_Contains name s")
  case True
  with assms(5) show ?thesis by (simp add: make_component_def Components_Contains_def kv_contains_def)
next
  case False
  have name: "name \<in> set (map fst f)" using assms(4) by force
  with assms(1) obtain cb' part where cb': "map_find name f = Some cb'"
    "RetrieveValidOrEmptyConfig L name cfg = Inr part"
    "meets (\<lambda>m. m \<in> set (map fst f)) spec (spec name) (cb' part)" by (rule startableD)
  have [simp]: "cb' = cb" using cb'(1) assms(1,4) by (simp add: startable_def map_find_eq_map_of)
  have "asks_below rank (rank name) (cb part)" using assms(2) cb'(1) by (simp add: acyclic_factory_def)
  moreover have "rank name \<le> n" using assms(3) name by blast
  moreover have "\<exists>c u'. Components_Get L n T m u = Some (Inr (c, u')) \<and> well_made cfg f spec u' \<and> spec m c"
    if "rank m < rank name" "m \<in> set (map fst f)" "well_made cfg f spec u" "\<And>c. spec m c \<Longrightarrow> casts_to T c" for T m u
    by (rule Components_Get_meets [OF assms(1,2) _ that(2-4)]) (use that(1) \<open>rank name \<le> n\<close> in simp)+
  ultimately have "\<exists>c t. run_ctor (Components_Get L n) (cb part) s = Some (Inr (c, t)) \<and>
      well_made cfg f spec t \<and> spec name c"
    using cb'(3) assms(5) run_ctor_meets [of rank "rank name" f cfg spec "Components_Get L n" "spec name" "cb part" s]
    by simp
  then obtain c t where ct: "run_ctor (Components_Get L n) (cb part) s = Some (Inr (c, t))"
    "well_made cfg f spec t" "spec name c" by blast
  from well_made_Add [OF ct(2) name ct(3)] obtain s' where
    s': "Components_Add name (Some c) t = Inr s'" "well_made cfg f spec s'" by blast
  have "kept s t" by (rule run_ctor_kept [OF _ ct(1)]) (use Components_Get_kept in blast)
  with kept_Add [OF s'(1)] have "kept s s'" "map_find name (cs_components s') \<noteq> None"
    using kept_trans by blast+
  with False cb' ct s' assms(5) show ?thesis by (simp add: make_component_def well_made_def)
qed

text \<open>All components are made, in any order of the factory.\<close>

lemma make_all_components_meets:
  assumes "startable L cfg f spec" and "acyclic_factory rank f" and "\<forall>m \<in> set (map fst f). rank m \<le> n"
    and "iteration_order ord"
  shows "\<exists>s. make_all_components L n ord cfg f = Some (Inr s) \<and> well_made cfg f spec s \<and>
    set (map fst (cs_components s)) = set (map fst f)"
proof -
  have fold: "\<exists>s'. fold (make_component L n) es (Some (Inr s)) = Some (Inr s') \<and> well_made cfg f spec s' \<and>
      kept s s' \<and> (\<forall>(name, cb) \<in> set es. map_find name (cs_components s') \<noteq> None)"
    if "set es \<subseteq> set f" "well_made cfg f spec s" for es s
    using that
  proof (induction es arbitrary: s)
    case (Cons e es)
    obtain name cb where e: "e = (name, cb)" by (cases e)
    with make_component_meets [OF assms(1-3), of name cb s] Cons.prems obtain s1 where
      s1: "make_component L n e (Some (Inr s)) = Some (Inr s1)" "well_made cfg f spec s1" "kept s s1"
        "map_find name (cs_components s1) \<noteq> None" by auto
    with Cons.IH [of s1] Cons.prems obtain s' where
      s': "fold (make_component L n) es (Some (Inr s1)) = Some (Inr s')" "well_made cfg f spec s'" "kept s1 s'"
        "\<forall>(name, cb) \<in> set es. map_find name (cs_components s') \<noteq> None" by auto
    moreover have "map_find name (cs_components s') \<noteq> None" using s1(4) s'(3) by (auto simp: kept_def)
    ultimately show ?case using s1(1) kept_trans [OF s1(3) s'(3)] e by auto
  qed simp
  have ord: "set (ord f) = set f" by (rule set_iteration_order [OF assms(4)])
  with fold [of "ord f", OF _ well_made_start] obtain s where
    s: "make_all_components L n ord cfg f = Some (Inr s)" "well_made cfg f spec s"
      "\<forall>(name, cb) \<in> set f. map_find name (cs_components s) \<noteq> None"
    by (auto simp: make_all_components_def FactoryBase_ForEach_def)
  have "set (map fst f) \<subseteq> set (map fst (cs_components s))"
    using s(3) by (auto simp: map_find_eq_map_of map_of_eq_None_iff)
  moreover have "set (map fst (cs_components s)) \<subseteq> set (map fst f)"
    using s(2) by (auto simp: well_made_def)
  ultimately show ?thesis using s by blast
qed

end
