(* ===== verification/Service_Components.thy ===== *)
theory Service_Components
  imports Component_Start Io_Context Pg_Cache Exchange_Rates_Cache
begin

text \<open>
  The components of the service and their constructors: \<open>components/io_context.cpp\<close>,
  \<open>postgres/pg_client.cpp\<close>, the two caches, and their registration in \<open>src/src/main.cpp\<close>.
\<close>

section \<open>Objects\<close>

text \<open>The connection pool of ozo, by the settings it is made with.\<close>

record connection_pool =
  cn_connection_info :: string
  cn_capacity :: "64 word"
  cn_queue_capacity :: "64 word"
  cn_idle_timeout :: "64 word"
  cn_lifespan :: "64 word"

text \<open>\<open>ozo::make_connection_pool\<close> throws a \<open>std::logic_error\<close> for a pool of capacity 0.\<close>

definition MakeOzoConnetionPool :: "pg_client_config \<Rightarrow> connection_pool res" where
  "MakeOzoConnetionPool cfg =
     (let connection_pool_config =
            \<lparr>cn_connection_info = pgc_connection_info cfg, cn_capacity = pgc_capacity cfg,
             cn_queue_capacity = pgc_queue_capacity cfg, cn_idle_timeout = pgc_idle_timeout cfg,
             cn_lifespan = pgc_lifespan cfg\<rparr>
      in if cn_capacity connection_pool_config = 0 then throw_exn (StdException ''pool capacity is 0'')
         else Inr connection_pool_config)"

datatype service_object =
    Io_object io_context_base
  | Pg_client_object connection_pool
  | Currencies_object "(currency, currencies_cache) pg_cache"
  | Rates_object "(exchange_rate, exchange_rates_cache) pg_cache"

section \<open>Constructors\<close>

fun constructed :: "string list \<Rightarrow> service_object res \<Rightarrow> service_object ctor" where
  "constructed types (Inl e) = CtorThrows e"
| "constructed types (Inr x) = Constructed \<lparr>cp_types = types, cp_object = x\<rparr>"

definition ServerIOContext_ctor :: "'d lib \<Rightarrow> yaml \<Rightarrow> service_object ctor" where
  "ServerIOContext_ctor L cfg =
     constructed [''ServerIOContext'', ''IOContextBase'']
       (res_bind (IOContextBase L cfg) (\<lambda>b. Inr (Io_object b)))"

text \<open>A second event loop the engine has; the service does not register it.\<close>

definition PgCachesIOContext_ctor :: "'d lib \<Rightarrow> yaml \<Rightarrow> service_object ctor" where
  "PgCachesIOContext_ctor L cfg =
     constructed [''PgCachesIOContext'', ''IOContextBase'']
       (res_bind (IOContextBase L cfg) (\<lambda>b. Inr (Io_object b)))"

definition PgClient_ctor :: "'d lib \<Rightarrow> yaml \<Rightarrow> service_object ctor" where
  "PgClient_ctor L cfg =
     GetComponent ''ServerIOContext'' ''server_io_context'' (\<lambda>io_context.
       constructed [''PgClient'']
         (res_bind (res_bind (ParsePgClientConfig L cfg) MakeOzoConnetionPool) (\<lambda>p. Inr (Pg_client_object p))))"

text \<open>
  The arguments of \<open>PgCache\<close>'s constructor are evaluated in an unspecified order; here from
  left to right.
\<close>

definition CurrenciesCache_ctor :: "'d lib \<Rightarrow> yaml \<Rightarrow> service_object ctor" where
  "CurrenciesCache_ctor L cfg =
     GetComponent ''ServerIOContext'' ''server_io_context'' (\<lambda>io_context.
     GetComponent ''ServerIOContext'' ''server_io_context'' (\<lambda>io_context'.
     GetComponent ''PgClient'' ''pg_client'' (\<lambda>pg_client.
       case ParsePgCacheConfig L cfg of
         Inl e \<Rightarrow> CtorThrows e
       | Inr c \<Rightarrow>
           GetComponent ''PgClient'' ''pg_client'' (\<lambda>pg_client'.
             constructed [''CurrenciesCache'', ''PgCacheBase'']
               (Inr (Currencies_object
                 (PgCache c kUpdateCurrenciesCache kFullUpdateCurrenciesCache CurrenciesCache)))))))"

definition ExchangeRatesCache_ctor :: "'d lib \<Rightarrow> yaml \<Rightarrow> service_object ctor" where
  "ExchangeRatesCache_ctor L cfg =
     GetComponent ''ServerIOContext'' ''server_io_context'' (\<lambda>io_context.
     GetComponent ''ServerIOContext'' ''server_io_context'' (\<lambda>io_context'.
     GetComponent ''PgClient'' ''pg_client'' (\<lambda>pg_client.
       case ParsePgCacheConfig L cfg of
         Inl e \<Rightarrow> CtorThrows e
       | Inr c \<Rightarrow>
           GetComponent ''PgClient'' ''pg_client'' (\<lambda>pg_client'.
           GetComponent ''CurrenciesCache'' ''currencies_cache'' (\<lambda>curr_cache.
             constructed [''ExchangeRatesCache'', ''PgCacheBase'']
               (Inr (Rates_object
                 (PgCache c kUpdateExchangeRatesCache kFullUpdateExchangeRatesCache ExchangeRatesCache))))))))"

text \<open>The registrations of \<open>main\<close>, in its order.\<close>

definition service_factory :: "'d lib \<Rightarrow> (yaml \<Rightarrow> service_object ctor) factory" where
  "service_factory L =
     FactoryBase_Add ''exchange_rates_cache'' (ExchangeRatesCache_ctor L)
       (FactoryBase_Add ''currencies_cache'' (CurrenciesCache_ctor L)
         (FactoryBase_Add ''pg_client'' (PgClient_ctor L)
           (FactoryBase_Add ''server_io_context'' (ServerIOContext_ctor L) [])))"

lemma service_factory_eq:
  "service_factory L =
     [(''server_io_context'', ServerIOContext_ctor L), (''pg_client'', PgClient_ctor L),
      (''currencies_cache'', CurrenciesCache_ctor L), (''exchange_rates_cache'', ExchangeRatesCache_ctor L)]"
  by (simp add: service_factory_def FactoryBase_Add_def kv_insert_def)

section \<open>The service starts\<close>

text \<open>A constructor only asks for components of a lower rank.\<close>

definition service_rank :: "string \<Rightarrow> nat" where
  "service_rank name =
     (if name = ''pg_client'' then 1 else if name = ''currencies_cache'' then 2
      else if name = ''exchange_rates_cache'' then 3 else 0)"

lemma asks_below_constructed [simp]: "asks_below rank r (constructed ts x)"
  by (cases x) simp_all

lemma service_acyclic: "acyclic_factory service_rank (service_factory L)"
  by (auto simp: acyclic_factory_def service_factory_eq service_rank_def ServerIOContext_ctor_def
      PgClient_ctor_def CurrenciesCache_ctor_def ExchangeRatesCache_ctor_def split: sum.split)

text \<open>
  The settings of a component are valid: its section is there or empty and parses, and the
  capacity of the pool of connections is not 0.
\<close>

definition valid_settings :: "'d lib \<Rightarrow> yaml \<Rightarrow> string \<Rightarrow> (yaml \<Rightarrow> 'a res) \<Rightarrow> bool" where
  "valid_settings L cfg name parse =
     (case RetrieveValidOrEmptyConfig L name cfg of
        Inl e \<Rightarrow> False
      | Inr part \<Rightarrow> (case parse part of Inl e \<Rightarrow> False | Inr c \<Rightarrow> True))"

definition valid_service :: "'d lib \<Rightarrow> yaml \<Rightarrow> bool" where
  "valid_service L cfg \<longleftrightarrow>
     valid_settings L cfg ''server_io_context'' (ParseIOContextConfig L) \<and>
     valid_settings L cfg ''pg_client'' (\<lambda>n. res_bind (ParsePgClientConfig L n) MakeOzoConnetionPool) \<and>
     valid_settings L cfg ''currencies_cache'' (ParsePgCacheConfig L) \<and>
     valid_settings L cfg ''exchange_rates_cache'' (ParsePgCacheConfig L)"

text \<open>What each component is: its types, and for a cache that it has not been loaded.\<close>

definition service_spec :: "string \<Rightarrow> service_object component \<Rightarrow> bool" where
  "service_spec name c \<longleftrightarrow>
     (name = ''server_io_context'' \<longrightarrow> cp_types c = [''ServerIOContext'', ''IOContextBase''] \<and>
        (\<exists>b. cp_object c = Io_object b)) \<and>
     (name = ''pg_client'' \<longrightarrow> cp_types c = [''PgClient''] \<and> (\<exists>p. cp_object c = Pg_client_object p)) \<and>
     (name = ''currencies_cache'' \<longrightarrow> cp_types c = [''CurrenciesCache'', ''PgCacheBase''] \<and>
        (\<exists>cfg. cp_object c = Currencies_object
           (PgCache cfg kUpdateCurrenciesCache kFullUpdateCurrenciesCache CurrenciesCache))) \<and>
     (name = ''exchange_rates_cache'' \<longrightarrow> cp_types c = [''ExchangeRatesCache'', ''PgCacheBase''] \<and>
        (\<exists>cfg. cp_object c = Rates_object
           (PgCache cfg kUpdateExchangeRatesCache kFullUpdateExchangeRatesCache ExchangeRatesCache)))"

lemma valid_settingsD:
  "valid_settings L cfg name parse \<Longrightarrow>
    \<exists>part c. RetrieveValidOrEmptyConfig L name cfg = Inr part \<and> parse part = Inr c"
  by (auto simp: valid_settings_def split: sum.splits)

lemma service_startable:
  assumes "valid_service L cfg"
  shows "startable L cfg (service_factory L) service_spec"
proof -
  note valid = assms [unfolded valid_service_def]
  from valid obtain io_part io where io: "RetrieveValidOrEmptyConfig L ''server_io_context'' cfg = Inr io_part"
    "ParseIOContextConfig L io_part = Inr io" using valid_settingsD by blast
  from valid obtain pg_part pg where pg: "RetrieveValidOrEmptyConfig L ''pg_client'' cfg = Inr pg_part"
    "res_bind (ParsePgClientConfig L pg_part) MakeOzoConnetionPool = Inr pg" using valid_settingsD by blast
  from valid obtain cc_part cc where cc: "RetrieveValidOrEmptyConfig L ''currencies_cache'' cfg = Inr cc_part"
    "ParsePgCacheConfig L cc_part = Inr cc" using valid_settingsD by blast
  from valid obtain rc_part rc where rc: "RetrieveValidOrEmptyConfig L ''exchange_rates_cache'' cfg = Inr rc_part"
    "ParsePgCacheConfig L rc_part = Inr rc" using valid_settingsD by blast
  show ?thesis
    using io pg cc rc
    by (auto simp: startable_def service_factory_eq ServerIOContext_ctor_def PgClient_ctor_def
        CurrenciesCache_ctor_def ExchangeRatesCache_ctor_def IOContextBase_def service_spec_def casts_to_def)
qed

text \<open>All four components are there: no constructor of a handler makes one any more.\<close>

definition service_ready :: "service_object components \<Rightarrow> bool" where
  "service_ready s \<longleftrightarrow> distinct (map fst (cs_components s)) \<and>
     set (map fst (cs_components s)) =
       {''server_io_context'', ''pg_client'', ''currencies_cache'', ''exchange_rates_cache''} \<and>
     (\<forall>(name, c) \<in> set (cs_components s). service_spec name c)"

lemma ball_prod: "(\<forall>(a, b) \<in> A. P a b) \<Longrightarrow> (x, y) \<in> A \<Longrightarrow> P x y"
  by auto

lemma service_readyD:
  assumes "service_ready s"
  shows "distinct (map fst (cs_components s))"
    and "set (map fst (cs_components s)) =
      {''server_io_context'', ''pg_client'', ''currencies_cache'', ''exchange_rates_cache''}"
    and "(name, c) \<in> set (cs_components s) \<Longrightarrow> service_spec name c"
  by (rule conjunct1 [OF assms [unfolded service_ready_def]],
      rule conjunct1 [OF conjunct2 [OF assms [unfolded service_ready_def]]],
      rule ball_prod [OF conjunct2 [OF conjunct2 [OF assms [unfolded service_ready_def]]]])

text \<open>The same without what is known of the objects: it still holds when the caches are loaded.\<close>

definition service_types :: "string \<Rightarrow> string list" where
  "service_types name =
     (if name = ''server_io_context'' then [''ServerIOContext'', ''IOContextBase'']
      else if name = ''pg_client'' then [''PgClient'']
      else if name = ''currencies_cache'' then [''CurrenciesCache'', ''PgCacheBase'']
      else [''ExchangeRatesCache'', ''PgCacheBase''])"

definition service_present :: "service_object components \<Rightarrow> bool" where
  "service_present s \<longleftrightarrow> distinct (map fst (cs_components s)) \<and>
     set (map fst (cs_components s)) =
       {''server_io_context'', ''pg_client'', ''currencies_cache'', ''exchange_rates_cache''} \<and>
     (\<forall>(name, c) \<in> set (cs_components s). cp_types c = service_types name)"

lemma service_presentD:
  assumes "service_present s"
  shows "distinct (map fst (cs_components s))"
    and "set (map fst (cs_components s)) =
      {''server_io_context'', ''pg_client'', ''currencies_cache'', ''exchange_rates_cache''}"
    and "(name, c) \<in> set (cs_components s) \<Longrightarrow> cp_types c = service_types name"
  by (rule conjunct1 [OF assms [unfolded service_present_def]],
      rule conjunct1 [OF conjunct2 [OF assms [unfolded service_present_def]]],
      rule ball_prod [OF conjunct2 [OF conjunct2 [OF assms [unfolded service_present_def]]]])

lemma service_spec_types:
  assumes "service_spec name c"
    and "name \<in> {''server_io_context'', ''pg_client'', ''currencies_cache'', ''exchange_rates_cache''}"
  shows "cp_types c = service_types name"
  using assms(2) by (elim insertE emptyE; use assms(1) in \<open>simp add: service_spec_def service_types_def\<close>)

lemma service_ready_present: "service_ready s \<Longrightarrow> service_present s"
  unfolding service_present_def
proof (intro conjI ballI)
  assume ready: "service_ready s"
  show "distinct (map fst (cs_components s))" by (rule service_readyD(1) [OF ready])
  show "set (map fst (cs_components s)) =
      {''server_io_context'', ''pg_client'', ''currencies_cache'', ''exchange_rates_cache''}"
    by (rule service_readyD(2) [OF ready])
  show "case p of (name, c) \<Rightarrow> cp_types c = service_types name" if "p \<in> set (cs_components s)" for p
  proof -
    obtain name c where p: "p = (name, c)" by (cases p)
    have "name \<in> set (map fst (cs_components s))" using that p by force
    then have "name \<in> {''server_io_context'', ''pg_client'', ''currencies_cache'', ''exchange_rates_cache''}"
      by (simp only: service_readyD(2) [OF ready])
    with service_readyD(3) [OF ready that [unfolded p]] have "cp_types c = service_types name"
      by (rule service_spec_types)
    with p show ?thesis by simp
  qed
qed

lemma service_made_ready:
  assumes "valid_service L cfg" and "iteration_order ord" and "3 \<le> n"
  shows "\<exists>s. make_all_components L n ord cfg (service_factory L) = Some (Inr s) \<and> service_ready s"
proof -
  have names: "set (map fst (service_factory L)) =
      {''server_io_context'', ''pg_client'', ''currencies_cache'', ''exchange_rates_cache''}"
    by (auto simp: service_factory_eq)
  have "\<forall>m \<in> set (map fst (service_factory L)). service_rank m \<le> n"
    using assms(3) by (auto simp: service_factory_eq service_rank_def)
  from make_all_components_meets [OF service_startable [OF assms(1)] service_acyclic this assms(2)]
  obtain s where s: "make_all_components L n ord cfg (service_factory L) = Some (Inr s)"
    "well_made cfg (service_factory L) service_spec s"
    "set (map fst (cs_components s)) = set (map fst (service_factory L))" by blast
  have "distinct (map fst (cs_components s))" "\<forall>(name, c) \<in> set (cs_components s). service_spec name c"
    using s(2) unfolding well_made_def by fast+
  with s(1) s(3) [unfolded names] show ?thesis unfolding service_ready_def by (intro exI [of _ s] conjI)
qed

text \<open>
  C27: with valid settings the service's components are made, whatever order the factory is
  visited in: each of the four once, under its name, with its type, and the caches empty
  and with their own statements.
\<close>

theorem service_components_start:
  assumes "valid_service L cfg" and "iteration_order ord" and "3 \<le> n"
  shows "\<exists>s. make_all_components L n ord cfg (service_factory L) = Some (Inr s) \<and>
    distinct (map fst (cs_components s)) \<and>
    set (map fst (cs_components s)) =
      {''server_io_context'', ''pg_client'', ''currencies_cache'', ''exchange_rates_cache''} \<and>
    (\<forall>(name, c) \<in> set (cs_components s). service_spec name c)"
  using service_made_ready [OF assms] unfolding service_ready_def .

theorem service_components_start_witness:
  "\<exists>s. make_all_components ref_lib 3 rev
      (YMap [(YScalar ''pg_client'', YMap [(YScalar ''connection_info'', YScalar ''host=db'')])])
      (service_factory ref_lib) = Some (Inr s) \<and> length (cs_components s) = 4"
proof -
  let ?cfg = "YMap [(YScalar ''pg_client'', YMap [(YScalar ''connection_info'', YScalar ''host=db'')])]"
  have "valid_service ref_lib ?cfg" by code_simp
  from service_components_start [OF this iteration_order_rev order.refl] obtain s where
    s: "make_all_components ref_lib 3 rev ?cfg (service_factory ref_lib) = Some (Inr s)"
      "distinct (map fst (cs_components s))"
      "set (map fst (cs_components s)) =
        {''server_io_context'', ''pg_client'', ''currencies_cache'', ''exchange_rates_cache''}" by blast
  have "length (cs_components s) = card (set (map fst (cs_components s)))"
    using distinct_card [OF s(2)] by simp
  with s show ?thesis by simp
qed

end
