(* ===== verification/Service_Dispatch.thy ===== *)
theory Service_Dispatch
  imports Service_Routes
begin

text \<open>Which handler a request of the service reaches, and with which bindings.\<close>

section \<open>The reference\<close>

text \<open>The names of the segments are compared decoded; a binding is the segment as it was sent.\<close>

definition service_route :: "'d lib \<Rightarrow> HttpMethod \<Rightarrow> string list \<Rightarrow> (string \<times> (string \<times> string) list) option" where
  "service_route L m segs =
     (case segs of
        [a] \<Rightarrow>
          (let d = lib_pct_decode L a
           in if m = kGet \<and> d = ''currencies'' then Some (''get_currencies'', [])
              else if m = kGet \<and> d = ''exchangerates'' then Some (''get_exchange_rates'', [])
              else if m = kGet \<and> d = ''exchange'' then Some (''get_exchange'', [])
              else if m = kPost \<and> d = ''currencies'' then Some (''post_currencies'', [])
              else if m = kPost \<and> d = ''exchangerates'' then Some (''post_exchange_rates'', [])
              else None)
      | [a, b] \<Rightarrow>
          (let d = lib_pct_decode L a
           in if m = kGet \<and> d = ''currency'' then Some (''get_currency'', [(''code'', b)])
              else if m = kGet \<and> d = ''exchangerate'' then Some (''get_exchange_rate'', [(''curr_pair'', b)])
              else if m = kPatch \<and> d = ''exchangerate'' then Some (''patch_exchange_rate'', [(''curr_pair'', b)])
              else None)
      | _ \<Rightarrow> None)"

section \<open>The tables of the service\<close>

lemma service_methods:
  assumes "bimap_laws L" and "string_algo_laws L"
  shows "ToHttpMethodEnum L ''GET'' = kGet" and "ToHttpMethodEnum L ''POST'' = kPost"
    and "ToHttpMethodEnum L ''PATCH'' = kPatch"
proof -
  have "kv_find same_upper ''GET'' http_method_list = Some kGet"
    "kv_find same_upper ''POST'' http_method_list = Some kPost"
    "kv_find same_upper ''PATCH'' http_method_list = Some kPatch" by code_simp+
  then show "ToHttpMethodEnum L ''GET'' = kGet" and "ToHttpMethodEnum L ''POST'' = kPost"
    and "ToHttpMethodEnum L ''PATCH'' = kPatch"
    by (simp_all add: ToHttpMethodEnum_def http_method_table assms bimap_left_find_def IEqualTo_same_upper)
qed

definition service_table ::
  "(string \<Rightarrow> handler) \<Rightarrow> HttpMethod \<Rightarrow> (string \<times> string \<times> handler) list" where
  "service_table H m =
     (if m = kGet then
        [(''/currencies'', ''get_currencies'', H ''get_currencies''),
         (''/currency/{code}'', ''get_currency'', H ''get_currency''),
         (''/exchangerates'', ''get_exchange_rates'', H ''get_exchange_rates''),
         (''/exchangerate/{curr_pair}'', ''get_exchange_rate'', H ''get_exchange_rate''),
         (''/exchange'', ''get_exchange'', H ''get_exchange'')]
      else if m = kPost then
        [(''/currencies'', ''post_currencies'', H ''post_currencies''),
         (''/exchangerates'', ''post_exchange_rates'', H ''post_exchange_rates'')]
      else if m = kPatch then
        [(''/exchangerate/{curr_pair}'', ''patch_exchange_rate'', H ''patch_exchange_rate'')]
      else [])"

lemma service_method_routes:
  assumes "bimap_laws L" and "string_algo_laws L"
  shows "method_routes L H m service_http_handlers = service_table H m"
  by (cases m) (simp_all add: method_routes_def service_http_handlers_def service_entry_def service_table_def
      service_methods [OF assms])

lemma literal_seg_eq [simp]: "seg_eq (literal a) (literal b) \<longleftrightarrow> a = b"
  by (simp add: seg_eq_def literal_def)

lemma is_field_simps [simp]: "\<not> is_field (literal a)" "is_field (field_template a)"
  by (simp_all add: is_field_def literal_def field_template_def)

lemma literal_simps [simp]:
  "st_is_literal (literal a)" "st_str (literal a) = a" "st_modifier (literal a) = mod_none"
  "\<not> st_is_literal (field_template a)" "st_str (field_template a) = ''{'' @ a @ ''}''"
  by (simp_all add: literal_def field_template_def)

lemma service_fields [simp]:
  "st_modifier (field_template ''code'') = mod_none" "seg_id (field_template ''code'') = ''code''"
  "st_modifier (field_template ''curr_pair'') = mod_none" "seg_id (field_template ''curr_pair'') = ''curr_pair''"
  by (simp_all add: field_template_def ends_with_def seg_id_def)

text \<open>Two routes of a method have different templates, and templates never compete.\<close>

lemma service_table_templates:
  assumes "url_grammar_laws L" and "r \<in> set (service_table H m)" and "r' \<in> set (service_table H m)"
  shows "compatible (template_of L (fst r)) (template_of L (fst r'))"
    and "same_template (template_of L (fst r)) (template_of L (fst r')) \<Longrightarrow> r = r'"
proof -
  have "\<forall>r \<in> set (service_table H m). \<forall>r' \<in> set (service_table H m).
      compatible (template_of L (fst r)) (template_of L (fst r')) \<and>
      (same_template (template_of L (fst r)) (template_of L (fst r')) \<longrightarrow> r = r')"
    by (cases m) (simp_all add: service_table_def service_template_of [OF assms(1)] same_template_def)
  with assms(2,3) show "compatible (template_of L (fst r)) (template_of L (fst r'))"
    and "same_template (template_of L (fst r)) (template_of L (fst r')) \<Longrightarrow> r = r'" by blast+
qed

lemma service_table_route:
  assumes "url_grammar_laws L" and "r \<in> set (service_table H m)"
  shows "routable L (fst r) \<and> plain (template_of L (fst r)) \<and> field_count (template_of L (fst r)) \<le> match_places"
  using assms(2)
  by (auto simp: service_table_def service_template_of [OF assms(1)] plain_def match_places_def routable_def
      service_templates [OF assms(1)] dot_free_def split: if_splits)

lemma service_clear:
  assumes "url_grammar_laws L" and "set rs = set (service_table H m)"
  shows "clear_routes L rs"
  using service_table_templates(1) [OF assms(1)] service_table_route [OF assms(1)]
  unfolding clear_routes_def assms(2) by blast

text \<open>The routes that match a path, by the reference.\<close>

lemma service_table_matches:
  assumes "url_grammar_laws L" and "(p, name, h) \<in> set (service_table H m)"
    and "template_matches L (template_of L p) segs"
  shows "h = H name \<and> service_route L m segs = Some (name, bindings (template_of L p) segs)"
  using assms(2,3)
  by (auto simp: service_table_def service_template_of [OF assms(1)] template_matches_def list_all2_Cons1
      seg_match_def bindings_def service_route_def Let_def split: if_splits)

lemma template_matches_short [simp]:
  "template_matches L [t] segs \<longleftrightarrow> (\<exists>a. segs = [a] \<and> seg_match L t a)"
  "template_matches L [t, u] segs \<longleftrightarrow> (\<exists>a b. segs = [a, b] \<and> seg_match L t a \<and> seg_match L u b)"
  by (auto simp: template_matches_def list_all2_Cons1)

lemma service_route_table:
  assumes "url_grammar_laws L" and "service_route L m segs = Some (name, bs)"
  shows "\<exists>p. (p, name, H name) \<in> set (service_table H m) \<and> template_matches L (template_of L p) segs"
proof -
  have "\<exists>r \<in> set (service_table H m). snd r = (name, H name) \<and> template_matches L (template_of L (fst r)) segs"
  proof (cases segs rule: remdups_adj.cases)
    case (2 a)
    with assms(2) show ?thesis
      by (cases m) (simp_all add: service_route_def Let_def service_table_def seg_match_def
          service_template_of [OF assms(1)] split: if_splits)
  next
    case (3 a b rest)
    with assms(2) show ?thesis
      by (cases m; cases rest) (simp_all add: service_route_def Let_def service_table_def seg_match_def
          service_template_of [OF assms(1)] split: if_splits)
  qed (use assms(2) in \<open>simp add: service_route_def\<close>)
  then show ?thesis by (metis prod.collapse)
qed

lemma service_found_route:
  assumes "url_grammar_laws L" and "set rs = set (service_table H m)" and "distinct rs"
  shows "found_route L rs segs =
    map_option (\<lambda>(name, bs). \<lparr>fr_handler_name = name, fr_handler = H name, fr_match_result = bs\<rparr>)
      (service_route L m segs)"
proof -
  have "\<not> same_template (template_of L (fst (rs ! i))) (template_of L (fst (rs ! j)))"
    if "i < j" "j < length rs" for i j
  proof
    assume "same_template (template_of L (fst (rs ! i))) (template_of L (fst (rs ! j)))"
    moreover have "rs ! i \<in> set (service_table H m)" "rs ! j \<in> set (service_table H m)"
      using that assms(2) [symmetric] by auto
    ultimately have "rs ! i = rs ! j" using service_table_templates(2) [OF assms(1)] by blast
    with assms(3) that show False by (simp add: nth_eq_iff_index_eq)
  qed
  then have table: "route_table L rs = map (\<lambda>r. (template_of L (fst r), snd r)) rs"
    by (rule route_table_distinct)
  have dist: "kv_distinct same_template (route_table L rs)"
    unfolding route_table_def
    by (rule fold_invariant [where Q = "\<lambda>_. True"]) (auto intro: template_key.distinct_insert_or_assign)
  show ?thesis
  proof (cases "service_route L m segs")
    case None
    have "\<not> template_matches L ts segs" if "(ts, v) \<in> set (route_table L rs)" for ts v
      using that None service_table_matches [OF assms(1)] assms(2) unfolding table by fastforce
    then have "find (\<lambda>(ts, v). template_matches L ts segs) (route_table L rs) = None"
      by (auto simp: find_None_iff)
    with None show ?thesis by (simp add: found_route_def find_route_def)
  next
    case (Some r)
    obtain name bs where r: "r = (name, bs)" by (cases r)
    from service_route_table [OF assms(1) Some [unfolded r], of H] obtain p where
      p: "(p, name, H name) \<in> set (service_table H m)" "template_matches L (template_of L p) segs" by blast
    have "find_route L (route_table L rs) segs = (Some (name, H name), bindings (template_of L p) segs)"
    proof (rule find_route_eq [OF _ dist _ p(2)])
      show "(template_of L p, name, H name) \<in> set (route_table L rs)"
        using p(1) assms(2) unfolding table by force
      show "compatible ts us \<and> plain ts"
        if "ts \<in> fst ` set (route_table L rs)" "us \<in> fst ` set (route_table L rs)" for ts us
      proof -
        from that obtain r r' where "r \<in> set (service_table H m)" "ts = template_of L (fst r)"
          "r' \<in> set (service_table H m)" "us = template_of L (fst r')"
          unfolding table using assms(2) by auto
        with service_table_templates(1) [OF assms(1), of r H m r'] service_table_route [OF assms(1), of r H m]
        show ?thesis by blast
      qed
    qed
    moreover have "bs = bindings (template_of L p) segs"
      using service_table_matches [OF assms(1) p] Some r by simp
    ultimately show ?thesis using Some r by (simp add: found_route_def)
  qed
qed

end
