(* ===== verification/Service_Context.thy ===== *)
theory Service_Context
  imports Service_Dispatch
begin

text \<open>
  The router of the running service: the server context \<open>ServerBuilder\<close> makes of the started
  components and the configuration.
\<close>

section \<open>The running service\<close>

lemma ready_Get:
  assumes "service_present s" and "d \<in> {needs_currencies, needs_rates, needs_pg_client}"
  shows "\<exists>c. Components_Get L (Suc n) (fst d) (snd d) s = Some (Inr (c, s))"
proof -
  have "snd d \<in> {''server_io_context'', ''pg_client'', ''currencies_cache'', ''exchange_rates_cache''}"
    using assms(2) by (auto simp: needs_currencies_def needs_rates_def needs_pg_client_def)
  then have "snd d \<in> set (map fst (cs_components s))"
    by (simp only: service_presentD(2) [OF assms(1)])
  then obtain c where "(snd d, c) \<in> set (cs_components s)" by (auto simp only: set_map image_iff fst_conv)
  moreover from this have c: "map_find (snd d) (cs_components s) = Some c"
    using service_presentD(1) [OF assms(1)] by (simp add: map_find_eq_map_of)
  ultimately have "cp_types c = service_types (snd d)" by (intro service_presentD(3) [OF assms(1)])
  then have "casts_to (fst d) c"
    using assms(2)
    by (auto simp: service_types_def casts_to_def needs_currencies_def needs_rates_def needs_pg_client_def)
  with c show ?thesis by simp
qed

lemma ready_get_components:
  assumes "service_present s" and "set ds \<subseteq> {needs_currencies, needs_rates, needs_pg_client}"
  shows "get_components L (Suc n) ds s = Inr s"
  using assms(2)
proof (induction ds)
  case (Cons d ds)
  then have "d \<in> {needs_currencies, needs_rates, needs_pg_client}" by auto
  from ready_Get [OF assms(1) this] obtain c where
    "Components_Get L (Suc n) (fst d) (snd d) s = Some (Inr (c, s))" by blast
  with Cons show ?case by simp
qed simp

text \<open>The handler registered under a name, with the caches it sees.\<close>

definition service_handler ::
  "'d lib \<Rightarrow> currencies_cache \<Rightarrow> exchange_rates_cache \<Rightarrow> string \<Rightarrow> handler" where
  "service_handler L cc rc name = snd (the (FactoryBase_Create (service_handlers L) name)) cc rc"

lemma service_handler_eqs:
  "service_handler L cc rc ''get_currencies'' = get_currencies L cc"
  "service_handler L cc rc ''get_currency'' = get_currency L cc"
  "service_handler L cc rc ''get_exchange_rates'' = get_exchange_rates L rc"
  "service_handler L cc rc ''get_exchange_rate'' = get_exchange_rate L cc rc"
  "service_handler L cc rc ''post_currencies'' = post_currencies_HandleRequest L"
  "service_handler L cc rc ''post_exchange_rates'' = post_exchange_rates_HandleRequest L cc"
  "service_handler L cc rc ''patch_exchange_rate'' = patch_exchange_rate_HandleRequest L cc"
  "service_handler L cc rc ''get_exchange'' = exchange_HandleRequest L cc rc"
  by (simp_all add: service_handler_def FactoryBase_Create_def service_handlers_def handler_ctor_defs)

lemma service_create:
  assumes "service_present s" and "name \<in> fst ` set (service_handlers L)"
  shows "HttpHandlersFactory_Create L (Suc n) (service_handlers L) cc rc name cfg s = Inr (Some (service_handler L cc rc name), s)"
proof -
  from assms(2) obtain ds h where "map_find name (service_handlers L) = Some (ds, h)"
    by (force simp: service_handlers_def handler_ctor_defs)
  moreover from this have "(name, ds, h) \<in> set (service_handlers L)"
    by (auto simp: map_find_eq_map_of dest: map_of_SomeD)
  then have "set ds \<subseteq> {needs_currencies, needs_rates, needs_pg_client}"
    by (auto simp: service_handlers_def handler_ctor_defs)
  ultimately show ?thesis
    using ready_get_components [OF assms(1), of ds L n]
    by (simp add: HttpHandlersFactory_Create_def FactoryBase_Create_def service_handler_def)
qed

section \<open>The router is filled\<close>

lemma service_plain_entry:
  assumes "bimap_laws L" and "string_algo_laws L" and "url_grammar_laws L" and "service_present s"
    and "entry \<in> set service_http_handlers"
  shows "plain_entry L (HttpHandlersFactory_Create L (Suc n) (service_handlers L) cc rc) (\<lambda>t. t = s) (service_handler L cc rc) entry"
proof -
  obtain name c where e: "entry = (name, c)" by (cases entry)
  have "name \<in> fst ` set (service_handlers L)"
    using assms(5) by (auto simp: e service_http_handlers_def service_entry_def service_handlers_def handler_ctor_defs)
  then have "HttpHandlersFactory_Create L (Suc n) (service_handlers L) cc rc name (hc_yaml_config c) s =
      Inr (Some (service_handler L cc rc name), s)"
    by (rule service_create [OF assms(4)])
  moreover have "ToHttpMethodEnum L (hc_method c) \<noteq> kUnknown" "hc_filters c = []"
    using assms(5) service_methods [OF assms(1,2)] by (auto simp: e service_http_handlers_def service_entry_def)
  moreover have "routable L (hc_path c)" using service_routable [OF assms(3)] assms(5) e by blast
  ultimately show ?thesis unfolding plain_entry_def e by simp
qed

lemma service_table_order:
  assumes "bimap_laws L" and "string_algo_laws L" and "iteration_order ord"
  shows "set (method_routes L H m (ord service_http_handlers)) = set (service_table H m)"
    and "distinct (method_routes L H m (ord service_http_handlers))"
proof -
  have "mset (method_routes L H m (ord service_http_handlers)) = mset (method_routes L H m service_http_handlers)"
    using assms(3) by (simp add: method_routes_def iteration_order_def)
  then have perm: "mset (method_routes L H m (ord service_http_handlers)) = mset (service_table H m)"
    by (simp add: service_method_routes [OF assms(1,2)])
  from mset_eq_setD [OF perm]
  show "set (method_routes L H m (ord service_http_handlers)) = set (service_table H m)" .
  have "distinct (service_table H m)" by (cases m) (simp_all add: service_table_def)
  with mset_eq_imp_distinct_iff [OF perm]
  show "distinct (method_routes L H m (ord service_http_handlers))" by (rule iffD2)
qed

lemma service_routes:
  assumes "bimap_laws L" and "string_algo_laws L" and "url_grammar_laws L" and "iteration_order ord"
    and "service_present s" and "cfg_http_handlers cfg = service_http_handlers"
  shows "\<exists>routes. MakeRouterAndHttpFilterCtxsMap L ord (HttpHandlersFactory_Create L (Suc n) (service_handlers L) cc rc)
      (HttpFiltersFactory_Create []) cfg xh s = Inr (routes, [], s) \<and>
    (\<forall>m uri segs. lib_parse_path L uri = Some segs \<longrightarrow> segs \<noteq> [] \<longrightarrow> no_dots L segs \<longrightarrow>
       Router_Find L routes m uri = ret (map_option (\<lambda>(name, bs).
           \<lparr>fr_handler_name = name, fr_handler = service_handler L cc rc name, fr_match_result = bs\<rparr>)
         (service_route L m segs)))"
proof -
  let ?H = "service_handler L cc rc" and ?entries = "ord service_http_handlers"
  have "set ?entries = set service_http_handlers" by (rule set_iteration_order [OF assms(4)])
  then have "\<forall>e \<in> set ?entries.
      plain_entry L (HttpHandlersFactory_Create L (Suc n) (service_handlers L) cc rc) (\<lambda>t. t = s) ?H e"
    by (intro ballI service_plain_entry [OF assms(1-3,5)]) (simp only:)
  from fill_routed [OF this refl, of "HttpFiltersFactory_Create []" xh] obtain routes where
    fill: "fold_res (add_handler L (HttpHandlersFactory_Create L (Suc n) (service_handlers L) cc rc) (HttpFiltersFactory_Create []) xh)
        ?entries ([], [], s) = Inr (routes, [], s)"
    and routed: "routed L ?H ?entries routes" by blast
  note table = service_table_order [OF assms(1,2,4), of ?H]
  have "Router_Find L routes m uri = ret (map_option (\<lambda>(name, bs).
        \<lparr>fr_handler_name = name, fr_handler = ?H name, fr_match_result = bs\<rparr>) (service_route L m segs))"
    if "lib_parse_path L uri = Some segs" "segs \<noteq> []" "no_dots L segs" for m uri segs
    using Router_Find_routed [OF routed service_clear [OF assms(3) table(1)] that]
      service_found_route [OF assms(3) table] by simp
  with fill assms(6) show ?thesis unfolding MakeRouterAndHttpFilterCtxsMap_def by auto
qed

lemma ref_lib_url_grammar [simp]: "url_grammar_laws ref_lib"
proof -
  have seg: "lib_segment ref_lib (w @ rest) = (w, rest)"
    if "list_all word_char w" "rest = [] \<or> hd rest = CHR ''/''" for w rest
    using that word_char_not_slash [OF that(1)]
    by (cases rest) (auto simp: ref_lib_def ref_segment_def takeWhile_append dropWhile_append)
  have "CHR ''%'' \<notin> set w" if "list_all word_char w" for w
    using that by (induction w) (auto simp: word_char_def ascii_alnum_def Let_def)
  then have dec: "lib_pct_decode ref_lib w = w" if "list_all word_char w" for w
    using that by (simp add: ref_lib_def UrlDecode_plain)
  have "lib_arg_id ref_lib (c # w) = Some []" if "ascii_alnum c" "list_all word_char w" for c w
  proof -
    have "takeWhile (\<lambda>c. ascii_alnum c \<or> c = CHR ''_'') (c # w) = c # w"
      using that by (induction w) (auto simp: word_char_def)
    then show ?thesis by (simp add: ref_lib_def ref_arg_id_def Let_def)
  qed
  with seg dec show ?thesis unfolding url_grammar_laws_def by blast
qed

end
