(* ===== verification/Service_Build.thy ===== *)
theory Service_Build
  imports Service_Context Pg_Cache_Init Server
begin

text \<open>
  \<open>MakeComponents\<close> and \<open>ServerBuilder\<close> of \<open>engine/src/http_server/server_builder.cpp\<close> for the
  service: its components are made, its caches loaded and their updates started, and the
  server is built of them.
\<close>

section \<open>Loading the caches\<close>

text \<open>
  What the program meets outside: the clock, the texts of errors, and the replies to the
  initial statements.  \<open>orders\<close>: the orders in which the loops see unordered containers.
\<close>

record environment =
  ev_now :: string
  ev_error_texts :: "pg_error \<Rightarrow> string \<times> string"
  ev_currencies :: "query \<Rightarrow> currency pg_reply"
  ev_rates :: "query \<Rightarrow> exchange_rate pg_reply"

record orders =
  or_factory :: "(yaml \<Rightarrow> service_object ctor) factory \<Rightarrow> (yaml \<Rightarrow> service_object ctor) factory"
  or_handlers :: "(string, http_handler_config) kv \<Rightarrow> (string, http_handler_config) kv"
  or_components :: "(string, service_object component) kv \<Rightarrow> (string, service_object component) kv"
  or_currencies :: currency_order
  or_rates :: rate_order

definition orders_ok :: "orders \<Rightarrow> bool" where
  "orders_ok orders \<longleftrightarrow> iteration_order (or_factory orders) \<and> iteration_order (or_handlers orders) \<and>
     iteration_order (or_components orders) \<and> iteration_order (or_currencies orders) \<and>
     iteration_order (or_rates orders)"

text \<open>
  How a start may end: the thing is up; an exception leaves; the program is terminated (an
  exception leaves a thread); or a recursion does not end.
\<close>

datatype 'a start = Up 'a | Fails fault | Terminates | Overflows

primrec start_bind :: "'a start \<Rightarrow> ('a \<Rightarrow> 'b start) \<Rightarrow> 'b start" where
  "start_bind (Up x) f = f x"
| "start_bind (Fails e) f = Fails e"
| "start_bind Terminates f = Terminates"
| "start_bind Overflows f = Overflows"

definition start_of :: "'a res \<Rightarrow> 'a start" where
  "start_of r = (case r of Inl e \<Rightarrow> Fails e | Inr x \<Rightarrow> Up x)"

definition start_of_run :: "'a res option \<Rightarrow> 'a start" where
  "start_of_run r = (case r of None \<Rightarrow> Overflows | Some m \<Rightarrow> start_of m)"

text \<open>
  A cache's initial statement and the handler of its reply, which calls \<open>UpdateCache\<close>; \<open>cc\<close>
  are the currencies the rates are joined with.
\<close>

definition init_currencies ::
  "'d lib \<Rightarrow> orders \<Rightarrow> environment \<Rightarrow> (currency, currencies_cache) pg_cache \<Rightarrow>
     (currency, currencies_cache) pg_cache \<times> unit res" where
  "init_currencies L orders env p =
     (case DoInitQuery (ev_now env) kFullUpdateCurrenciesCache p of
        (q, p') \<Rightarrow> OnInitQueryCompletion ''currencies_cache'' (ev_error_texts env)
          (\<lambda>rows c. (CurrenciesCache_UpdateCache L (or_currencies orders) rows c, Inr ())) (ev_currencies env q) p')"

definition init_rates ::
  "'d lib \<Rightarrow> orders \<Rightarrow> environment \<Rightarrow> currencies_cache \<Rightarrow> (exchange_rate, exchange_rates_cache) pg_cache \<Rightarrow>
     (exchange_rate, exchange_rates_cache) pg_cache \<times> unit res" where
  "init_rates L orders env cc p =
     (case DoInitQuery (ev_now env) kFullUpdateExchangeRatesCache p of
        (q, p') \<Rightarrow> OnInitQueryCompletion ''exchange_rates_cache'' (ev_error_texts env)
          (ExchangeRatesCache_UpdateCache L (or_rates orders) cc) (ev_rates env q) p')"

text \<open>The update of the currencies never throws, so its updater runs for good.\<close>

interpretation currencies_update: steady_update
  "\<lambda>rows c. (CurrenciesCache_UpdateCache L (or_currencies orders) rows c, Inr ())"
  for L orders
  by unfold_locales simp

lemma currencies_updater_runs:
  assumes "(updater_step (\<lambda>rows c. (CurrenciesCache_UpdateCache L (or_currencies orders) rows c, Inr ())) R)\<^sup>*\<^sup>*
      (updater_AsyncRunUpdate (PgCacheUpdater t kUpdateCurrenciesCache), c0) (u, c)"
    and "\<And>q. \<exists>r. R q r"
  shows "one_activity u \<and>
    (\<exists>st. updater_step (\<lambda>rows c. (CurrenciesCache_UpdateCache L (or_currencies orders) rows c, Inr ())) R (u, c) st)"
  using currencies_update.always_one_activity [OF assms(1)] currencies_update.never_stops [OF assms] by blast

definition load_object ::
  "'d lib \<Rightarrow> orders \<Rightarrow> environment \<Rightarrow> currencies_cache \<Rightarrow> service_object \<Rightarrow> service_object \<times> unit res" where
  "load_object L orders env cc x =
     (case x of
        Currencies_object p \<Rightarrow> (case init_currencies L orders env p of (p', r) \<Rightarrow> (Currencies_object p', r))
      | Rates_object p \<Rightarrow> (case init_rates L orders env cc p of (p', r) \<Rightarrow> (Rates_object p', r))
      | _ \<Rightarrow> (x, Inr ()))"

definition load_component ::
  "'d lib \<Rightarrow> orders \<Rightarrow> environment \<Rightarrow> currencies_cache \<Rightarrow> service_object component \<Rightarrow>
     service_object component \<times> unit res" where
  "load_component L orders env cc c =
     (if casts_to ''PgCacheBase'' c
      then case load_object L orders env cc (cp_object c) of (x, r) \<Rightarrow> (c\<lparr>cp_object := x\<rparr>, r)
      else (c, Inr ()))"

text \<open>The components are shared objects: a loop over them changes them in place.\<close>

definition map_components :: "('o component \<Rightarrow> 'o component) \<Rightarrow> 'o components \<Rightarrow> 'o components" where
  "map_components f s = s\<lparr>cs_components := map (\<lambda>(name, c). (name, f c)) (cs_components s)\<rparr>"

definition currencies_data :: "service_object components \<Rightarrow> currencies_cache" where
  "currencies_data s =
     (case map_option cp_object (map_find ''currencies_cache'' (cs_components s)) of
        Some (Currencies_object p) \<Rightarrow> pgc_data p
      | _ \<Rightarrow> CurrenciesCache)"

definition rates_data :: "service_object components \<Rightarrow> exchange_rates_cache" where
  "rates_data s =
     (case map_option cp_object (map_find ''exchange_rates_cache'' (cs_components s)) of
        Some (Rates_object p) \<Rightarrow> pgc_data p
      | _ \<Rightarrow> ExchangeRatesCache)"

text \<open>
  The loads of \<open>InitPgCaches\<close>.  They run side by side (see \<open>Pg_Cache_Init\<close>), but the update of
  the rates starts by waiting for the currencies to be loaded.  A handler that throws
  terminates the program.
\<close>

definition load_caches ::
  "'d lib \<Rightarrow> orders \<Rightarrow> environment \<Rightarrow> service_object components \<Rightarrow> service_object components start" where
  "load_caches L orders env s =
     (let cc = currencies_data (map_components (\<lambda>c. fst (load_component L orders env CurrenciesCache c)) s)
      in if list_all (\<lambda>(name, c). snd (load_component L orders env cc c) = Inr ()) (cs_components s)
         then Up (map_components (\<lambda>c. fst (load_component L orders env cc c)) s)
         else Terminates)"

definition update_object :: "service_object \<Rightarrow> service_object" where
  "update_object x =
     (case x of
        Currencies_object p \<Rightarrow> Currencies_object (PgCache_AsyncRunUpdate p)
      | Rates_object p \<Rightarrow> Rates_object (PgCache_AsyncRunUpdate p)
      | _ \<Rightarrow> x)"

definition RunPgCachesUpdate :: "service_object components \<Rightarrow> service_object components" where
  "RunPgCachesUpdate s =
     map_components (\<lambda>c. if casts_to ''PgCacheBase'' c then c\<lparr>cp_object := update_object (cp_object c)\<rparr> else c) s"

section \<open>Building the server\<close>

definition MakeComponents ::
  "'d lib \<Rightarrow> nat \<Rightarrow> orders \<Rightarrow> environment \<Rightarrow> yaml \<Rightarrow> (yaml \<Rightarrow> service_object ctor) factory \<Rightarrow>
     service_object components start" where
  "MakeComponents L n orders env cfg f =
     start_bind (start_of_run (make_all_components L n (or_factory orders) cfg f)) (\<lambda>s.
     start_bind (load_caches L orders env s) (\<lambda>s. Up (RunPgCachesUpdate s)))"

text \<open>
  The handlers hold references to the caches; here they see what the caches hold when the
  server is built.
\<close>

definition ServerBuilder_Build ::
  "'d lib \<Rightarrow> nat \<Rightarrow> orders \<Rightarrow> environment \<Rightarrow> server_builder \<Rightarrow> service_object server start" where
  "ServerBuilder_Build L n orders env b =
     start_bind (MakeComponents L n orders env (cfg_components (sb_config b)) (sb_components_factory b)) (\<lambda>s.
     start_bind (start_of (MakeRouterAndHttpFilterCtxsMap L (or_handlers orders)
         (HttpHandlersFactory_Create L n (sb_http_handlers_factory b) (currencies_data s) (rates_data s))
         (HttpFiltersFactory_Create (sb_http_filters_factory b)) (sb_config b) (ExceptionsHandlerImpl L) s))
       (\<lambda>(router, http_filter_ctxs_map, s).
     start_of_run (ServerImpl L n (sb_config b) router http_filter_ctxs_map (ExceptionsHandlerImpl L) s)))"

text \<open>The builder of \<open>main\<close> with a configuration.\<close>

definition service_builder :: "'d lib \<Rightarrow> config \<Rightarrow> server_builder" where
  "service_builder L cfg = SetConfig cfg (mn_server_builder (service_main L []))"

lemma service_builder_eq:
  "service_builder L cfg =
     \<lparr>sb_http_handlers_factory = service_handlers L, sb_http_filters_factory = [], sb_config = cfg,
      sb_components_factory = service_factory L\<rparr>"
  by (simp add: service_builder_def SetConfig_def service_main_builder)

section \<open>The loaded service\<close>

lemma map_find_map_components:
  "map_find name (cs_components (map_components f s)) = map_option f (map_find name (cs_components s))"
  by (simp add: map_components_def map_find_eq_map_of map_of_map)

lemma map_components_present:
  assumes "service_present s" and "\<And>c. cp_types (f c) = cp_types c"
  shows "service_present (map_components f s)"
  unfolding service_present_def
proof (intro conjI ballI)
  have keys: "map fst (cs_components (map_components f s)) = map fst (cs_components s)"
    by (simp add: map_components_def case_prod_unfold comp_def)
  show "distinct (map fst (cs_components (map_components f s)))"
    unfolding keys by (rule service_presentD(1) [OF assms(1)])
  show "set (map fst (cs_components (map_components f s))) =
      {''server_io_context'', ''pg_client'', ''currencies_cache'', ''exchange_rates_cache''}"
    unfolding keys by (rule service_presentD(2) [OF assms(1)])
  show "case p of (name, c) \<Rightarrow> cp_types c = service_types name"
    if "p \<in> set (cs_components (map_components f s))" for p
    using that service_presentD(3) [OF assms(1)] assms(2) by (auto simp: map_components_def)
qed

lemma types_load_component [simp]: "cp_types (fst (load_component L orders env cc c)) = cp_types c"
  by (simp add: load_component_def split: prod.split)

lemma RunPgCachesUpdate_present: "service_present s \<Longrightarrow> service_present (RunPgCachesUpdate s)"
  unfolding RunPgCachesUpdate_def by (rule map_components_present) simp_all

text \<open>The components of a started service, before anything is loaded.\<close>

lemma service_ready_caches:
  assumes "service_ready s"
  obtains cc_cfg rc_cfg ct rt where
    "map_find ''currencies_cache'' (cs_components s) = Some ct" "casts_to ''PgCacheBase'' ct"
    "cp_object ct = Currencies_object (PgCache cc_cfg kUpdateCurrenciesCache kFullUpdateCurrenciesCache CurrenciesCache)"
    "map_find ''exchange_rates_cache'' (cs_components s) = Some rt" "casts_to ''PgCacheBase'' rt"
    "cp_object rt =
      Rates_object (PgCache rc_cfg kUpdateExchangeRatesCache kFullUpdateExchangeRatesCache ExchangeRatesCache)"
    "\<And>name c. (name, c) \<in> set (cs_components s) \<Longrightarrow> casts_to ''PgCacheBase'' c \<Longrightarrow> c = ct \<or> c = rt"
proof -
  have found: "\<exists>c. map_find name (cs_components s) = Some c \<and> (name, c) \<in> set (cs_components s)"
    if "name \<in> {''server_io_context'', ''pg_client'', ''currencies_cache'', ''exchange_rates_cache''}" for name
  proof -
    have "name \<in> set (map fst (cs_components s))" using that by (simp only: service_readyD(2) [OF assms])
    then obtain c where "(name, c) \<in> set (cs_components s)" by (auto simp only: set_map image_iff fst_conv)
    with service_readyD(1) [OF assms] show ?thesis by (auto simp: map_find_eq_map_of)
  qed
  from found [of "''currencies_cache''"] obtain ct where
    ct: "map_find ''currencies_cache'' (cs_components s) = Some ct" "(''currencies_cache'', ct) \<in> set (cs_components s)"
    by auto
  from found [of "''exchange_rates_cache''"] obtain rt where
    rt: "map_find ''exchange_rates_cache'' (cs_components s) = Some rt"
      "(''exchange_rates_cache'', rt) \<in> set (cs_components s)" by auto
  have caches: "c = ct \<or> c = rt" if "(name, c) \<in> set (cs_components s)" "casts_to ''PgCacheBase'' c" for name c
  proof -
    have "cp_types c = service_types name" by (rule service_presentD(3) [OF service_ready_present [OF assms] that(1)])
    with that(2) have "name \<noteq> ''server_io_context''" "name \<noteq> ''pg_client''"
      by (auto simp: casts_to_def service_types_def)
    moreover have "name \<in> set (map fst (cs_components s))" using that(1) by force
    then have "name \<in> {''server_io_context'', ''pg_client'', ''currencies_cache'', ''exchange_rates_cache''}"
      by (simp only: service_readyD(2) [OF assms])
    ultimately have "name = ''currencies_cache'' \<or> name = ''exchange_rates_cache''" by blast
    moreover have "map_find name (cs_components s) = Some c"
      using that(1) service_readyD(1) [OF assms] by (simp add: map_find_eq_map_of)
    ultimately show ?thesis using ct(1) rt(1) by auto
  qed
  from service_readyD(3) [OF assms ct(2)] service_readyD(3) [OF assms rt(2)] that [OF ct(1) _ _ rt(1) _ _ caches]
  show thesis by (auto simp: service_spec_def casts_to_def)
qed

text \<open>The caches after the initial load, with the updates started.\<close>

definition running_cache :: "string \<Rightarrow> pg_cache_config \<Rightarrow> string \<Rightarrow> string \<Rightarrow> 'c \<Rightarrow> ('r, 'c) pg_cache" where
  "running_cache now cfg uq fq data =
     PgCache_AsyncRunUpdate ((PgCache cfg uq fq data)\<lparr>pgc_last_update_time := now, pgc_is_init := True\<rparr>)"

definition service_loaded ::
  "string \<Rightarrow> currencies_cache \<Rightarrow> exchange_rates_cache \<Rightarrow> service_object components \<Rightarrow> bool" where
  "service_loaded now cc rc s \<longleftrightarrow> service_present s \<and>
     (\<exists>cfg. map_option cp_object (map_find ''currencies_cache'' (cs_components s)) =
        Some (Currencies_object (running_cache now cfg kUpdateCurrenciesCache kFullUpdateCurrenciesCache cc))) \<and>
     (\<exists>cfg. map_option cp_object (map_find ''exchange_rates_cache'' (cs_components s)) =
        Some (Rates_object (running_cache now cfg kUpdateExchangeRatesCache kFullUpdateExchangeRatesCache rc)))"

text \<open>Both initial statements are answered with rows, and the update of the rates does not throw.\<close>

definition loads_well ::
  "'d lib \<Rightarrow> orders \<Rightarrow> environment \<Rightarrow> currencies_cache \<Rightarrow> exchange_rates_cache \<Rightarrow> bool" where
  "loads_well L orders env cc rc \<longleftrightarrow>
     fst (ev_currencies env (kFullUpdateCurrenciesCache, [])) = None \<and>
     cc = CurrenciesCache_UpdateCache L (or_currencies orders)
       (snd (ev_currencies env (kFullUpdateCurrenciesCache, []))) CurrenciesCache \<and>
     fst (ev_rates env (kFullUpdateExchangeRatesCache, [])) = None \<and>
     ExchangeRatesCache_UpdateCache L (or_rates orders) cc
       (snd (ev_rates env (kFullUpdateExchangeRatesCache, []))) ExchangeRatesCache = (rc, Inr ())"

lemma init_currencies_loads:
  assumes "loads_well L orders env cc rc"
  shows "init_currencies L orders env (PgCache cfg uq fq CurrenciesCache) =
    ((PgCache cfg uq fq cc)\<lparr>pgc_last_update_time := ev_now env, pgc_is_init := True\<rparr>, Inr ())"
proof -
  obtain rows where "ev_currencies env (kFullUpdateCurrenciesCache, []) = (None, rows)"
    using assms by (cases "ev_currencies env (kFullUpdateCurrenciesCache, [])") (auto simp: loads_well_def)
  with assms show ?thesis
    by (simp add: init_currencies_def DoInitQuery_def make_query_def OnInitQueryCompletion_def loads_well_def PgCache_def)
qed

lemma init_rates_loads:
  assumes "loads_well L orders env cc rc"
  shows "init_rates L orders env cc (PgCache cfg uq fq ExchangeRatesCache) =
    ((PgCache cfg uq fq rc)\<lparr>pgc_last_update_time := ev_now env, pgc_is_init := True\<rparr>, Inr ())"
proof -
  have "fst (ev_rates env (kFullUpdateExchangeRatesCache, [])) = None"
    and upd: "ExchangeRatesCache_UpdateCache L (or_rates orders) cc
       (snd (ev_rates env (kFullUpdateExchangeRatesCache, []))) ExchangeRatesCache = (rc, Inr ())"
    using assms unfolding loads_well_def by blast+
  then obtain rows where rows: "ev_rates env (kFullUpdateExchangeRatesCache, []) = (None, rows)"
    by (cases "ev_rates env (kFullUpdateExchangeRatesCache, [])") auto
  from upd [unfolded rows snd_conv] rows show ?thesis
    by (simp add: init_rates_def DoInitQuery_def make_query_def OnInitQueryCompletion_def PgCache_def)
qed

lemma caches_load:
  assumes "service_ready s" and "loads_well L orders env cc rc"
  shows "\<exists>s'. load_caches L orders env s = Up s' \<and> service_loaded (ev_now env) cc rc (RunPgCachesUpdate s')"
proof -
  from assms(1) obtain cc_cfg rc_cfg ct rt where
    ct: "map_find ''currencies_cache'' (cs_components s) = Some ct" "casts_to ''PgCacheBase'' ct"
    "cp_object ct = Currencies_object (PgCache cc_cfg kUpdateCurrenciesCache kFullUpdateCurrenciesCache CurrenciesCache)"
    and rt: "map_find ''exchange_rates_cache'' (cs_components s) = Some rt" "casts_to ''PgCacheBase'' rt"
    "cp_object rt =
      Rates_object (PgCache rc_cfg kUpdateExchangeRatesCache kFullUpdateExchangeRatesCache ExchangeRatesCache)"
    and caches: "\<And>name c. (name, c) \<in> set (cs_components s) \<Longrightarrow> casts_to ''PgCacheBase'' c \<Longrightarrow> c = ct \<or> c = rt"
    by (rule service_ready_caches) blast
  let ?load = "\<lambda>cc c. fst (load_component L orders env cc c)"
  have load_ct: "load_component L orders env x ct = (ct\<lparr>cp_object := Currencies_object
      ((PgCache cc_cfg kUpdateCurrenciesCache kFullUpdateCurrenciesCache cc)
        \<lparr>pgc_last_update_time := ev_now env, pgc_is_init := True\<rparr>)\<rparr>, Inr ())" for x
    using ct(2,3) by (simp add: load_component_def load_object_def init_currencies_loads [OF assms(2)])
  have load_rt: "load_component L orders env cc rt = (rt\<lparr>cp_object := Rates_object
      ((PgCache rc_cfg kUpdateExchangeRatesCache kFullUpdateExchangeRatesCache rc)
        \<lparr>pgc_last_update_time := ev_now env, pgc_is_init := True\<rparr>)\<rparr>, Inr ())"
    using rt(2,3) by (simp add: load_component_def load_object_def init_rates_loads [OF assms(2)])
  have "snd (load_component L orders env cc c) = Inr ()" if "(name, c) \<in> set (cs_components s)" for name c
    using caches [OF that] load_ct [of cc] load_rt by (cases "casts_to ''PgCacheBase'' c") (auto simp: load_component_def)
  then have "list_all (\<lambda>(name, c). snd (load_component L orders env cc c) = Inr ()) (cs_components s)"
    by (auto simp: list_all_iff)
  moreover have "currencies_data (map_components (?load CurrenciesCache) s) = cc"
    by (simp add: currencies_data_def map_find_map_components ct(1) load_ct PgCache_def)
  ultimately have "load_caches L orders env s = Up (map_components (?load cc) s)"
    by (simp add: load_caches_def)
  moreover have "service_present (RunPgCachesUpdate (map_components (?load cc) s))"
    by (intro RunPgCachesUpdate_present map_components_present service_ready_present assms(1) types_load_component)
  moreover have "casts_to ''PgCacheBase'' (c\<lparr>cp_object := x\<rparr>) = casts_to ''PgCacheBase'' c"
    for c :: "service_object component" and x by (simp add: casts_to_def)
  ultimately show ?thesis
    by (simp add: service_loaded_def RunPgCachesUpdate_def map_find_map_components ct(1,2) rt(1,2) load_ct load_rt
        update_object_def running_cache_def exI)
qed

lemma service_loaded_data:
  assumes "service_loaded now cc rc s"
  shows "currencies_data s = cc" and "rates_data s = rc" and "service_present s"
  using assms by (auto simp: service_loaded_def currencies_data_def rates_data_def running_cache_def
      PgCache_AsyncRunUpdate_def PgCache_def Let_def)

section \<open>The built server\<close>

text \<open>What a request finds: the handler of the reference, or none.\<close>

definition routes_service ::
  "'d lib \<Rightarrow> currencies_cache \<Rightarrow> exchange_rates_cache \<Rightarrow> handler routes \<Rightarrow> bool" where
  "routes_service L cc rc routes \<longleftrightarrow>
     (\<forall>m uri segs. lib_parse_path L uri = Some segs \<longrightarrow> segs \<noteq> [] \<longrightarrow> no_dots L segs \<longrightarrow>
       Router_Find L routes m uri = ret (map_option (\<lambda>(name, bs).
           \<lparr>fr_handler_name = name, fr_handler = service_handler L cc rc name, fr_match_result = bs\<rparr>)
         (service_route L m segs)))"

definition service_started ::
  "'d lib \<Rightarrow> environment \<Rightarrow> config \<Rightarrow> currencies_cache \<Rightarrow> exchange_rates_cache \<Rightarrow> service_object server \<Rightarrow> bool" where
  "service_started L env cfg cc rc sv \<longleftrightarrow>
     service_loaded (ev_now env) cc rc (sv_components sv) \<and> routes_service L cc rc (GetRouter (sv_context sv)) \<and>
     GetConfig (sv_context sv) = cfg \<and> GetHttpFilterContextsMap (sv_context sv) = [] \<and>
     GetExceptionsHandler (sv_context sv) = ExceptionsHandlerImpl L \<and> sv_signal_waits sv = 1"

lemma present_io_context:
  assumes "service_present s"
  shows "\<exists>io. Components_Get L (Suc n) ''ServerIOContext'' ''server_io_context'' s = Some (Inr (io, s))"
proof -
  have "''server_io_context'' \<in> set (map fst (cs_components s))" by (simp only: service_presentD(2) [OF assms] insert_iff simp_thms)
  then obtain c where c: "(''server_io_context'', c) \<in> set (cs_components s)"
    by (auto simp only: set_map image_iff fst_conv)
  moreover from c have "map_find ''server_io_context'' (cs_components s) = Some c"
    using service_presentD(1) [OF assms] by (simp add: map_find_eq_map_of)
  ultimately show ?thesis using service_presentD(3) [OF assms c] by (simp add: casts_to_def service_types_def)
qed

text \<open>The settings are valid, and the loads end well.\<close>

definition can_start ::
  "'d lib \<Rightarrow> nat \<Rightarrow> orders \<Rightarrow> environment \<Rightarrow> config \<Rightarrow> currencies_cache \<Rightarrow> exchange_rates_cache \<Rightarrow> bool" where
  "can_start L n orders env cfg cc rc \<longleftrightarrow>
     bimap_laws L \<and> string_algo_laws L \<and> url_grammar_laws L \<and> orders_ok orders \<and> 3 \<le> n \<and>
     valid_service L (cfg_components cfg) \<and> cfg_http_handlers cfg = service_http_handlers \<and>
     loads_well L orders env cc rc"

lemma server_builds:
  assumes "can_start L n orders env cfg cc rc"
  shows "\<exists>sv. ServerBuilder_Build L n orders env (service_builder L cfg) = Up sv \<and> service_started L env cfg cc rc sv"
proof -
  note start = assms [unfolded can_start_def orders_ok_def]
  obtain k where n: "n = Suc k" using start by (cases n) auto
  from service_made_ready [of L "cfg_components cfg" "or_factory orders" n] start obtain s where
    s: "make_all_components L n (or_factory orders) (cfg_components cfg) (service_factory L) = Some (Inr s)"
      "service_ready s" by blast
  from caches_load [OF s(2), of L orders env cc rc] start obtain s' where
    s': "load_caches L orders env s = Up s'" "service_loaded (ev_now env) cc rc (RunPgCachesUpdate s')" by blast
  let ?s = "RunPgCachesUpdate s'"
  note data = service_loaded_data [OF s'(2)]
  from service_routes [of L "or_handlers orders" ?s cfg k cc rc "ExceptionsHandlerImpl L"] start data(3) obtain routes where
    routes: "MakeRouterAndHttpFilterCtxsMap L (or_handlers orders) (HttpHandlersFactory_Create L n (service_handlers L) cc rc)
        (HttpFiltersFactory_Create []) cfg (ExceptionsHandlerImpl L) ?s = Inr (routes, [], ?s)"
      "routes_service L cc rc routes"
    unfolding routes_service_def n by blast
  from present_io_context [OF data(3), of L k] obtain io where
    io: "Components_Get L n ''ServerIOContext'' ''server_io_context'' ?s = Some (Inr (io, ?s))" unfolding n by blast
  have "MakeComponents L n orders env (cfg_components cfg) (service_factory L) = Up ?s"
    using s(1) s'(1) by (simp add: MakeComponents_def start_of_run_def start_of_def)
  with routes(1) data(1,2) io show ?thesis using s'(2) routes(2)
    by (simp add: ServerBuilder_Build_def service_builder_eq start_of_run_def start_of_def ServerImpl_def service_started_def
        context_defs SetSigtermAndSigintHandler_def)
qed

text \<open>
  C1: with valid settings and an initial load that succeeds the server is built, whatever
  orders registrations, routes and rows are visited in, and its router gives every path of
  at least one segment and without dot segments to the handler that the method and path
  name -- with the code or pair of the path as it was sent -- or to none.
\<close>

theorem service_dispatch:
  assumes "can_start L n orders env cfg cc rc"
    and "lib_parse_path L uri = Some segs" and "segs \<noteq> []" and "no_dots L segs"
  shows "\<exists>sv. ServerBuilder_Build L n orders env (service_builder L cfg) = Up sv \<and>
    Router_Find L (GetRouter (sv_context sv)) m uri = ret (map_option (\<lambda>(name, bs).
        \<lparr>fr_handler_name = name, fr_handler = service_handler L cc rc name, fr_match_result = bs\<rparr>)
      (service_route L m segs))"
  using server_builds [OF assms(1)] assms(2-4) unfolding service_started_def routes_service_def by blast

text \<open>An environment whose database holds two currencies and one rate.\<close>

definition sample_environment :: environment where
  "sample_environment =
     \<lparr>ev_now = ''2024-01-01'', ev_error_texts = (\<lambda>ec. ([], [])), ev_currencies = (\<lambda>q. (None, [usd, eur])),
      ev_rates = (\<lambda>q. (None, [usd_eur]))\<rparr>"

definition sample_orders :: orders where
  "sample_orders = \<lparr>or_factory = rev, or_handlers = rev, or_components = rev, or_currencies = rev, or_rates = rev\<rparr>"

lemma sample_can_start:
  "\<exists>cfg cc rc. ParseConfig ref_lib service_yaml = Inr cfg \<and>
    can_start ref_lib 3 sample_orders sample_environment cfg cc rc \<and> GetExchangeRateByCurrPair rc 1 2 = Some usd_eur"
proof -
  let ?cc = "CurrenciesCache_UpdateCache ref_lib rev [usd, eur] CurrenciesCache"
  let ?r = "ExchangeRatesCache_UpdateCache ref_lib rev ?cc [usd_eur] ExchangeRatesCache"
  have "snd ?r = Inr () \<and> GetExchangeRateByCurrPair (fst ?r) 1 2 = Some usd_eur" by code_simp
  then obtain rc where "?r = (rc, Inr ())" "GetExchangeRateByCurrPair rc 1 2 = Some usd_eur" by (cases ?r) simp
  then have "loads_well ref_lib sample_orders sample_environment ?cc rc"
    by (simp add: loads_well_def sample_orders_def sample_environment_def)
  moreover obtain cfg where "ParseConfig ref_lib service_yaml = Inr cfg"
    "cfg_http_handlers cfg = service_http_handlers" "valid_service ref_lib (cfg_components cfg)"
    using service_yaml_parses by blast
  moreover have "orders_ok sample_orders" by (simp add: orders_ok_def sample_orders_def)
  ultimately show ?thesis using \<open>GetExchangeRateByCurrPair rc 1 2 = Some usd_eur\<close> by (auto simp: can_start_def)
qed

theorem service_dispatch_witness:
  "\<exists>cfg sv cc. ParseConfig ref_lib service_yaml = Inr cfg \<and>
    ServerBuilder_Build ref_lib 3 sample_orders sample_environment (service_builder ref_lib cfg) = Up sv \<and>
    Router_Find ref_lib (GetRouter (sv_context sv)) kPatch ''/exchangerate/USD%45UR'' = ret (Some
      \<lparr>fr_handler_name = ''patch_exchange_rate'', fr_handler = patch_exchange_rate_HandleRequest ref_lib cc,
       fr_match_result = [(''curr_pair'', ''USD%45UR'')]\<rparr>)"
proof -
  from sample_can_start obtain cfg cc rc where
    start: "ParseConfig ref_lib service_yaml = Inr cfg" "can_start ref_lib 3 sample_orders sample_environment cfg cc rc"
    by blast
  have path: "lib_parse_path ref_lib ''/exchangerate/USD%45UR'' = Some [''exchangerate'', ''USD%45UR'']"
    "no_dots ref_lib [''exchangerate'', ''USD%45UR'']"
    "service_route ref_lib kPatch [''exchangerate'', ''USD%45UR''] =
      Some (''patch_exchange_rate'', [(''curr_pair'', ''USD%45UR'')])" by code_simp+
  from service_dispatch [OF start(2) path(1) _ path(2), of kPatch] path(3) start(1) show ?thesis
    by (auto simp: service_handler_eqs)
qed

text \<open>
  C7: what the caches of a built server hold was loaded when it started, and stays: the
  updates that are running change nothing, so every later request sees the same data.
\<close>

theorem service_data_is_final:
  assumes "can_start L n orders env cfg cc rc" and "postgres_laws R" and "postgres_laws R'"
  shows "\<exists>sv cp rp. ServerBuilder_Build L n orders env (service_builder L cfg) = Up sv \<and>
    map_option cp_object (map_find ''currencies_cache'' (cs_components (sv_components sv))) =
      Some (Currencies_object cp) \<and>
    map_option cp_object (map_find ''exchange_rates_cache'' (cs_components (sv_components sv))) =
      Some (Rates_object rp) \<and>
    pgc_is_init cp \<and> pgc_is_init rp \<and>
    (\<forall>p U F. (pg_cache_step U F R)\<^sup>*\<^sup>* cp p \<longrightarrow> pgc_data p = cc) \<and>
    (\<forall>p U F. (pg_cache_step U F R')\<^sup>*\<^sup>* rp p \<longrightarrow> pgc_data p = rc)"
proof -
  from server_builds [OF assms(1)] obtain sv where
    sv: "ServerBuilder_Build L n orders env (service_builder L cfg) = Up sv" "service_loaded (ev_now env) cc rc (sv_components sv)"
    unfolding service_started_def by blast
  have final: "pgc_data p = data"
    if "postgres_laws Q" "(uq, fq) \<in> cache_statements" "(pg_cache_step U F Q)\<^sup>*\<^sup>* (running_cache now c uq fq data) p"
    for Q and uq fq now c data p and U F :: "'r list \<Rightarrow> 'c \<Rightarrow> 'c \<times> unit res"
    using cache_never_refreshed [OF that(1,2) _ _ that(3) [unfolded running_cache_def]] by (simp add: PgCache_def)
  have statements: "(kUpdateCurrenciesCache, kFullUpdateCurrenciesCache) \<in> cache_statements"
    "(kUpdateExchangeRatesCache, kFullUpdateExchangeRatesCache) \<in> cache_statements"
    by (simp_all add: cache_statements_def)
  from sv(2) obtain c1 c2 where objects:
    "map_option cp_object (map_find ''currencies_cache'' (cs_components (sv_components sv))) =
      Some (Currencies_object (running_cache (ev_now env) c1 kUpdateCurrenciesCache kFullUpdateCurrenciesCache cc))"
    "map_option cp_object (map_find ''exchange_rates_cache'' (cs_components (sv_components sv))) =
      Some (Rates_object (running_cache (ev_now env) c2 kUpdateExchangeRatesCache kFullUpdateExchangeRatesCache rc))"
    unfolding service_loaded_def by blast
  let ?cp = "running_cache (ev_now env) c1 kUpdateCurrenciesCache kFullUpdateCurrenciesCache cc ::
    (currency, currencies_cache) pg_cache"
  let ?rp = "running_cache (ev_now env) c2 kUpdateExchangeRatesCache kFullUpdateExchangeRatesCache rc ::
    (exchange_rate, exchange_rates_cache) pg_cache"
  have is_init: "pgc_is_init ?cp" "pgc_is_init ?rp"
    by (simp_all add: running_cache_def PgCache_AsyncRunUpdate_def Let_def)
  have final_cc: "\<forall>p U F. (pg_cache_step U F R)\<^sup>*\<^sup>* ?cp p \<longrightarrow> pgc_data p = cc"
    by (intro allI impI) (rule final [OF assms(2) statements(1)])
  have final_rc: "\<forall>p U F. (pg_cache_step U F R')\<^sup>*\<^sup>* ?rp p \<longrightarrow> pgc_data p = rc"
    by (intro allI impI) (rule final [OF assms(3) statements(2)])
  show ?thesis
    by (intro exI [of _ sv] exI [of _ ?cp] exI [of _ ?rp] conjI sv(1) objects is_init final_cc final_rc)
qed

theorem service_data_is_final_witness:
  "\<exists>cfg sv rp. ParseConfig ref_lib service_yaml = Inr cfg \<and>
    ServerBuilder_Build ref_lib 3 sample_orders sample_environment (service_builder ref_lib cfg) = Up sv \<and>
    map_option cp_object (map_find ''exchange_rates_cache'' (cs_components (sv_components sv))) =
      Some (Rates_object rp) \<and>
    (\<forall>p U F. (pg_cache_step U F strict_replies)\<^sup>*\<^sup>* rp p \<longrightarrow>
       GetExchangeRateByCurrPair (pgc_data p) 1 2 = Some usd_eur)"
proof -
  from sample_can_start obtain cfg cc rc where
    start: "ParseConfig ref_lib service_yaml = Inr cfg" "can_start ref_lib 3 sample_orders sample_environment cfg cc rc"
      "GetExchangeRateByCurrPair rc 1 2 = Some usd_eur"
    by blast
  have laws: "postgres_laws (strict_replies :: query \<Rightarrow> 'r pg_reply \<Rightarrow> bool)"
    by (auto simp: postgres_laws_def strict_replies_def split: if_splits)
  from service_data_is_final [OF start(2) laws laws] start(1,3) show ?thesis by metis
qed

end
