(* ===== verification/Service_Requests.thy ===== *)
theory Service_Requests
  imports Service_Build Session
begin

text \<open>
  Requests to the running service: what \<open>RequestHandler\<close> does with the context of a built
  server.
\<close>

section \<open>From the request to its handler\<close>

lemma HasFilters_Nil [simp]: "\<not> HasFilters [] name"
  by (simp add: HasFilters_def)

lemma GetQuery_SetMatchResult [simp]: "GetQuery L (SetMatchResult rq m) = GetQuery L rq"
  by (simp add: GetQuery_def SetMatchResult_def)

text \<open>The response of a request before its handler has run.\<close>

definition fresh_response :: "'d lib \<Rightarrow> http_request \<Rightarrow> http_response" where
  "fresh_response L rq = MakeHttpResponse L (GetKeepAlive rq) (GetHttpVersion rq) kApplicationJson"

lemma takes_body_fresh_response [simp]: "bimap_laws L \<Longrightarrow> takes_body (fresh_response L rq)"
  by (simp add: fresh_response_def)

lemma calls_fresh_response [simp]: "rs_calls (fresh_response L rq) = []"
  by (simp add: fresh_response_def resp_simps)

lemma request_reaches_handler:
  assumes "service_started L env cfg cc rc sv" and "MakeHttpRequest L b = Inr rq"
    and "lib_parse_path L (GetPath rq) = Some segs" and "segs \<noteq> []" and "no_dots L segs"
  shows "RequestHandler L (sv_context sv) b = ret
    (case service_route L (GetMethod L rq) segs of
       None \<Rightarrow> answered (Send L [] (SetStatusCode L kInternalServerError (fresh_response L rq)))
     | Some (name, bs) \<Rightarrow>
         HttpHandlerBase_Process (service_handler L cc rc name) (ExceptionsHandlerImpl L)
           (Some (SetMatchResult rq bs)) (Some (fresh_response L rq)))"
proof -
  have "Router_Find L (GetRouter (sv_context sv)) (GetMethod L rq) (GetPath rq) = ret (map_option (\<lambda>(name, bs).
           \<lparr>fr_handler_name = name, fr_handler = service_handler L cc rc name, fr_match_result = bs\<rparr>)
         (service_route L (GetMethod L rq) segs))"
    using assms(1,3-5) unfolding service_started_def routes_service_def by blast
  with assms(1,2) show ?thesis
    by (cases "service_route L (GetMethod L rq) segs")
      (auto simp: RequestHandler_def fresh_response_def service_started_def)
qed

section \<open>One answer\<close>

text \<open>The handlers of the routes that \<open>service_route\<close> names.\<close>

lemma service_route_names:
  "service_route L m segs = Some (name, bs) \<Longrightarrow>
    name \<in> {''get_currencies'', ''get_currency'', ''get_exchange_rates'', ''get_exchange_rate''} \<or>
    name = ''get_exchange'' \<or> name \<in> {''post_exchange_rates'', ''patch_exchange_rate''} \<or> name = ''post_currencies''"
  by (simp add: service_route_def Let_def split: list.splits if_splits)

lemma service_handler_once:
  assumes "service_route L m segs = Some (name, bs)" and "name \<noteq> ''post_currencies''"
    and "name = ''get_exchange'' \<longrightarrow> GetQuery L rq \<noteq> None" and "\<forall>db \<in> D. rates_readable L db"
    and "bimap_laws L" and "takes_body rs"
  shows "answers_once D rs (HttpHandlerBase_Process (service_handler L cc rc name) (ExceptionsHandlerImpl L)
    (Some rq) (Some rs))"
proof -
  consider (get) "name \<in> {''get_currencies'', ''get_currency'', ''get_exchange_rates'', ''get_exchange_rate''}"
    | (exchange) "name = ''get_exchange''" | (writer) "name \<in> {''post_exchange_rates'', ''patch_exchange_rate''}"
    using service_route_names [OF assms(1)] assms(2) by argo
  then show ?thesis
  proof cases
    case get
    then have "service_handler L cc rc name \<in>
        {get_currencies L cc, get_currency L cc, get_exchange_rates L rc, get_exchange_rate L cc rc}"
      by (auto simp: service_handler_eqs)
    from get_handlers_ok [OF assms(5,6) disjI1 [OF this]] show ?thesis by (metis answers_once.simps(1))
  next
    case exchange
    with assms(3) have "service_handler L cc rc name = exchange_HandleRequest L cc rc \<and> GetQuery L rq \<noteq> None"
      by (simp add: service_handler_eqs)
    from get_handlers_ok [OF assms(5,6) disjI2 [OF this]] show ?thesis by (metis answers_once.simps(1))
  next
    case writer
    then have "service_handler L cc rc name = post_exchange_rates_HandleRequest L cc \<or>
        service_handler L cc rc name = patch_exchange_rate_HandleRequest L cc"
      by (auto simp: service_handler_eqs)
    with assms(4-6) show ?thesis by (auto intro: rate_writers_once)
  qed
qed

text \<open>
  The requests the service is made for: the target parses, its path has segments and none is
  a dot segment, it is not \<open>POST /currencies\<close> (which may answer twice), and the query of a
  \<open>GET /exchange\<close> parses.
\<close>

definition good_request :: "'d lib \<Rightarrow> beast_request \<Rightarrow> bool" where
  "good_request L b =
     (case MakeHttpRequest L b of
        Inl e \<Rightarrow> False
      | Inr rq \<Rightarrow>
          (case lib_parse_path L (GetPath rq) of
             None \<Rightarrow> False
           | Some segs \<Rightarrow>
               segs \<noteq> [] \<and> no_dots L segs \<and>
               (case service_route L (GetMethod L rq) segs of
                  None \<Rightarrow> True
                | Some (name, bs) \<Rightarrow>
                    name \<noteq> ''post_currencies'' \<and> (name = ''get_exchange'' \<longrightarrow> GetQuery L rq \<noteq> None))))"

lemma good_requestD:
  assumes "good_request L b"
  shows "\<exists>rq segs. MakeHttpRequest L b = Inr rq \<and> lib_parse_path L (GetPath rq) = Some segs \<and> segs \<noteq> [] \<and>
    no_dots L segs \<and>
    (\<forall>name bs. service_route L (GetMethod L rq) segs = Some (name, bs) \<longrightarrow>
      name \<noteq> ''post_currencies'' \<and> (name = ''get_exchange'' \<longrightarrow> GetQuery L rq \<noteq> None))"
proof -
  from assms obtain rq where rq: "MakeHttpRequest L b = Inr rq"
    by (cases "MakeHttpRequest L b") (simp_all add: good_request_def)
  with assms obtain segs where segs: "lib_parse_path L (GetPath rq) = Some segs"
    by (cases "lib_parse_path L (GetPath rq)") (simp_all add: good_request_def)
  have body: "segs \<noteq> [] \<and> no_dots L segs \<and>
      (case service_route L (GetMethod L rq) segs of
         None \<Rightarrow> True
       | Some (name, bs) \<Rightarrow> name \<noteq> ''post_currencies'' \<and> (name = ''get_exchange'' \<longrightarrow> GetQuery L rq \<noteq> None))"
    using assms rq segs by (simp add: good_request_def)
  have "name \<noteq> ''post_currencies'' \<and> (name = ''get_exchange'' \<longrightarrow> GetQuery L rq \<noteq> None)"
    if "service_route L (GetMethod L rq) segs = Some (name, bs)" for name bs
    using body that by simp
  with rq segs body show ?thesis by blast
qed

lemma can_start_bimap: "can_start L n orders env cfg cc rc \<Longrightarrow> bimap_laws L"
  by (simp add: can_start_def)

lemma started_answers_once:
  assumes "service_started L env cfg cc rc sv" and "good_request L b" and "\<forall>db \<in> D. rates_readable L db"
    and "bimap_laws L"
  shows "\<exists>f. RequestHandler L (sv_context sv) b = ret f \<and> one_call D f"
proof -
  from good_requestD [OF assms(2)] obtain rq segs where
    rq: "MakeHttpRequest L b = Inr rq" "lib_parse_path L (GetPath rq) = Some segs" "segs \<noteq> []" "no_dots L segs"
    and good: "\<And>name bs. service_route L (GetMethod L rq) segs = Some (name, bs) \<Longrightarrow>
      name \<noteq> ''post_currencies'' \<and> (name = ''get_exchange'' \<longrightarrow> GetQuery L rq \<noteq> None)" by blast
  note run = request_reaches_handler [OF assms(1) rq]
  show ?thesis
  proof (cases "service_route L (GetMethod L rq) segs")
    case None
    have "answers_once D (fresh_response L rq)
        (answered (Send L [] (SetStatusCode L kInternalServerError (fresh_response L rq))))"
      using assms(4) by (intro answers_once_answered) simp
    from answers_once_one_call [OF this calls_fresh_response] run None show ?thesis by auto
  next
    case (Some r)
    obtain name bs where r: "r = (name, bs)" by (cases r)
    have "answers_once D (fresh_response L rq) (HttpHandlerBase_Process (service_handler L cc rc name)
        (ExceptionsHandlerImpl L) (Some (SetMatchResult rq bs)) (Some (fresh_response L rq)))"
      using good [OF Some [unfolded r]] by (intro service_handler_once [OF Some [unfolded r]]) (simp_all add: assms(3,4))
    from answers_once_one_call [OF this calls_fresh_response] run Some r show ?thesis by auto
  qed
qed

text \<open>
  C3: the built server answers a good request with exactly one message, whatever the
  databases of \<open>D\<close> reply, whether a handler takes it or none does.
\<close>

theorem service_answers_once:
  assumes "can_start L n orders env cfg cc rc" and "good_request L b" and "\<forall>db \<in> D. rates_readable L db"
  shows "\<exists>sv f. ServerBuilder_Build L n orders env (service_builder L cfg) = Up sv \<and>
    RequestHandler L (sv_context sv) b = ret f \<and> one_call D f"
  using server_builds [OF assms(1)] started_answers_once [OF _ assms(2,3) can_start_bimap [OF assms(1)]] by blast

text \<open>A change of a pair, on the service of \<open>configs/config.yaml\<close>.\<close>

theorem service_answers_once_witness:
  "\<exists>cfg sv f. ParseConfig ref_lib service_yaml = Inr cfg \<and>
    ServerBuilder_Build ref_lib 3 sample_orders sample_environment (service_builder ref_lib cfg) = Up sv \<and>
    RequestHandler ref_lib (sv_context sv)
      \<lparr>bq_method = verb_patch, bq_target = ''/exchangerate/USDEUR'', bq_version = 11, bq_keep_alive = True,
       bq_body = ''rate=2''\<rparr> = ret f \<and> one_call {sample_db} f"
proof -
  let ?b = "\<lparr>bq_method = verb_patch, bq_target = ''/exchangerate/USDEUR'', bq_version = 11, bq_keep_alive = True,
       bq_body = ''rate=2''\<rparr>"
  from sample_can_start obtain cfg cc rc where
    start: "ParseConfig ref_lib service_yaml = Inr cfg" "can_start ref_lib 3 sample_orders sample_environment cfg cc rc"
    by blast
  have request: "good_request ref_lib ?b" by code_simp
  have "\<forall>db \<in> {sample_db}. rates_readable ref_lib db" by (simp add: rates_readable_def sample_db_def)
  from service_answers_once [OF start(2) request this] start(1) show ?thesis by blast
qed

section \<open>Sessions of the service\<close>

text \<open>What a session runs for a request: an exception or undefined behaviour leaves it.\<close>

definition session_flow :: "'d lib \<Rightarrow> server_context \<Rightarrow> beast_request \<Rightarrow> flow" where
  "session_flow L server_context b =
     (case RequestHandler L server_context b of
        None \<Rightarrow> Raised Undefined None
      | Some (Inl e) \<Rightarrow> Raised e None
      | Some (Inr f) \<Rightarrow> f)"

text \<open>
  The good requests that are answered by one call; for a started service these are all of
  them.  A session with such a client meets the contract of \<open>answering\<close>.
\<close>

definition served :: "'d lib \<Rightarrow> server_context \<Rightarrow> pg_server set \<Rightarrow> beast_request set" where
  "served L server_context D = {b. good_request L b \<and> one_call D (session_flow L server_context b)}"

interpretation service_sessions: answering L "session_flow L server_context" "served L server_context D" D
  for L server_context D
  by unfold_locales (simp add: served_def)

lemma started_served:
  assumes "service_started L env cfg cc rc sv" and "\<forall>db \<in> D. rates_readable L db" and "bimap_laws L"
  shows "served L (sv_context sv) D = {b. good_request L b}"
proof -
  have "one_call D (session_flow L (sv_context sv) b)" if "good_request L b" for b
  proof -
    from started_answers_once [OF assms(1) that assms(2,3)] obtain f where
      "RequestHandler L (sv_context sv) b = ret f" "one_call D f" by auto
    then show ?thesis by (simp add: session_flow_def ret_def)
  qed
  then show ?thesis by (auto simp: served_def)
qed

text \<open>
  C4: a connection of the built server whose client sends good requests, in any number and
  with any replies of the database, is served one thing at a time: at most one read, write
  or waiting handler, every request answered but the one whose handler waits, and something
  can always happen next until the connection is closed or fails.
\<close>

theorem service_session_is_serial:
  assumes "can_start L n orders env cfg cc rc" and "\<forall>db \<in> D. rates_readable L db"
  shows "\<exists>sv. ServerBuilder_Build L n orders env (service_builder L cfg) = Up sv \<and>
    (\<forall>s. (session_step L (session_flow L (sv_context sv)) {b. good_request L b} D)\<^sup>*\<^sup>* (session_Run HttpSession) s \<longrightarrow>
       ss_dispatched s + ss_reads s + length (ss_writes s) + length (ss_flows s) \<le> 1 \<and>
       ss_received s = length (ss_calls s) + length (ss_flows s) \<and>
       (ss_closed s \<or> ss_failed s \<or> D = {} \<or>
          (\<exists>s'. session_step L (session_flow L (sv_context sv)) {b. good_request L b} D s s')))"
proof -
  from server_builds [OF assms(1)] obtain sv where
    sv: "ServerBuilder_Build L n orders env (service_builder L cfg) = Up sv" "service_started L env cfg cc rc sv" by blast
  note serial = service_sessions.session_serial [of L "sv_context sv" D, unfolded started_served [OF sv(2) assms(2) can_start_bimap [OF assms(1)]]]
  show ?thesis
    by (intro exI [of _ sv], intro conjI [OF sv(1)] allI impI) (rule serial)
qed

theorem service_session_is_serial_witness:
  "\<exists>cfg sv. ParseConfig ref_lib service_yaml = Inr cfg \<and>
    ServerBuilder_Build ref_lib 3 sample_orders sample_environment (service_builder ref_lib cfg) = Up sv \<and>
    (\<exists>s'. session_step ref_lib (session_flow ref_lib (sv_context sv)) {b. good_request ref_lib b} {sample_db}
       (session_Run HttpSession) s')"
proof -
  from sample_can_start obtain cfg cc rc where
    start: "ParseConfig ref_lib service_yaml = Inr cfg" "can_start ref_lib 3 sample_orders sample_environment cfg cc rc"
    by blast
  have "\<forall>db \<in> {sample_db}. rates_readable ref_lib db" by (simp add: rates_readable_def sample_db_def)
  from service_session_is_serial [OF start(2) this] show ?thesis
  proof (elim exE conjE)
    fix sv :: "service_object server"
    let ?step = "session_step ref_lib (session_flow ref_lib (sv_context sv)) {b. good_request ref_lib b} {sample_db}"
    assume sv: "ServerBuilder_Build ref_lib 3 sample_orders sample_environment (service_builder ref_lib cfg) = Up sv"
      and "\<forall>s. ?step\<^sup>*\<^sup>* (session_Run HttpSession) s \<longrightarrow>
         ss_dispatched s + ss_reads s + length (ss_writes s) + length (ss_flows s) \<le> 1 \<and>
         ss_received s = length (ss_calls s) + length (ss_flows s) \<and>
         (ss_closed s \<or> ss_failed s \<or> {sample_db} = {} \<or> (\<exists>s'. ?step s s'))"
    then have "ss_closed (session_Run HttpSession) \<or> ss_failed (session_Run HttpSession) \<or> {sample_db} = {} \<or>
        (\<exists>s'. ?step (session_Run HttpSession) s')" by blast
    then have "\<exists>s'. ?step (session_Run HttpSession) s'"
      unfolding session_Run_def HttpSession_def by simp
    with start(1) sv show ?thesis by blast
  qed
qed

end
