(* ===== verification/Program.thy ===== *)
theory Program
  imports Service_Requests Logger
begin

text \<open>
  \<open>engine/src/utils/command_line_options.cpp\<close> and \<open>engine/src/utils/main.cpp\<close>: the program from its command
  line to the running server, or to its exit status.
\<close>

section \<open>The command line\<close>

text \<open>
  \<open>boost::program_options\<close> is a parameter: for the two declared options it gives the values
  of those that are there (\<open>help\<close> has none), or throws.  \<open>notify\<close> throws if the required
  option is missing.
\<close>

type_synonym options_parser = "string list \<Rightarrow> (string, string) kv option"

definition options_error :: "'a res" where
  "options_error = throw_exn (StdException ''program_options'')"

record command_line_options =
  clo_path :: string

definition CommandLineOptionsImpl :: "string \<Rightarrow> command_line_options" where
  "CommandLineOptionsImpl p = \<lparr>clo_path = p\<rparr>"

definition GetConfigPath :: "command_line_options \<Rightarrow> string" where
  "GetConfigPath options = clo_path options"

definition ParseCommandLine :: "options_parser \<Rightarrow> string list \<Rightarrow> command_line_options option res" where
  "ParseCommandLine parse argv =
     (case parse argv of
        None \<Rightarrow> options_error
      | Some vm \<Rightarrow>
          if kv_contains (=) ''help'' vm then Inr None
          else (case map_find ''config'' vm of
                  None \<Rightarrow> options_error
                | Some p \<Rightarrow> Inr (Some (CommandLineOptionsImpl p))))"

section \<open>The program\<close>

text \<open>
  A program that serves holds its logger, its server, the listener and what it has done; it
  ends with status 0 when its event loops have stopped.  An exception within \<open>Run\<close> ends it
  with status 1; one that leaves a thread, or undefined behaviour, does not.
\<close>

datatype outcome =
    Serves logger "service_object server" listener "service_object server_action list"
  | Exits nat
  | Aborts
  | Crashes

record system =
  sy_parse_options :: options_parser
  sy_load_file :: "string \<Rightarrow> yaml option"
  sy_network :: network
  sy_environment :: environment
  sy_orders :: orders

definition status_of_fault :: "fault \<Rightarrow> outcome" where
  "status_of_fault e = (case e of Throws ex \<Rightarrow> Exits 1 | Undefined \<Rightarrow> Crashes)"

definition load_config :: "'d lib \<Rightarrow> system \<Rightarrow> string \<Rightarrow> config res" where
  "load_config L sys config_path =
     (if config_path = [] then Inr Config_default
      else case sy_load_file sys config_path of
             None \<Rightarrow> yaml_error
           | Some y \<Rightarrow> ParseConfig L y)"

definition Main_Run :: "'d lib \<Rightarrow> nat \<Rightarrow> system \<Rightarrow> main_program \<Rightarrow> outcome" where
  "Main_Run L n sys m =
     (case ParseCommandLine (sy_parse_options sys) (mn_argv m) of
        Inl e \<Rightarrow> status_of_fault e
      | Inr None \<Rightarrow> Exits 1
      | Inr (Some options) \<Rightarrow>
          (case load_config L sys (GetConfigPath options) of
             Inl e \<Rightarrow> status_of_fault e
           | Inr config \<Rightarrow>
               let lg = MakeLogger (general_log_path (cfg_general config)) (general_log_level (cfg_general config))
               in (case ServerBuilder_Build L n (sy_orders sys) (sy_environment sys)
                          (SetConfig config (mn_server_builder m)) of
                     Overflows \<Rightarrow> Crashes
                   | Terminates \<Rightarrow> Aborts
                   | Fails e \<Rightarrow> status_of_fault e
                   | Up sv \<Rightarrow>
                       (case ServerImpl_Run (sy_network sys) (or_components (sy_orders sys)) sv of
                          Inl e \<Rightarrow> status_of_fault e
                        | Inr (l, actions) \<Rightarrow> Serves lg sv l actions))))"

lemma service_main_build: "SetConfig cfg (mn_server_builder (service_main L argv)) = service_builder L cfg"
  by (simp add: SetConfig_def service_builder_eq service_main_builder)

section \<open>The program serves\<close>

lemma filter_one_entry:
  assumes "distinct (map fst xs)" and "(k, v) \<in> set xs" and "\<And>a b. (a, b) \<in> set xs \<Longrightarrow> P b \<longleftrightarrow> a = k"
  shows "filter P (map snd xs) = [v]"
  using assms
proof (induction xs)
  case (Cons x xs)
  obtain a b where x: "x = (a, b)" by (cases x)
  show ?case
  proof (cases "a = k")
    case True
    with Cons.prems x have "b = v" by force
    moreover have "filter P (map snd xs) = []"
      using Cons.prems x True by (force simp: filter_empty_conv)
    ultimately show ?thesis using Cons.prems(3) [of a b] x True by simp
  next
    case False
    with Cons x show ?thesis by auto
  qed
qed simp

text \<open>The service has one event loop.\<close>

lemma service_event_loop:
  assumes "service_present s" and "iteration_order ord"
  shows "\<exists>io. filter (casts_to ''IOContextBase'') (map snd (ord (cs_components s))) = [io]"
proof -
  have "''server_io_context'' \<in> set (map fst (cs_components s))"
    by (simp only: service_presentD(2) [OF assms(1)] insert_iff simp_thms)
  then obtain io where io: "(''server_io_context'', io) \<in> set (cs_components s)"
    by (auto simp only: set_map image_iff fst_conv)
  have entries: "set (ord (cs_components s)) = set (cs_components s)" by (rule set_iteration_order [OF assms(2)])
  have "mset (map fst (ord (cs_components s))) = mset (map fst (cs_components s))"
    using assms(2) by (simp add: iteration_order_def)
  from mset_eq_imp_distinct_iff [OF this] service_presentD(1) [OF assms(1)]
  have dist: "distinct (map fst (ord (cs_components s)))" by blast
  have "casts_to ''IOContextBase'' c \<longleftrightarrow> name = ''server_io_context''" if "(name, c) \<in> set (cs_components s)" for name c
    using service_presentD(3) [OF assms(1) that] by (auto simp: casts_to_def service_types_def)
  then have "filter (casts_to ''IOContextBase'') (map snd (ord (cs_components s))) = [io]"
    by (intro filter_one_entry [OF dist, of "''server_io_context''"]) (simp_all only: entries io)
  then show ?thesis by blast
qed

text \<open>The program is given a file, and the file is there and parses.\<close>

definition configured :: "'d lib \<Rightarrow> system \<Rightarrow> string list \<Rightarrow> config \<Rightarrow> bool" where
  "configured L sys argv cfg \<longleftrightarrow>
     (case sy_parse_options sys argv of
        None \<Rightarrow> False
      | Some vm \<Rightarrow> \<not> kv_contains (=) ''help'' vm \<and>
          (case map_find ''config'' vm of
             None \<Rightarrow> False
           | Some path \<Rightarrow> path \<noteq> [] \<and>
               (case sy_load_file sys path of None \<Rightarrow> False | Some y \<Rightarrow> ParseConfig L y = Inr cfg)))"

lemma configured_loads:
  assumes "configured L sys argv cfg"
  obtains options where "ParseCommandLine (sy_parse_options sys) argv = Inr (Some options)"
    "load_config L sys (GetConfigPath options) = Inr cfg"
  using assms that by (auto simp: configured_def ParseCommandLine_def load_config_def GetConfigPath_def
      CommandLineOptionsImpl_def split: option.splits)

text \<open>
  C19: with a configuration file that parses, settings the constructors take (a number of
  threads of 0 is one of them), an initial load that succeeds
  and an address the system lets it listen on, the program serves: it has set its logger,
  listens on its address and port, has one accept pending, runs its one event loop and waits
  for it.
\<close>

theorem program_serves:
  assumes "configured L sys argv cfg"
    and "can_start L n (sy_orders sys) (sy_environment sys) cfg cc rc"
    and "can_listen (sy_network sys) (general_address (cfg_general cfg)) (server_port cfg)"
  shows "\<exists>sv l io. Main_Run L n sys (service_main L argv) =
      Serves (MakeLogger (general_log_path (cfg_general cfg)) (general_log_level (cfg_general cfg))) sv l
        [Listen (general_address (cfg_general cfg)) (server_port cfg), Run_io io, Join_io io] \<and>
    service_started L (sy_environment sys) cfg cc rc sv \<and> ln_accepts l = 1"
proof -
  from assms(1) obtain options where path: "ParseCommandLine (sy_parse_options sys) argv = Inr (Some options)"
    "load_config L sys (GetConfigPath options) = Inr cfg" by (rule configured_loads)
  from server_builds [OF assms(2)] obtain sv where
    sv: "ServerBuilder_Build L n (sy_orders sys) (sy_environment sys) (service_builder L cfg) = Up sv"
      "service_started L (sy_environment sys) cfg cc rc sv" by blast
  have present: "service_present (sv_components sv)" and config: "GetConfig (sv_context sv) = cfg"
    using sv(2) service_loaded_data(3) unfolding service_started_def by blast+
  have "iteration_order (or_components (sy_orders sys))"
    using assms(2) unfolding can_start_def orders_ok_def by blast
  from service_event_loop [OF present this] obtain io where
    io: "filter (casts_to ''IOContextBase'')
      (map snd (or_components (sy_orders sys) (cs_components (sv_components sv)))) = [io]" by blast
  have "MakeListener (sy_network sys) (general_address (cfg_general cfg)) (server_port cfg) =
      Inr \<lparr>ln_accepts = 0, ln_sessions = [], ln_log = []\<rparr>" using assms(3) by (rule MakeListener_can_listen)
  then have "ServerImpl_Run (sy_network sys) (or_components (sy_orders sys)) sv =
      Inr (Listener_Run \<lparr>ln_accepts = 0, ln_sessions = [], ln_log = []\<rparr>,
        [Listen (general_address (cfg_general cfg)) (server_port cfg), Run_io io, Join_io io])"
    using assms(3) by (simp add: ServerImpl_Run_def Let_def can_listen_def config for_io_contexts_eq io)
  with path sv show ?thesis by (simp add: Main_Run_def Let_def service_main_argv service_main_build Listener_Run_def DoAccept_def)
qed

text \<open>A system on which \<open>--config=...\<close> names the file \<open>configs/config.yaml\<close>.\<close>

definition sample_system :: "environment \<Rightarrow> system" where
  "sample_system env =
     \<lparr>sy_parse_options = (\<lambda>argv. case argv of [p] \<Rightarrow> Some [] | [p, a] \<Rightarrow> Some [(''config'', a)] | _ \<Rightarrow> None),
      sy_load_file = (\<lambda>path. if path = ''config.yaml'' then Some service_yaml else None),
      sy_network = open_network,
      sy_environment = env, sy_orders = sample_orders\<rparr>"

lemma sample_configured:
  "ParseConfig ref_lib service_yaml = Inr cfg \<Longrightarrow> configured ref_lib (sample_system env) [''service'', ''config.yaml''] cfg"
  by (simp add: configured_def sample_system_def kv_contains_def)

theorem program_serves_witness:
  "\<exists>cfg lg sv l io. ParseConfig ref_lib service_yaml = Inr cfg \<and>
    Main_Run ref_lib 3 (sample_system sample_environment) (service_main ref_lib [''service'', ''config.yaml'']) =
      Serves lg sv l [Listen (general_address (cfg_general cfg)) (server_port cfg), Run_io io, Join_io io]"
proof -
  from sample_can_start obtain cfg cc rc where
    start: "ParseConfig ref_lib service_yaml = Inr cfg" "can_start ref_lib 3 sample_orders sample_environment cfg cc rc"
    by blast
  have "sy_orders (sample_system sample_environment) = sample_orders"
    "sy_environment (sample_system sample_environment) = sample_environment"
    "can_listen (sy_network (sample_system sample_environment)) (general_address (cfg_general cfg)) (server_port cfg)"
    by (simp_all add: sample_system_def)
  with program_serves [OF sample_configured [OF start(1)], of 3 sample_environment cc rc] start show ?thesis by metis
qed

section \<open>The program does not start\<close>

text \<open>
  C37: if the database answers the initial statement of the currencies with an error, the
  program is terminated: the handler's exception leaves a thread of the pool, and the
  handlers around \<open>Run\<close>, which turn exceptions into status 1, do not see it.
\<close>

theorem failed_load_aborts:
  assumes "configured L sys argv cfg" and "valid_service L (cfg_components cfg)"
    and "iteration_order (or_factory (sy_orders sys))" and "3 \<le> n"
    and "fst (ev_currencies (sy_environment sys) (kFullUpdateCurrenciesCache, [])) = Some ec"
  shows "Main_Run L n sys (service_main L argv) = Aborts"
proof -
  let ?load = "load_component L (sy_orders sys) (sy_environment sys)"
  from assms(1) obtain options where path: "ParseCommandLine (sy_parse_options sys) argv = Inr (Some options)"
    "load_config L sys (GetConfigPath options) = Inr cfg" by (rule configured_loads)
  from service_made_ready [OF assms(2-4)] obtain s where
    s: "make_all_components L n (or_factory (sy_orders sys)) (cfg_components cfg) (service_factory L) = Some (Inr s)"
      "service_ready s" by blast
  from s(2) obtain cc_cfg ct where ct: "map_find ''currencies_cache'' (cs_components s) = Some ct"
    "casts_to ''PgCacheBase'' ct"
    "cp_object ct = Currencies_object (PgCache cc_cfg kUpdateCurrenciesCache kFullUpdateCurrenciesCache CurrenciesCache)"
    by (rule service_ready_caches) blast
  obtain rows where "ev_currencies (sy_environment sys) (kFullUpdateCurrenciesCache, []) = (Some ec, rows)"
    using assms(5) by (metis prod.collapse)
  then have "snd (?load cc ct) \<noteq> Inr ()" for cc
    using ct(2,3) by (simp add: load_component_def load_object_def init_currencies_def DoInitQuery_def make_query_def
        OnInitQueryCompletion_def)
  moreover have "(''currencies_cache'', ct) \<in> set (cs_components s)"
    using ct(1) by (auto simp: map_find_eq_map_of dest: map_of_SomeD)
  ultimately have "\<not> list_all (\<lambda>(name, c). snd (?load cc c) = Inr ()) (cs_components s)" for cc
    by (auto simp: list_all_iff)
  then have "load_caches L (sy_orders sys) (sy_environment sys) s = Terminates"
    by (simp add: load_caches_def Let_def)
  with path s(1) show ?thesis
    by (simp add: Main_Run_def Let_def service_main_argv service_main_build service_builder_eq
        ServerBuilder_Build_def MakeComponents_def start_of_run_def start_of_def)
qed

theorem failed_load_aborts_witness:
  "Main_Run ref_lib 3 (sample_system (sample_environment\<lparr>ev_currencies := \<lambda>q. (Some OtherPgError, [])\<rparr>))
    (service_main ref_lib [''service'', ''config.yaml'']) = Aborts"
proof -
  let ?sys = "sample_system (sample_environment\<lparr>ev_currencies := \<lambda>q. (Some OtherPgError, [])\<rparr>)"
  obtain cfg where cfg: "ParseConfig ref_lib service_yaml = Inr cfg" "valid_service ref_lib (cfg_components cfg)"
    using service_yaml_parses by blast
  have "iteration_order (or_factory (sy_orders ?sys))" by (simp add: sample_system_def sample_orders_def)
  moreover have "fst (ev_currencies (sy_environment ?sys) (kFullUpdateCurrenciesCache, [])) = Some OtherPgError"
    by (simp add: sample_system_def)
  ultimately show ?thesis
    using failed_load_aborts [OF sample_configured [OF cfg(1)] cfg(2)] by blast
qed

end
