(* ===== verification/Cache_Readers.thy ===== *)
theory Cache_Readers
  imports Exchange_Rates_Cache
begin

text \<open>
  What a reader sees of a cache while \<open>UpdateCache\<close> runs (\<open>src/src/caches\<close>).  Updates run one
  after the other on a strand, but the handlers read on the threads of the server.  An update
  is a sequence of writes, each atomic: \<open>insert_or_assign\<close> of a concurrent \<open>cuckoohash_map\<close>,
  which locks the buckets of the key, or \<open>exchange\<close> of an atomic pointer; the plain map is
  only used on the strand.  A reader may come between any two writes.  (A full update assigns
  whole concurrent maps, which \<open>libcuckoo\<close> does not make atomic, so it is not staged here.)
\<close>

section \<open>Updates in stages\<close>

text \<open>The cache, the writes that are left of the running update, and the updates begun so far.\<close>

record ('b, 'w, 'c) staged =
  sg_cache :: 'c
  sg_writes :: "'w list"
  sg_begun :: "'b list"

inductive staged_step ::
  "('w \<Rightarrow> 'c \<Rightarrow> 'c) \<Rightarrow> ('b \<Rightarrow> 'w list) \<Rightarrow> ('b, 'w, 'c) staged \<Rightarrow> ('b, 'w, 'c) staged \<Rightarrow> bool"
  for perform :: "'w \<Rightarrow> 'c \<Rightarrow> 'c" and writes_of :: "'b \<Rightarrow> 'w list"
where
  Begin: "sg_writes s = [] \<Longrightarrow>
    staged_step perform writes_of s (s\<lparr>sg_writes := writes_of b, sg_begun := sg_begun s @ [b]\<rparr>)"
| Write: "sg_writes s = w # ws \<Longrightarrow>
    staged_step perform writes_of s (s\<lparr>sg_cache := perform w (sg_cache s), sg_writes := ws\<rparr>)"

inductive_cases staged_stepE: "staged_step perform writes_of s t"

definition staged_start :: "'c \<Rightarrow> ('b, 'w, 'c) staged" where
  "staged_start c = \<lparr>sg_cache = c, sg_writes = [], sg_begun = []\<rparr>"

text \<open>
  Performing all the writes of an update is the update.  Then a reader always sees the
  cache after the complete updates but the last, and a first part of the writes of the last.
\<close>

locale staged_update =
  fixes perform :: "'w \<Rightarrow> 'c \<Rightarrow> 'c" and writes_of :: "'b \<Rightarrow> 'w list" and update :: "'b \<Rightarrow> 'c \<Rightarrow> 'c"
  assumes writes_update: "fold perform (writes_of b) c = update b c"
begin

definition between :: "'c \<Rightarrow> ('b, 'w, 'c) staged \<Rightarrow> bool" where
  "between c s \<longleftrightarrow>
     (sg_begun s = [] \<and> sg_cache s = c \<and> sg_writes s = []) \<or>
     (\<exists>bs b k. sg_begun s = bs @ [b] \<and> k \<le> length (writes_of b) \<and> sg_writes s = drop k (writes_of b) \<and>
        sg_cache s = fold perform (take k (writes_of b)) (fold update bs c))"

lemma between_complete: "between c s \<Longrightarrow> sg_writes s = [] \<Longrightarrow> sg_cache s = fold update (sg_begun s) c"
  by (auto simp: between_def writes_update)

lemma between_begin:
  assumes "between c s" and "sg_writes s = []"
  shows "between c (s\<lparr>sg_writes := writes_of b, sg_begun := sg_begun s @ [b]\<rparr>)"
  using between_complete [OF assms] by (auto simp: between_def intro!: exI [of _ "0 :: nat"])

lemma between_write:
  assumes "between c s" and "sg_writes s = w # ws"
  shows "between c (s\<lparr>sg_cache := perform w (sg_cache s), sg_writes := ws\<rparr>)"
proof -
  obtain bs b k where begun: "sg_begun s = bs @ [b]" and rest: "drop k (writes_of b) = w # ws"
    and cache: "sg_cache s = fold perform (take k (writes_of b)) (fold update bs c)"
    using assms by (auto simp: between_def)
  have k: "k < length (writes_of b)" using rest by (metis drop_eq_Nil leI list.discI)
  then have "writes_of b ! k = w" "drop (Suc k) (writes_of b) = ws"
    using rest Cons_nth_drop_Suc [OF k] by auto
  with k begun cache show ?thesis
    by (auto simp: between_def take_Suc_conv_app_nth intro!: exI [of _ "Suc k"])
qed

lemma reachable_between:
  assumes "(staged_step perform writes_of)\<^sup>*\<^sup>* (staged_start c) s"
  shows "between c s"
  using assms
proof (induction rule: rtranclp_induct)
  case base
  show ?case by (simp add: between_def staged_start_def)
next
  case (step s t)
  from step.hyps(2) step.IH show ?case
    by (auto elim!: staged_stepE simp: between_begin between_write)
qed

text \<open>What the strand of updates reaches, with or without the last, unfinished one.\<close>

lemma reachable_cases:
  assumes "(staged_step perform writes_of)\<^sup>*\<^sup>* (staged_start c) s"
  obtains "sg_begun s = []" and "sg_cache s = c" and "sg_writes s = []"
  | bs b k where "sg_begun s = bs @ [b]" and "k \<le> length (writes_of b)"
      and "sg_writes s = drop k (writes_of b)"
      and "sg_cache s = fold perform (take k (writes_of b)) (fold update bs c)"
  using reachable_between [OF assms] by (auto simp: between_def)

end

section \<open>The cache of currencies\<close>

datatype currency_write =
    Put_by_id currency
  | Put_by_code currency
  | Put_std_map currency
  | Exchange_json

primrec write_currency :: "'d lib \<Rightarrow> currency_order \<Rightarrow> currency_write \<Rightarrow> currencies_cache \<Rightarrow> currencies_cache" where
  "write_currency L ord (Put_by_id r) c =
     c\<lparr>currency_by_id := kv_insert_or_assign (=) (currency_id r) (make_currency_entry r) (currency_by_id c)\<rparr>"
| "write_currency L ord (Put_by_code r) c =
     c\<lparr>currency_by_code := kv_insert_or_assign (IEqualTo L) (code r) (make_currency_entry r) (currency_by_code c)\<rparr>"
| "write_currency L ord (Put_std_map r) c =
     c\<lparr>currency_by_id_std_map :=
       kv_insert_or_assign (=) (currency_id r) (make_currency_entry r) (currency_by_id_std_map c)\<rparr>"
| "write_currency L ord Exchange_json c = c\<lparr>all_currencies_json := AllCurrenciesToJson L ord c\<rparr>"

definition row_writes :: "currency list \<Rightarrow> currency_write list" where
  "row_writes rows = concat (map (\<lambda>r. [Put_by_id r, Put_by_code r, Put_std_map r]) rows)"

definition currencies_writes :: "currency list \<Rightarrow> currency_write list" where
  "currencies_writes rows = (if rows = [] then [] else row_writes rows @ [Exchange_json])"

lemma row_writes_simps [simp]:
  "row_writes [] = []"
  "row_writes (r # rows) = Put_by_id r # Put_by_code r # Put_std_map r # row_writes rows"
  by (simp_all add: row_writes_def)

lemma length_row_writes [simp]: "length (row_writes rows) = 3 * length rows"
  by (induction rows) simp_all

lemma write_row:
  "write_currency L ord (Put_std_map r) (write_currency L ord (Put_by_code r) (write_currency L ord (Put_by_id r) c)) =
     update_currency L r c"
  by (simp add: update_currency_def Let_def)

lemma fold_row_writes: "fold (write_currency L ord) (row_writes rows) c = fold (update_currency L) rows c"
  by (induction rows arbitrary: c) (simp_all add: write_row del: write_currency.simps)

interpretation currencies_staged: staged_update
  "write_currency L ord" currencies_writes "CurrenciesCache_UpdateCache L ord"
  for L ord
  by unfold_locales
    (auto simp: currencies_writes_def fold_row_writes CurrenciesCache_UpdateCache_def Let_def)

text \<open>The maps do not depend on the text, and a part of an update is an update with fewer rows.\<close>

lemma fold_update_json:
  "fold (update_currency L) rows (c\<lparr>all_currencies_json := j\<rparr>) =
     (fold (update_currency L) rows c)\<lparr>all_currencies_json := j\<rparr>"
proof (induction rows arbitrary: c)
  case (Cons r rows)
  have "update_currency L r (c\<lparr>all_currencies_json := j\<rparr>) = (update_currency L r c)\<lparr>all_currencies_json := j\<rparr>"
    by (simp add: update_currency_def Let_def)
  then show ?case by (simp add: Cons.IH)
qed simp

lemma update_is_rows:
  "\<exists>j. CurrenciesCache_UpdateCache L ord rows c = (fold (update_currency L) rows c)\<lparr>all_currencies_json := j\<rparr>"
proof (cases "rows = []")
  case True
  then show ?thesis
    by (auto simp: CurrenciesCache_UpdateCache_def intro!: exI [of _ "all_currencies_json c"])
qed (auto simp: CurrenciesCache_UpdateCache_def Let_def)

lemma updates_are_rows:
  "\<exists>j. fold (CurrenciesCache_UpdateCache L ord) bs c =
     (fold (update_currency L) (concat bs) c)\<lparr>all_currencies_json := j\<rparr>"
proof (induction bs rule: rev_induct)
  case Nil
  show ?case by (auto intro!: exI [of _ "all_currencies_json c"])
next
  case (snoc b bs)
  then obtain j where "fold (CurrenciesCache_UpdateCache L ord) bs c =
      (fold (update_currency L) (concat bs) c)\<lparr>all_currencies_json := j\<rparr>" by blast
  then show ?case
    using update_is_rows [of L ord b "(fold (update_currency L) (concat bs) c)\<lparr>all_currencies_json := j\<rparr>"]
    by (auto simp: fold_update_json)
qed

lemma three_cases:
  obtains "k = 0" | "k = 1" | "k = 2" | i where "k = Suc (Suc (Suc i))"
proof (cases k)
  case (Suc m)
  then show ?thesis
  proof (cases m)
    case (Suc l)
    with \<open>k = Suc m\<close> show ?thesis by (cases l) (auto intro: that)
  qed (use that Suc in auto)
qed (use that in auto)

lemma row_writes_json: "all_currencies_json (fold (write_currency L ord) (take k (row_writes rows)) c) = all_currencies_json c"
proof (induction rows arbitrary: c k)
  case (Cons r rows)
  show ?case by (cases k rule: three_cases) (simp_all add: Cons.IH numeral_2_eq_2)
qed simp

lemma row_writes_part:
  "currency_by_id (fold (write_currency L ord) (take k (row_writes rows)) c) =
     currency_by_id (fold (update_currency L) (take ((k + 2) div 3) rows) c) \<and>
   currency_by_code (fold (write_currency L ord) (take k (row_writes rows)) c) =
     currency_by_code (fold (update_currency L) (take ((k + 1) div 3) rows) c)"
proof (induction rows arbitrary: c k)
  case (Cons r rows)
  show ?case
  proof (cases k rule: three_cases)
    case (4 i)
    then have "(k + 2) div 3 = Suc ((i + 2) div 3)" "(k + 1) div 3 = Suc ((i + 1) div 3)" by simp_all
    moreover have "fold (write_currency L ord) (take k (row_writes (r # rows))) c =
        fold (write_currency L ord) (take i (row_writes rows)) (update_currency L r c)"
      by (simp add: 4 write_row del: write_currency.simps)
    ultimately show ?thesis
      using Cons.IH [of i "update_currency L r c"] by simp
  qed (simp_all add: numeral_2_eq_2 update_currency_sel)
qed simp

lemma update_part:
  assumes "k \<le> length (currencies_writes rows)"
  obtains m n where "m \<le> n" and "n \<le> Suc m" and "n \<le> length rows"
    and "currency_by_id (fold (write_currency L ord) (take k (currencies_writes rows)) c) =
      currency_by_id (fold (update_currency L) (take n rows) c)"
    and "currency_by_code (fold (write_currency L ord) (take k (currencies_writes rows)) c) =
      currency_by_code (fold (update_currency L) (take m rows) c)"
    and "all_currencies_json (fold (write_currency L ord) (take k (currencies_writes rows)) c) \<in>
      {all_currencies_json c, all_currencies_json (CurrenciesCache_UpdateCache L ord rows c)}"
proof (cases "k \<le> 3 * length rows")
  case True
  then have "take k (currencies_writes rows) = take k (row_writes rows)"
    by (simp add: currencies_writes_def)
  then show ?thesis
    using row_writes_part [of L ord k rows c] True
    by (intro that [of "(k + 1) div 3" "(k + 2) div 3"]) (auto simp: row_writes_json)
next
  case False
  with assms have "take k (currencies_writes rows) = currencies_writes rows"
    by (auto simp: currencies_writes_def split: if_splits)
  then show ?thesis
    by (intro that [of "length rows" "length rows"])
      (simp_all add: currencies_staged.writes_update CurrenciesCache_UpdateCache_sel)
qed

text \<open>The maps of a cache some updates have begun on, as maps of the rows sent so far.\<close>

lemma reader_view:
  assumes "(staged_step (write_currency L ord) currencies_writes)\<^sup>*\<^sup>* (staged_start c) s"
  obtains m n where "m \<le> n" and "n \<le> Suc m" and "n \<le> length (concat (sg_begun s))"
    and "length (concat (butlast (sg_begun s))) \<le> m"
    and "currency_by_id (sg_cache s) = currency_by_id (fold (update_currency L) (take n (concat (sg_begun s))) c)"
    and "currency_by_code (sg_cache s) = currency_by_code (fold (update_currency L) (take m (concat (sg_begun s))) c)"
    and "\<exists>bs \<in> {butlast (sg_begun s), sg_begun s}.
      all_currencies_json (sg_cache s) = all_currencies_json (fold (CurrenciesCache_UpdateCache L ord) bs c)"
proof (cases rule: currencies_staged.reachable_cases [OF assms])
  case 1
  then show ?thesis by (intro that [of 0 0]) simp_all
next
  case (2 bs b k)
  let ?d = "fold (CurrenciesCache_UpdateCache L ord) bs c"
  obtain j where j: "?d = (fold (update_currency L) (concat bs) c)\<lparr>all_currencies_json := j\<rparr>"
    using updates_are_rows by blast
  from 2(2) show ?thesis
  proof (rule update_part [where L = L and ord = ord and c = ?d])
    fix m n
    assume mn: "m \<le> n" "n \<le> Suc m" "n \<le> length b"
      and id: "currency_by_id (fold (write_currency L ord) (take k (currencies_writes b)) ?d) =
        currency_by_id (fold (update_currency L) (take n b) ?d)"
      and cd: "currency_by_code (fold (write_currency L ord) (take k (currencies_writes b)) ?d) =
        currency_by_code (fold (update_currency L) (take m b) ?d)"
      and js: "all_currencies_json (fold (write_currency L ord) (take k (currencies_writes b)) ?d) \<in>
        {all_currencies_json ?d, all_currencies_json (CurrenciesCache_UpdateCache L ord b ?d)}"
    have take: "take (length (concat bs) + i) (concat (sg_begun s)) = concat bs @ take i b" for i
      using 2(1) by simp
    show ?thesis
    proof (rule that [of "length (concat bs) + m" "length (concat bs) + n"])
      show "currency_by_id (sg_cache s) =
          currency_by_id (fold (update_currency L) (take (length (concat bs) + n) (concat (sg_begun s))) c)"
        unfolding take 2(4) id by (simp add: j fold_update_json)
      show "currency_by_code (sg_cache s) =
          currency_by_code (fold (update_currency L) (take (length (concat bs) + m) (concat (sg_begun s))) c)"
        unfolding take 2(4) cd by (simp add: j fold_update_json)
      show "\<exists>bs \<in> {butlast (sg_begun s), sg_begun s}.
          all_currencies_json (sg_cache s) = all_currencies_json (fold (CurrenciesCache_UpdateCache L ord) bs c)"
        using js by (auto simp: 2(1,4))
    qed (use mn 2(1) in simp_all)
  qed
qed

lemma fold_update_by_code:
  assumes "string_algo_laws L"
  shows "kv_find (IEqualTo L) s (currency_by_code (fold (update_currency L) rows CurrenciesCache)) =
    map_option make_currency_entry (find (\<lambda>r. same_upper (code r) s) (rev rows))"
  using update_by_code [OF assms, of undefined rows CurrenciesCache s]
  by (auto simp: GetCurrencyByCode_def CurrenciesCache_UpdateCache_sel CurrenciesCache_def
      split: option.splits)

lemma fold_update_by_id:
  "map_option ce_model (map_find i (currency_by_id (fold (update_currency L) rows CurrenciesCache))) =
     fold upsert rows Map.empty i"
  using fun_cong [OF currency_table_update [of L undefined rows CurrenciesCache], of i]
  by (simp only: currency_table_def GetCurrencyById_def CurrenciesCache_UpdateCache_sel currency_table_init)

lemma dom_fold_upsert: "dom (fold upsert rows t) = dom t \<union> currency_id ` set rows"
  by (induction rows arbitrary: t) (auto simp: upsert_def)

text \<open>
  Whatever a reader finds while updates run meets the contract of a directory, so what the
  handlers rely on holds at every moment.
\<close>

definition shared_directory :: "'d lib \<times> currencies_cache \<Rightarrow> bool" where
  "shared_directory d \<longleftrightarrow> string_algo_laws (fst d) \<and>
     (\<exists>ord s. (staged_step (write_currency (fst d) ord) currencies_writes)\<^sup>*\<^sup>* (staged_start CurrenciesCache) s \<and>
       sg_cache s = snd d)"

lemma shared_parts:
  assumes "shared_directory d"
  obtains i j where "directory_good (fst d, i)" "directory_good (fst d, j)"
    and "currency_by_id (snd d) = currency_by_id i" and "currency_by_code (snd d) = currency_by_code j"
proof -
  obtain ord s where L: "string_algo_laws (fst d)"
    and reach: "(staged_step (write_currency (fst d) ord) currencies_writes)\<^sup>*\<^sup>* (staged_start CurrenciesCache) s"
    and s: "sg_cache s = snd d"
    using assms by (auto simp: shared_directory_def)
  have "currencies_core CurrenciesCache" by (simp add: currencies_core_def CurrenciesCache_def)
  then have "directory_good (fst d, fold (update_currency (fst d)) rows CurrenciesCache)" for rows
    using L by (simp add: directory_good_def currencies_core_fold)
  then show ?thesis
    using reader_view [OF reach] that by (metis s)
qed

interpretation shared_currencies: currency_directory shared_directory
  "\<lambda>d. GetCurrencyById (snd d)" "\<lambda>d. GetCurrencyByCode (fst d) (snd d)"
proof unfold_locales
  fix d :: "'d lib \<times> currencies_cache" and i e
  assume "shared_directory d" and "GetCurrencyById (snd d) i = Some e"
  then show "e = make_currency_entry (ce_model e) \<and> currency_id (ce_model e) = i"
    using currencies.find_id_entry [of "(fst d, _)" i e]
    by (elim shared_parts) (fastforce simp: GetCurrencyById_def)
next
  fix d :: "'d lib \<times> currencies_cache" and s e
  assume "shared_directory d" and "GetCurrencyByCode (fst d) (snd d) s = Some e"
  then show "e = make_currency_entry (ce_model e) \<and> same_upper (code (ce_model e)) s"
    using currencies.find_code_entry [of "(fst d, _)" s e]
    by (elim shared_parts) (fastforce simp: GetCurrencyByCode_def)
qed

text \<open>
  C8: whatever the moment a handler reads the cache of currencies while updates run, the
  index by id is the table after a first part of the rows sent so far, the index by code is
  at most one row behind it, both have all the rows of the complete updates, and the text is
  that of the complete updates, with or without the one that runs: never a part of one.  So a
  currency found by its code is always found by its id as well.
\<close>

theorem currency_readers_see_prefix:
  assumes "string_algo_laws L"
    and "(staged_step (write_currency L ord) currencies_writes)\<^sup>*\<^sup>* (staged_start CurrenciesCache) s"
  defines "c \<equiv> sg_cache s" and "rows \<equiv> concat (sg_begun s)"
  shows "(\<exists>m n. m \<le> n \<and> n \<le> Suc m \<and> n \<le> length rows \<and> length (concat (butlast (sg_begun s))) \<le> m \<and>
      (\<forall>i. map_option ce_model (GetCurrencyById c i) = fold upsert (take n rows) Map.empty i) \<and>
      (\<forall>t. GetCurrencyByCode L c t =
         map_option make_currency_entry (find (\<lambda>r. same_upper (code r) t) (rev (take m rows))))) \<and>
    (\<exists>bs \<in> {butlast (sg_begun s), sg_begun s}.
       GetAllCurrenciesJson c = GetAllCurrenciesJson (fold (CurrenciesCache_UpdateCache L ord) bs CurrenciesCache)) \<and>
    (\<forall>t e. GetCurrencyByCode L c t = Some e \<longrightarrow> GetCurrencyById c (currency_id (ce_model e)) \<noteq> None)"
  using assms(2)
proof (rule reader_view)
  fix m n
  assume mn: "m \<le> n" "n \<le> Suc m" "n \<le> length (concat (sg_begun s))" "length (concat (butlast (sg_begun s))) \<le> m"
    and id: "currency_by_id (sg_cache s) =
      currency_by_id (fold (update_currency L) (take n (concat (sg_begun s))) CurrenciesCache)"
    and cd: "currency_by_code (sg_cache s) =
      currency_by_code (fold (update_currency L) (take m (concat (sg_begun s))) CurrenciesCache)"
    and js: "\<exists>bs \<in> {butlast (sg_begun s), sg_begun s}. all_currencies_json (sg_cache s) =
      all_currencies_json (fold (CurrenciesCache_UpdateCache L ord) bs CurrenciesCache)"
  have by_id: "map_option ce_model (GetCurrencyById c i) = fold upsert (take n rows) Map.empty i" for i
    by (simp add: GetCurrencyById_def c_def rows_def id fold_update_by_id)
  have by_code: "GetCurrencyByCode L c t =
      map_option make_currency_entry (find (\<lambda>r. same_upper (code r) t) (rev (take m rows)))" for t
    by (simp add: GetCurrencyByCode_def c_def rows_def cd fold_update_by_code [OF assms(1)])
  have "GetCurrencyById c (currency_id (ce_model e)) \<noteq> None" if found: "GetCurrencyByCode L c t = Some e" for t e
  proof -
    obtain r where r: "find (\<lambda>r. same_upper (code r) t) (rev (take m rows)) = Some r" "ce_model e = r"
      using found by (auto simp: by_code)
    then have "r \<in> set (take m rows)" by (metis find_Some_iff nth_mem set_rev)
    then have "r \<in> set (take n rows)" using set_take_subset_set_take [OF mn(1), of rows] by blast
    then have "currency_id r \<in> dom (fold upsert (take n rows) Map.empty)" by (simp add: dom_fold_upsert)
    then show ?thesis by (auto simp: r(2) simp flip: by_id)
  qed
  with by_id by_code mn js show ?thesis
    by (intro conjI) (auto simp: rows_def c_def GetAllCurrenciesJson_def)
qed

theorem currency_readers_see_prefix_witness:
  "\<exists>n \<le> 1. \<forall>i. map_option ce_model (GetCurrencyById (write_currency ref_lib rev (Put_by_id usd) CurrenciesCache) i) =
     fold upsert (take n [usd]) Map.empty i"
proof -
  let ?P = "write_currency ref_lib rev"
  let ?s0 = "staged_start CurrenciesCache :: (currency list, currency_write, currencies_cache) staged"
  let ?s1 = "?s0\<lparr>sg_writes := currencies_writes [usd], sg_begun := sg_begun ?s0 @ [[usd]]\<rparr>"
  let ?s2 = "?s1\<lparr>sg_cache := ?P (Put_by_id usd) (sg_cache ?s1),
    sg_writes := [Put_by_code usd, Put_std_map usd, Exchange_json]\<rparr>"
  have "staged_step ?P currencies_writes ?s0 ?s1"
    by (rule staged_step.Begin) (simp add: staged_start_def)
  moreover have "staged_step ?P currencies_writes ?s1 ?s2"
    by (rule staged_step.Write) (simp add: currencies_writes_def)
  ultimately have "(staged_step ?P currencies_writes)\<^sup>*\<^sup>* ?s0 ?s2"
    by (meson rtranclp.rtrancl_into_rtrancl rtranclp.rtrancl_refl)
  from currency_readers_see_prefix [OF ref_lib_string_algo_laws this] show ?thesis
    by (auto simp: staged_start_def)
qed

section \<open>The cache of exchange rates\<close>

text \<open>\<open>Exchange_rates_json\<close> has the currencies the text is made with, and whether rows were brought.\<close>

datatype rate_write =
    Put_rate_by_id exchange_rate
  | Put_rate_by_pair exchange_rate
  | Put_rate_std_map exchange_rate
  | Exchange_rates_json currencies_cache bool

primrec write_rate :: "'d lib \<Rightarrow> rate_order \<Rightarrow> rate_write \<Rightarrow> exchange_rates_cache \<Rightarrow> exchange_rates_cache" where
  "write_rate L ord (Put_rate_by_id r) c =
     c\<lparr>exchange_rate_by_id := kv_insert_or_assign (=) (exchange_rate_id r) r (exchange_rate_by_id c)\<rparr>"
| "write_rate L ord (Put_rate_by_pair r) c =
     c\<lparr>exchange_rate_by_curr_pair := kv_insert_or_assign (=) (rate_pair r) r (exchange_rate_by_curr_pair c)\<rparr>"
| "write_rate L ord (Put_rate_std_map r) c =
     c\<lparr>exchange_rate_by_id_std_map :=
       kv_insert_or_assign (=) (exchange_rate_id r) r (exchange_rate_by_id_std_map c)\<rparr>"
| "write_rate L ord (Exchange_rates_json cc updated) c = fst (exchange_all_rates L ord cc updated c)"

definition rate_row_writes :: "exchange_rate list \<Rightarrow> rate_write list" where
  "rate_row_writes rows = concat (map (\<lambda>r. [Put_rate_by_id r, Put_rate_by_pair r, Put_rate_std_map r]) rows)"

definition rates_writes :: "currencies_cache \<times> exchange_rate list \<Rightarrow> rate_write list" where
  "rates_writes b = rate_row_writes (snd b) @ [Exchange_rates_json (fst b) (snd b \<noteq> [])]"

definition rates_update :: "'d lib \<Rightarrow> rate_order \<Rightarrow> currencies_cache \<times> exchange_rate list \<Rightarrow>
    exchange_rates_cache \<Rightarrow> exchange_rates_cache" where
  "rates_update L ord b c = fst (ExchangeRatesCache_UpdateCache L ord (fst b) (snd b) c)"

lemma rate_row_writes_simps [simp]:
  "rate_row_writes [] = []"
  "rate_row_writes (r # rows) = Put_rate_by_id r # Put_rate_by_pair r # Put_rate_std_map r # rate_row_writes rows"
  by (simp_all add: rate_row_writes_def)

lemma length_rate_row_writes [simp]: "length (rate_row_writes rows) = 3 * length rows"
  by (induction rows) simp_all

lemma write_rate_row:
  "write_rate L ord (Put_rate_std_map r) (write_rate L ord (Put_rate_by_pair r) (write_rate L ord (Put_rate_by_id r) c)) =
     update_rate r c"
  by (simp add: update_rate_def)

lemma fold_rate_row_writes: "fold (write_rate L ord) (rate_row_writes rows) c = fold update_rate rows c"
  by (induction rows arbitrary: c) (simp_all add: write_rate_row del: write_rate.simps)

interpretation rates_staged: staged_update "write_rate L ord" rates_writes "rates_update L ord"
  for L ord
  by unfold_locales
    (auto simp: rates_writes_def fold_rate_row_writes rates_update_def ExchangeRatesCache_UpdateCache_def)

lemma rate_row_writes_part:
  "exchange_rate_by_curr_pair (fold (write_rate L ord) (take k (rate_row_writes rows)) c) =
     exchange_rate_by_curr_pair (fold update_rate (take ((k + 1) div 3) rows) c) \<and>
   all_exchange_rates (fold (write_rate L ord) (take k (rate_row_writes rows)) c) = all_exchange_rates c"
proof (induction rows arbitrary: c k)
  case (Cons r rows)
  show ?case
  proof (cases k rule: three_cases)
    case (4 i)
    then have "(k + 1) div 3 = Suc ((i + 1) div 3)" by simp
    moreover have "fold (write_rate L ord) (take k (rate_row_writes (r # rows))) c =
        fold (write_rate L ord) (take i (rate_row_writes rows)) (update_rate r c)"
      by (simp add: 4 write_rate_row del: write_rate.simps)
    moreover have "all_exchange_rates (update_rate r c) = all_exchange_rates c"
      by (simp add: update_rate_def)
    ultimately show ?thesis
      using Cons.IH [of i "update_rate r c"] by simp
  qed (simp_all add: numeral_2_eq_2 update_rate_def)
qed simp

lemma rates_updates_pairs:
  "exchange_rate_by_curr_pair (fold update_rate rows (fold (rates_update L ord) bs c)) =
     exchange_rate_by_curr_pair (fold update_rate (concat (map snd bs) @ rows) c)"
proof -
  have rows: "exchange_rate_by_curr_pair d = exchange_rate_by_curr_pair d' \<Longrightarrow>
      exchange_rate_by_curr_pair (fold update_rate rows d) = exchange_rate_by_curr_pair (fold update_rate rows d')"
    for rows d d'
    by (induction rows arbitrary: d d') (simp_all add: update_rate_def)
  have "exchange_rate_by_curr_pair (fold (rates_update L ord) bs c) =
      exchange_rate_by_curr_pair (fold update_rate (concat (map snd bs)) c)"
  proof (induction bs rule: rev_induct)
    case (snoc b bs)
    have "exchange_rate_by_curr_pair (rates_update L ord b d) = exchange_rate_by_curr_pair (fold update_rate (snd b) d)" for d
      by (auto simp: rates_update_def ExchangeRatesCache_UpdateCache_def exchange_all_rates_sel)
    with rows [OF snoc.IH, of "snd b"] show ?case by simp
  qed simp
  from rows [OF this] show ?thesis by simp
qed

lemma rates_update_part:
  assumes "k \<le> length (rates_writes b)"
  obtains m where "m \<le> length (snd b)"
    and "exchange_rate_by_curr_pair (fold (write_rate L ord) (take k (rates_writes b)) c) =
      exchange_rate_by_curr_pair (fold update_rate (take m (snd b)) c)"
    and "all_exchange_rates (fold (write_rate L ord) (take k (rates_writes b)) c) \<in>
      {all_exchange_rates c, all_exchange_rates (rates_update L ord b c)}"
proof (cases "k \<le> 3 * length (snd b)")
  case True
  then have "take k (rates_writes b) = take k (rate_row_writes (snd b))"
    by (simp add: rates_writes_def)
  then show ?thesis
    using rate_row_writes_part [of L ord k "snd b" c] True
    by (intro that [of "(k + 1) div 3"]) auto
next
  case False
  with assms have "take k (rates_writes b) = rates_writes b"
    by (auto simp: rates_writes_def)
  then show ?thesis
    using rates_updates_pairs [of "[]" L ord "[b]" c]
    by (intro that [of "length (snd b)"]) (simp_all add: rates_staged.writes_update)
qed

text \<open>
  C16: whatever the moment a handler reads the cache of rates while updates run, a pair of
  currencies has the last rate of a first part of the rows sent so far, which includes the
  rows of the complete updates, and the text is that of the complete updates, with or
  without the one that runs, even where making a text failed.
\<close>

theorem rate_readers_see_prefix:
  assumes "(staged_step (write_rate L ord) rates_writes)\<^sup>*\<^sup>* (staged_start ExchangeRatesCache) s"
  defines "c \<equiv> sg_cache s" and "rows \<equiv> concat (map snd (sg_begun s))"
  shows "(\<exists>m \<le> length rows. length (concat (map snd (butlast (sg_begun s)))) \<le> m \<and>
      (\<forall>b t. GetExchangeRateByCurrPair c b t =
         find (\<lambda>r. base_currency_id r = b \<and> target_currency_id r = t) (rev (take m rows)))) \<and>
    (\<exists>bs \<in> {butlast (sg_begun s), sg_begun s}.
       GetAllExchangeRatesJson c = GetAllExchangeRatesJson (fold (rates_update L ord) bs ExchangeRatesCache))"
proof -
  have look: "GetExchangeRateByCurrPair d b t = find (\<lambda>r. base_currency_id r = b \<and> target_currency_id r = t) (rev rs)"
    if "exchange_rate_by_curr_pair d = exchange_rate_by_curr_pair (fold update_rate rs ExchangeRatesCache)" for d rs b t
  proof -
    have "(\<lambda>r. base_currency_id r = b \<and> target_currency_id r = t) = (\<lambda>r. rate_pair r = (b, t))"
      by (auto simp: rate_pair_def)
    then show ?thesis
      by (simp add: GetExchangeRateByCurrPair_def that pair_lookup_fold ExchangeRatesCache_def split: option.split)
  qed
  show ?thesis
  proof (cases rule: rates_staged.reachable_cases [OF assms(1)])
    case 1
    then show ?thesis using look [of ExchangeRatesCache "[]"] by (simp add: c_def rows_def)
  next
    case (2 bs b k)
    let ?d = "fold (rates_update L ord) bs ExchangeRatesCache"
    from 2(2) obtain m where m: "m \<le> length (snd b)"
      and pair: "exchange_rate_by_curr_pair c = exchange_rate_by_curr_pair (fold update_rate (take m (snd b)) ?d)"
      and json: "all_exchange_rates c \<in> {all_exchange_rates ?d, all_exchange_rates (rates_update L ord b ?d)}"
      unfolding c_def 2(4) by (rule rates_update_part)
    have "take (length (concat (map snd bs)) + m) rows = concat (map snd bs) @ take m (snd b)"
      by (simp add: rows_def 2(1))
    then have "GetExchangeRateByCurrPair c i t = find (\<lambda>r. base_currency_id r = i \<and> target_currency_id r = t)
        (rev (take (length (concat (map snd bs)) + m) rows))" for i t
      using pair by (simp only: rates_updates_pairs look)
    with m json show ?thesis
      by (intro conjI exI [of _ "length (concat (map snd bs)) + m"])
        (auto simp: rows_def GetAllExchangeRatesJson_def 2(1))
  qed
qed

theorem rate_readers_see_prefix_witness:
  "GetAllExchangeRatesJson (write_rate ref_lib rev (Put_rate_by_id usd_eur) ExchangeRatesCache) \<in>
     {GetAllExchangeRatesJson ExchangeRatesCache,
      GetAllExchangeRatesJson (rates_update ref_lib rev (CurrenciesCache, [usd_eur]) ExchangeRatesCache)}"
proof -
  let ?P = "write_rate ref_lib rev"
  let ?b = "(CurrenciesCache, [usd_eur])"
  let ?s0 = "staged_start ExchangeRatesCache ::
    (currencies_cache \<times> exchange_rate list, rate_write, exchange_rates_cache) staged"
  let ?s1 = "?s0\<lparr>sg_writes := rates_writes ?b, sg_begun := sg_begun ?s0 @ [?b]\<rparr>"
  let ?s2 = "?s1\<lparr>sg_cache := ?P (Put_rate_by_id usd_eur) (sg_cache ?s1),
    sg_writes := [Put_rate_by_pair usd_eur, Put_rate_std_map usd_eur, Exchange_rates_json CurrenciesCache True]\<rparr>"
  have "staged_step ?P rates_writes ?s0 ?s1"
    by (rule staged_step.Begin) (simp add: staged_start_def)
  moreover have "staged_step ?P rates_writes ?s1 ?s2"
    by (rule staged_step.Write) (simp add: rates_writes_def)
  ultimately have "(staged_step ?P rates_writes)\<^sup>*\<^sup>* ?s0 ?s2"
    by (meson rtranclp.rtrancl_into_rtrancl rtranclp.rtrancl_refl)
  from rate_readers_see_prefix [OF this] show ?thesis
    by (auto simp: staged_start_def)
qed

end
