(* ===== verification/Api_Spec.thy ===== *)
theory Api_Spec
  imports Handlers_Get
begin

text \<open>
  What the API says of the rows of the database, without caches, handlers or responses, and
  that the \<open>GET\<close> handlers of \<open>src/src/handlers\<close> say it when the caches they read present
  these rows.
\<close>

section \<open>Answers from rows\<close>

text \<open>Codes are compared without case; of several rows the last counts.\<close>

definition row_of_code :: "currency list \<Rightarrow> string \<Rightarrow> currency option" where
  "row_of_code rows s = find (\<lambda>r. map ascii_upper (code r) = map ascii_upper s) (rev rows)"

definition rate_of_pair :: "exchange_rate list \<Rightarrow> i32 \<Rightarrow> i32 \<Rightarrow> exchange_rate option" where
  "rate_of_pair rates b t = find (\<lambda>r. base_currency_id r = b \<and> target_currency_id r = t) (rev rates)"

text \<open>The body of an answer, or the error it is answered with.\<close>

definition api_currency :: "'d lib \<Rightarrow> currency list \<Rightarrow> string \<Rightarrow> string res" where
  "api_currency L rows cd =
     (if cd = [] then http_error L ''There is no currency code in the URL'' kBadRequest
      else case row_of_code rows cd of
        None \<Rightarrow> http_error L ''Currency not found'' kNotFound
      | Some r \<Rightarrow> Inr (lib_json_dump L (MakeCurrencyDtoJson r)))"

definition api_exchange_rate :: "'d lib \<Rightarrow> currency list \<Rightarrow> exchange_rate list \<Rightarrow> string \<Rightarrow> string res" where
  "api_exchange_rate L rows rates pair =
     (if pair = [] then http_error L ''There is no currency pair in the URL'' kBadRequest
      else if length pair \<noteq> 6 then http_error L ''Invalid currency pair'' kBadRequest
      else case (row_of_code rows (take 3 pair), row_of_code rows (drop 3 pair)) of
        (Some base, Some target) \<Rightarrow>
          (case rate_of_pair rates (currency_id base) (currency_id target) of
             Some r \<Rightarrow> res_bind (MakeExchangeRateDtoJson L r (MakeCurrencyDtoJson base) (MakeCurrencyDtoJson target))
               (\<lambda>doc. Inr (lib_json_dump L doc))
           | None \<Rightarrow> http_error L ''Exchange rate not found'' kNotFound)
      | _ \<Rightarrow> http_error L ''Exchange rate not found'' kNotFound)"

definition api_parameter :: "'d lib \<Rightarrow> (string \<times> string option) list \<Rightarrow> string \<Rightarrow> string res" where
  "api_parameter L query name =
     (case find_parameter L query name of
        None \<Rightarrow> http_error L (''Parameter '' @ CHR 0x27 # name @ CHR 0x27 # '' is required'') kBadRequest
      | Some v \<Rightarrow> Inr v)"

definition api_code_parameter :: "'d lib \<Rightarrow> (string \<times> string option) list \<Rightarrow> string \<Rightarrow> string res" where
  "api_code_parameter L query name =
     res_bind (api_parameter L query name) (\<lambda>v.
       if length v = 3 then Inr v
       else http_error L (''Parameter '' @ CHR 0x27 # name @ CHR 0x27 # '' is invalid'') kBadRequest)"

text \<open>The rate from one currency to another: its own, the reciprocal of the reverse, or by the dollar.\<close>

definition api_quotation :: "'d lib \<Rightarrow> currency list \<Rightarrow> exchange_rate list \<Rightarrow> i32 \<Rightarrow> i32 \<Rightarrow> 'd res" where
  "api_quotation L rows rates b t =
     (case (rate_of_pair rates b t, rate_of_pair rates t b) of
        (Some r, _) \<Rightarrow> Decimal L (rate r)
      | (None, Some r) \<Rightarrow> res_bind (Decimal L (rate r)) (\<lambda>d. Inr (lib_dec_div L (lib_dec_one L) d))
      | (None, None) \<Rightarrow>
          (case map_option (\<lambda>u. (rate_of_pair rates (currency_id u) b, rate_of_pair rates (currency_id u) t))
                  (row_of_code rows ''USD'') of
             Some (Some ub, Some ut) \<Rightarrow>
               res_bind (Decimal L (rate ut)) (\<lambda>x. res_bind (Decimal L (rate ub)) (\<lambda>y. Inr (lib_dec_div L x y)))
           | _ \<Rightarrow> http_error L ''Exchange rate not found'' kNotFound))"

definition api_exchange ::
  "'d lib \<Rightarrow> currency list \<Rightarrow> exchange_rate list \<Rightarrow> (string \<times> string option) list \<Rightarrow> string res" where
  "api_exchange L rows rates query =
     res_bind (api_code_parameter L query ''from'') (\<lambda>base_code.
     res_bind (api_code_parameter L query ''to'') (\<lambda>target_code.
     res_bind (api_parameter L query ''amount'') (\<lambda>amount_str.
       case (row_of_code rows base_code, row_of_code rows target_code) of
         (None, _) \<Rightarrow> http_error L ''Base currency not found'' kNotFound
       | (Some _, None) \<Rightarrow> http_error L ''Target currency not found'' kNotFound
       | (Some base, Some target) \<Rightarrow>
           res_bind (api_quotation L rows rates (currency_id base) (currency_id target)) (\<lambda>rt.
           res_bind (Decimal L amount_str) (\<lambda>amount.
           res_bind (MakeConvertedAmountDtoJson L base target (lib_dec_str2 L rt) (lib_dec_str2 L amount)
                       (lib_dec_str2 L (lib_dec_mul L amount rt)))
             (\<lambda>doc. Inr (lib_json_dump L doc)))))))"

text \<open>The status and the body a client gets.\<close>

fun api_answer :: "string res \<Rightarrow> (nat \<times> string) option" where
  "api_answer (Inr body) = Some (200, body)"
| "api_answer (Inl (Throws (HttpException msg st))) = Some (http_status_value st, msg)"
| "api_answer (Inl (Throws (StdException msg))) = Some (500, [])"
| "api_answer (Inl e) = None"

lemma benign_api [simp]:
  "benign (api_currency L rows cd)"
  "benign (api_exchange_rate L rows rates pair)"
  "benign (api_parameter L query name)"
  "benign (api_code_parameter L query name)"
  "benign (api_quotation L rows rates b t)"
  "benign (api_exchange L rows rates query)"
proof -
  show par: "benign (api_parameter L query name)" for name
    by (simp add: api_parameter_def split: option.split)
  show code: "benign (api_code_parameter L query name)" for name
    by (auto simp: api_code_parameter_def par intro!: benign_bind)
  show quot: "benign (api_quotation L rows rates b t)" for b t
    by (auto simp: api_quotation_def intro!: benign_bind split: option.split)
  show "benign (api_exchange L rows rates query)"
    by (auto simp: api_exchange_def par code quot intro!: benign_bind split: option.split)
qed (auto simp: api_currency_def api_exchange_rate_def intro!: benign_bind split: option.split)

lemma benign_answer: "benign m \<Longrightarrow> \<exists>a. api_answer m = Some a"
  by (cases m rule: api_answer.cases) auto

section \<open>From the body to the message\<close>

definition sends :: "'d lib \<Rightarrow> string res \<Rightarrow> http_response \<Rightarrow> flow" where
  "sends L m rs = returning rs (res_bind m (\<lambda>body. Inr (Send L body rs)))"

lemma sends_simps [simp]: "sends L (Inr body) rs = answered (Send L body rs)"
  by (simp add: sends_def)

text \<open>An error that is thrown is answered like one that is sent, if its status allows a text.\<close>

lemma sent_error:
  "try_catch (ExceptionsHandlerImpl L) rq rs (sends L (http_error L msg st) rs) = answered (send_error L st msg rs)"
  by (simp add: sends_def http_error_def res_simps ExceptionsHandlerImpl_def HandleException_def ReportHttpError_def
      send_error_def)

lemma sends_answer:
  fixes k v ct
  assumes "bimap_laws L" and "benign m" and "api_answer m = Some (st, body)"
  defines "rs \<equiv> MakeHttpResponse L k v ct"
  shows "\<exists>rs' r. try_catch (ExceptionsHandlerImpl L) rq rs (sends L m rs) = Finished (Some rs') \<and>
    rs_calls rs' = [Write r] \<and> beast_status_int (br_status r) = st \<and> br_body r = body"
proof -
  note fresh = fresh_response [OF assms(1), of k v ct, folded rs_def]
  note status = message_of_Send_status [OF assms(1) fresh(2), unfolded fresh(1)]
  from assms(3) show ?thesis
  proof (cases m rule: api_answer.cases)
    case (1 b)
    with assms(3) message_of_Send [OF assms(1), of b k v ct] show ?thesis by (auto simp: rs_def)
  next
    case (2 msg hst)
    with assms(2) have "\<not> bodiless (http_status_value hst)" by simp
    from status [OF this, of msg] 2 assms(3) show ?thesis
      by (auto simp: sends_def res_simps ExceptionsHandlerImpl_def HandleException_def ReportHttpError_def
          simp del: Send_takes_body)
  next
    case (3 msg)
    with assms(3) status [of kInternalServerError "[]"] show ?thesis
      by (auto simp: sends_def res_simps ExceptionsHandlerImpl_def HandleException_def ReportError_def
          simp del: Send_takes_body)
  qed simp_all
qed

section \<open>The handlers\<close>

text \<open>The parameters of a conversion are read in one go.\<close>

lemma exchange_ParseRequest_api:
  assumes "GetQuery L rq = Some query"
  shows "exchange_ParseRequest L rq =
    res_bind (api_code_parameter L query ''from'') (\<lambda>b.
    res_bind (api_code_parameter L query ''to'') (\<lambda>t.
    res_bind (api_parameter L query ''amount'') (\<lambda>a.
      Inr \<lparr>ex_base_currency_code = b, ex_target_currency_code = t, ex_amount = a\<rparr>)))"
  using assms
  by (auto simp: exchange_ParseRequest_def api_code_parameter_def api_parameter_def http_error_def split: option.split)

text \<open>Caches that present the rows of some tables: what the handlers that read them rely on.\<close>

locale presented_rows =
  fixes presents :: "'d lib \<Rightarrow> currencies_cache \<Rightarrow> exchange_rates_cache \<Rightarrow> currency list \<Rightarrow> exchange_rate list \<Rightarrow> bool"
  assumes presented_code: "presents L cc rc rows rates \<Longrightarrow>
      GetCurrencyByCode L cc s = map_option make_currency_entry (row_of_code rows s)"
    and presented_pair: "presents L cc rc rows rates \<Longrightarrow> GetExchangeRateByCurrPair rc b t = rate_of_pair rates b t"
begin

lemma currency_sends:
  assumes "presents L cc rc rows rates" and "bimap_laws L" and "takes_body rs" and "GetBody rq = []" and "GetMatchResult rq = [(''code'', cd)]"
  shows "HttpHandlerBase_Process (get_currency L cc) (ExceptionsHandlerImpl L) (Some rq) (Some rs) =
    try_catch (ExceptionsHandlerImpl L) rq rs (sends L (api_currency L rows cd) rs)"
  by (auto simp: HttpHandlerBase_Process_def get_currency_def HttpHandlerJson_cases json_body_def assms(2-5)
      get_currency_HandleRequestJson_def matches_at_def presented_code [OF assms(1)] api_currency_def sent_error
      send_error_def
      split: option.split)

lemma exchange_rate_sends:
  assumes "presents L cc rc rows rates" and "bimap_laws L" and "takes_body rs" and "GetBody rq = []" and "GetMatchResult rq = [(''curr_pair'', pair)]"
  shows "HttpHandlerBase_Process (get_exchange_rate L cc rc) (ExceptionsHandlerImpl L) (Some rq) (Some rs) =
    try_catch (ExceptionsHandlerImpl L) rq rs (sends L (api_exchange_rate L rows rates pair) rs)"
  by (auto simp: HttpHandlerBase_Process_def get_exchange_rate_def HttpHandlerJson_cases json_body_def assms(2-5)
      get_exchange_rate_HandleRequestJson_def matches_at_def presented_code [OF assms(1)] presented_pair [OF assms(1)]
      api_exchange_rate_def ParseCurrPair_def sent_error send_error_def Let_def split: option.split)
    (simp add: sends_def res_bind_assoc assms(3))

lemma exchange_sends:
  assumes "presents L cc rc rows rates" and "GetQuery L rq = Some query"
  shows "HttpHandlerBase_Process (exchange_HandleRequest L cc rc) (ExceptionsHandlerImpl L) (Some rq) (Some rs) =
    try_catch (ExceptionsHandlerImpl L) rq rs (sends L (api_exchange L rows rates query) rs)"
proof -
  have pair: "FindCurrencyPairByCodes L cc b t =
      (case (row_of_code rows b, row_of_code rows t) of
         (None, _) \<Rightarrow> http_error L ''Base currency not found'' kNotFound
       | (Some _, None) \<Rightarrow> http_error L ''Target currency not found'' kNotFound
       | (Some base, Some target) \<Rightarrow> Inr (make_currency_entry base, make_currency_entry target))" for b t
    by (simp add: FindCurrencyPairByCodes_def presented_code [OF assms(1)] split: option.split)
  have usd: "FindUsdExchangeRates L cc rc b t =
      (case map_option (\<lambda>u. (rate_of_pair rates (currency_id u) b, rate_of_pair rates (currency_id u) t))
              (row_of_code rows ''USD'') of
         Some (Some ub, Some ut) \<Rightarrow> Inr (ub, ut)
       | _ \<Rightarrow> http_error L ''Exchange rate not found'' kNotFound)" for b t
    by (simp add: FindUsdExchangeRates_def FindExchangeRateByCurrencyPair_def presented_code [OF assms(1)]
        presented_pair [OF assms(1)] Let_def split: option.split)
  have "exchange_HandleRequest L cc rc rq rs = sends L (api_exchange L rows rates query) rs"
    unfolding exchange_HandleRequest_def sends_def api_exchange_def exchange_ParseRequest_api [OF assms(2)] res_bind_assoc
    by (intro arg_cong [where f = "returning rs"] res_bind_cong refl)
      (auto simp: pair usd FindExchangeRateByCurrencyPair_def presented_pair [OF assms(1)] CalcConvAmount_def
        CalcReverseRate_def CalcRateByUsdExchRates_def api_quotation_def http_error_def res_bind_assoc Let_def
        split: option.split)
  then show ?thesis by (simp add: HttpHandlerBase_Process_def)
qed

end

end
