(* ===== verification/Service_Api.thy ===== *)
theory Service_Api
  imports Service_Requests Cache_Readers Api_Spec
begin

text \<open>
  The answers of the running service in terms of the rows of its database: the chain from the
  target of a request through routing, handler and caches against \<open>Api_Spec\<close>.
\<close>

section \<open>Caches that present rows\<close>

definition caches_present ::
  "'d lib \<Rightarrow> currencies_cache \<Rightarrow> exchange_rates_cache \<Rightarrow> currency list \<Rightarrow> exchange_rate list \<Rightarrow> bool" where
  "caches_present L cc rc rows rates \<longleftrightarrow> string_algo_laws L \<and>
     currency_by_code cc = currency_by_code (fold (update_currency L) rows CurrenciesCache) \<and>
     exchange_rate_by_curr_pair rc = exchange_rate_by_curr_pair (fold update_rate rates ExchangeRatesCache)"

interpretation cached_rows: presented_rows caches_present
proof unfold_locales
  fix L :: "'d lib" and cc rc rows rates s
  assume "caches_present L cc rc rows rates"
  then show "GetCurrencyByCode L cc s = map_option make_currency_entry (row_of_code rows s)"
    by (simp add: caches_present_def GetCurrencyByCode_def fold_update_by_code row_of_code_def same_upper_def)
next
  fix L :: "'d lib" and cc rc rows rates b t
  assume "caches_present L cc rc rows rates"
  moreover have "(\<lambda>r. rate_pair r = (b, t)) = (\<lambda>r. base_currency_id r = b \<and> target_currency_id r = t)"
    by (auto simp: rate_pair_def)
  ultimately show "GetExchangeRateByCurrPair rc b t = rate_of_pair rates b t"
    by (simp add: caches_present_def GetExchangeRateByCurrPair_def pair_lookup_fold rate_of_pair_def
        ExchangeRatesCache_def split: option.split)
qed

text \<open>The rows a service loads.\<close>

definition loaded_currencies :: "environment \<Rightarrow> currency list" where
  "loaded_currencies env = snd (ev_currencies env (kFullUpdateCurrenciesCache, []))"

definition loaded_rates :: "environment \<Rightarrow> exchange_rate list" where
  "loaded_rates env = snd (ev_rates env (kFullUpdateExchangeRatesCache, []))"

lemma loaded_present:
  assumes "string_algo_laws L" and "loads_well L orders env cc rc"
  shows "caches_present L cc rc (loaded_currencies env) (loaded_rates env)"
proof -
  have cc: "cc = CurrenciesCache_UpdateCache L (or_currencies orders) (loaded_currencies env) CurrenciesCache"
    using assms(2) unfolding loads_well_def loaded_currencies_def by blast
  have "ExchangeRatesCache_UpdateCache L (or_rates orders) cc (loaded_rates env) ExchangeRatesCache = (rc, Inr ())"
    using assms(2) unfolding loads_well_def loaded_rates_def by blast
  then have "rc = fst (ExchangeRatesCache_UpdateCache L (or_rates orders) cc (loaded_rates env) ExchangeRatesCache)"
    by simp
  then have "exchange_rate_by_curr_pair rc =
      exchange_rate_by_curr_pair (fold update_rate (loaded_rates env) ExchangeRatesCache)"
    by (simp add: ExchangeRatesCache_UpdateCache_def exchange_all_rates_sel)
  then show ?thesis
    using assms(1) by (simp add: caches_present_def cc CurrenciesCache_UpdateCache_sel)
qed

section \<open>Requests that read\<close>

text \<open>What the API says to a \<open>GET\<close> of a path, where it is one body.\<close>

fun api_get ::
  "'d lib \<Rightarrow> currency list \<Rightarrow> exchange_rate list \<Rightarrow> string list \<Rightarrow> (string \<times> string option) list option \<Rightarrow>
     string res option" where
  "api_get L rows rates [a] query =
     (if lib_pct_decode L a = ''exchange'' then map_option (api_exchange L rows rates) query else None)"
| "api_get L rows rates [a, b] query =
     (if lib_pct_decode L a = ''currency'' then Some (api_currency L rows b)
      else if lib_pct_decode L a = ''exchangerate'' then Some (api_exchange_rate L rows rates b)
      else None)"
| "api_get L rows rates segs query = None"

lemma api_get_benign: "api_get L rows rates segs query = Some m \<Longrightarrow> benign m"
  by (cases "(L, rows, rates, segs, query)" rule: api_get.cases) (auto split: if_splits)

lemma request_api:
  assumes "service_started L env cfg cc rc sv" and "caches_present L cc rc rows rates"
    and "MakeHttpRequest L b = Inr rq" and "GetMethod L rq = kGet" and "GetBody rq = []"
    and "lib_parse_path L (GetPath rq) = Some segs" and "no_dots L segs"
    and "api_get L rows rates segs (GetQuery L rq) = Some m" and "bimap_laws L"
  shows "\<exists>rq'. RequestHandler L (sv_context sv) b =
    ret (try_catch (ExceptionsHandlerImpl L) rq' (fresh_response L rq) (sends L m (fresh_response L rq)))"
proof -
  have body: "GetBody (SetMatchResult rq bs) = []" "GetMatchResult (SetMatchResult rq bs) = bs" for bs
    using assms(5) by (simp_all add: GetBody_def SetMatchResult_def GetMatchResult_def)
  note fresh = takes_body_fresh_response [OF assms(9), of rq]
  have "segs \<noteq> []" using assms(8) by auto
  note run = request_reaches_handler [OF assms(1,3,6) this assms(7), unfolded assms(4)]
  from assms(8) consider (one) a where "segs = [a]" | (two) a c where "segs = [a, c]"
    by (cases "(L, rows, rates, segs, GetQuery L rq)" rule: api_get.cases) auto
  then show ?thesis
  proof cases
    case (one a)
    with assms(8) obtain q where q: "GetQuery L rq = Some q" "lib_pct_decode L a = ''exchange''"
      "m = api_exchange L rows rates q" by (auto split: if_splits)
    with one show ?thesis
      using run cached_rows.exchange_sends [OF assms(2), of "SetMatchResult rq []" q "fresh_response L rq"]
      by (auto simp: service_route_def service_handler_eqs)
  next
    case (two a c)
    with assms(8) consider "lib_pct_decode L a = ''currency''" "m = api_currency L rows c"
      | "lib_pct_decode L a = ''exchangerate''" "m = api_exchange_rate L rows rates c" by (auto split: if_splits)
    then show ?thesis
      using run two cached_rows.currency_sends [OF assms(2,9) fresh body, where cd = c]
        cached_rows.exchange_rate_sends [OF assms(2,9) fresh body, where pair = c]
      by cases (auto simp: service_route_def service_handler_eqs)
  qed
qed

section \<open>The lists\<close>

text \<open>The rows that count: of several with one key the last.\<close>

definition current_rows :: "('r \<Rightarrow> i32) \<Rightarrow> 'r list \<Rightarrow> 'r set" where
  "current_rows key rows = {r. find (\<lambda>x. key x = key r) (rev rows) = Some r}"

definition lists_currencies :: "'d lib \<Rightarrow> currency list \<Rightarrow> string \<Rightarrow> bool" where
  "lists_currencies L rows body \<longleftrightarrow> (\<exists>rs. distinct rs \<and> set rs = current_rows currency_id rows \<and>
     body = (if rs = [] then [] else lib_json_dump L (JArray (map MakeCurrencyDtoJson rs))))"

text \<open>Rates of unknown currencies are left out; the others are shown with the rows of their currencies.\<close>

definition lists_rates :: "'d lib \<Rightarrow> currency list \<Rightarrow> exchange_rate list \<Rightarrow> string \<Rightarrow> bool" where
  "lists_rates L rows rates body \<longleftrightarrow>
     (if rates = [] then body = []
      else \<exists>rs docs. distinct rs \<and>
        set rs = {r \<in> current_rows exchange_rate_id rates.
          {base_currency_id r, target_currency_id r} \<subseteq> currency_id ` set rows} \<and>
        list_all2 (rate_document L (\<lambda>i. find (\<lambda>c. currency_id c = i) (rev rows))) rs docs \<and>
        body = lib_json_dump L (json_array_of docs))"

lemma map_of_current:
  assumes "distinct (map key rs)" and "\<And>i. map_of (map (\<lambda>r. (key r, r)) rs) i = find (\<lambda>r. key r = i) (rev rows)"
  shows "set rs = current_rows key rows"
proof -
  have "r \<in> set rs \<longleftrightarrow> map_of (map (\<lambda>r. (key r, r)) rs) (key r) = Some r" for r
    using assms(1) by (subst map_of_eq_Some_iff) (auto simp: comp_def)
  then show ?thesis by (auto simp: assms(2) current_rows_def)
qed

lemma fold_upsert_find: "fold upsert rows Map.empty = (\<lambda>i. find (\<lambda>c. currency_id c = i) (rev rows))"
  by (induction rows rule: rev_induct) (auto simp: fun_eq_iff upsert_def)

lemma rate_lookup_fold:
  "map_of (exchange_rate_by_id_std_map (fold update_rate rates ExchangeRatesCache)) i =
    find (\<lambda>r. exchange_rate_id r = i) (rev rates)"
  by (induction rates rule: rev_induct)
    (auto simp: update_rate_def ExchangeRatesCache_def map_find_eq_map_of [symmetric] std_key.find_insert_or_assign)

lemma loaded_currencies_listed:
  assumes "string_algo_laws L" and "iteration_order ord"
  shows "lists_currencies L rows (GetAllCurrenciesJson (CurrenciesCache_UpdateCache L ord rows CurrenciesCache))"
    and "currencies_core (CurrenciesCache_UpdateCache L ord rows CurrenciesCache)"
    and "currency_table (CurrenciesCache_UpdateCache L ord rows CurrenciesCache) =
      (\<lambda>i. find (\<lambda>c. currency_id c = i) (rev rows))"
proof -
  let ?c = "CurrenciesCache_UpdateCache L ord rows CurrenciesCache"
  have inv: "currencies_inv L ?c" by (rule currencies_inv_update [OF assms currencies_inv_init])
  then show "currencies_core ?c" by (simp add: currencies_inv_core)
  show tab: "currency_table ?c = (\<lambda>i. find (\<lambda>c. currency_id c = i) (rev rows))"
    by (simp add: currency_table_update currency_table_init fold_upsert_find)
  from published_rows [OF inv] obtain rs where rs: "distinct (map currency_id rs)"
    "map_of (map (\<lambda>r. (currency_id r, r)) rs) = currency_table ?c"
    "all_currencies_json ?c = (if rs = [] then [] else lib_json_dump L (JArray (map MakeCurrencyDtoJson rs)))" by blast
  from map_of_current [OF rs(1)] rs(2) have "set rs = current_rows currency_id rows" by (simp add: tab)
  with rs(1,3) show "lists_currencies L rows (GetAllCurrenciesJson ?c)"
    unfolding lists_currencies_def GetAllCurrenciesJson_def by (auto simp: distinct_map)
qed

lemma loaded_rates_listed:
  assumes "string_algo_laws L" and "iteration_order ord" and "currencies_core cc"
    and "currency_table cc = (\<lambda>i. find (\<lambda>c. currency_id c = i) (rev rows))"
    and "ExchangeRatesCache_UpdateCache L ord cc rates ExchangeRatesCache = (rc, Inr ())"
  shows "lists_rates L rows rates (GetAllExchangeRatesJson rc)"
proof (cases "rates = []")
  case True
  with assms(5) show ?thesis
    by (auto simp: lists_rates_def GetAllExchangeRatesJson_def ExchangeRatesCache_UpdateCache_def
        exchange_all_rates_def AllExchangeRatesToJson_def ExchangeRatesCache_def)
next
  case False
  let ?d = "fold update_rate rates ExchangeRatesCache"
  let ?m = "exchange_rate_by_id_std_map ?d"
  have upd: "exchange_all_rates L ord cc True ?d = (rc, Inr ())"
    using assms(5) False by (simp add: ExchangeRatesCache_UpdateCache_def)
  then have m: "exchange_rate_by_id_std_map rc = ?m"
    using exchange_all_rates_sel(3) [of L ord cc True ?d] by simp
  from exchange_all_rates_text [OF assms(1-3) disjI1 [OF TrueI] updated_nonempty [OF False] upd] obtain rs docs where
    rs: "mset rs = mset (filter (rate_known cc) (map snd ?m))"
    and docs: "list_all2 (rate_document L (currency_table cc)) rs docs"
      "all_exchange_rates rc = lib_json_dump L (json_array_of docs)" unfolding m by blast
  have inv: "distinct (map fst ?m)" "\<forall>p \<in> set ?m. fst p = exchange_rate_id (snd p)"
    using rates_inv_fold [OF rates_inv_init, of rates] by (simp_all add: rates_inv_def)
  have keys: "map fst ?m = map exchange_rate_id (map snd ?m)" using inv(2) by auto
  have pairs: "map (\<lambda>r. (exchange_rate_id r, r)) (map snd ?m) = ?m"
    using inv(2) unfolding map_map by (intro map_idI) (auto simp: prod_eq_iff)
  have current: "set (map snd ?m) = current_rows exchange_rate_id rates"
    by (rule map_of_current) (use inv(1) keys rate_lookup_fold in \<open>simp_all only: pairs\<close>)
  have "distinct (map snd ?m)" using inv(1) unfolding keys distinct_map [of exchange_rate_id] by blast
  then have "distinct rs" using rs mset_eq_imp_distinct_iff by (metis distinct_filter)
  moreover have "GetCurrencyById cc i \<noteq> None \<longleftrightarrow> i \<in> currency_id ` set rows" for i
  proof -
    have "GetCurrencyById cc i = None \<longleftrightarrow> find (\<lambda>c. currency_id c = i) (rev rows) = None"
      using fun_cong [OF assms(4), of i] by (auto simp: currency_table_def)
    then show ?thesis by (auto simp: find_None_iff)
  qed
  then have "set rs = {r \<in> current_rows exchange_rate_id rates.
      {base_currency_id r, target_currency_id r} \<subseteq> currency_id ` set rows}"
    using mset_eq_setD [OF rs] current by (auto simp: rate_known_def)
  ultimately show ?thesis
    using docs False unfolding lists_rates_def GetAllExchangeRatesJson_def assms(4) by auto
qed

section \<open>The answers\<close>

text \<open>
  C2: a request without a body that gets a currency, a rate or a conversion is answered by the
  built server with one message, and its status and body are those the rows loaded from the
  database give: currencies by their code without regard to case, a rate by the two ids, a
  conversion by the rate, by the reciprocal of the reverse rate or by the two rates of the
  dollar, and the texts and statuses of the errors in the order they are checked.
\<close>

theorem service_get_api:
  assumes "can_start L n orders env cfg cc rc" and "MakeHttpRequest L b = Inr rq"
    and "GetMethod L rq = kGet" and "GetBody rq = []"
    and "lib_parse_path L (GetPath rq) = Some segs" and "no_dots L segs"
    and "api_get L (loaded_currencies env) (loaded_rates env) segs (GetQuery L rq) = Some m"
    and "api_answer m = Some (st, body)"
  shows "\<exists>sv rs r. ServerBuilder_Build L n orders env (service_builder L cfg) = Up sv \<and>
    RequestHandler L (sv_context sv) b = ret (Finished (Some rs)) \<and> rs_calls rs = [Write r] \<and>
    beast_status_int (br_status r) = st \<and> br_body r = body"
proof -
  note start = assms(1) [unfolded can_start_def]
  from server_builds [OF assms(1)] obtain sv where
    sv: "ServerBuilder_Build L n orders env (service_builder L cfg) = Up sv" "service_started L env cfg cc rc sv" by blast
  have "caches_present L cc rc (loaded_currencies env) (loaded_rates env)"
    using start by (intro loaded_present [of L orders env]) blast+
  from request_api [OF sv(2) this assms(2-7) can_start_bimap [OF assms(1)]] obtain rq' where
    "RequestHandler L (sv_context sv) b =
      ret (try_catch (ExceptionsHandlerImpl L) rq' (fresh_response L rq) (sends L m (fresh_response L rq)))" by blast
  moreover have "bimap_laws L" using start by blast
  from sends_answer [OF this api_get_benign [OF assms(7)] assms(8), of rq' "GetKeepAlive rq" "GetHttpVersion rq" kApplicationJson,
      folded fresh_response_def] obtain rs r where
    "try_catch (ExceptionsHandlerImpl L) rq' (fresh_response L rq) (sends L m (fresh_response L rq)) = Finished (Some rs)"
    "rs_calls rs = [Write r]" "beast_status_int (br_status r) = st" "br_body r = body" by blast
  ultimately show ?thesis using sv(1) by auto
qed

text \<open>A conversion by the reciprocal, on the rows of the sample.\<close>

theorem service_get_api_witness:
  "\<exists>cfg sv rs r. ParseConfig ref_lib service_yaml = Inr cfg \<and>
    ServerBuilder_Build ref_lib 3 sample_orders sample_environment (service_builder ref_lib cfg) = Up sv \<and>
    RequestHandler ref_lib (sv_context sv)
      \<lparr>bq_method = verb_get, bq_target = ''/exchange?from=eur&to=Usd&amount=3'', bq_version = 11,
       bq_keep_alive = True, bq_body = []\<rparr> = ret (Finished (Some rs)) \<and>
    rs_calls rs = [Write r] \<and> beast_status_int (br_status r) = 200"
proof -
  let ?b = "\<lparr>bq_method = verb_get, bq_target = ''/exchange?from=eur&to=Usd&amount=3'', bq_version = 11,
       bq_keep_alive = True, bq_body = []\<rparr>"
  from sample_can_start obtain cfg cc rc where
    start: "ParseConfig ref_lib service_yaml = Inr cfg" "can_start ref_lib 3 sample_orders sample_environment cfg cc rc"
    by blast
  have "MakeHttpRequest ref_lib ?b =
    Inr \<lparr>rq_match_result = [], rq_request = ?b, rq_path = ''/exchange'', rq_query = ''from=eur&to=Usd&amount=3''\<rparr>"
    (is "_ = Inr ?rq") by code_simp
  note rq = this
  have parts: "GetMethod ref_lib ?rq = kGet" "GetBody ?rq = []"
    "lib_parse_path ref_lib (GetPath ?rq) = Some [''exchange'']" "no_dots ref_lib [''exchange'']" by code_simp+
  have rows: "loaded_currencies sample_environment = [usd, eur]" "loaded_rates sample_environment = [usd_eur]"
    by (simp_all add: loaded_currencies_def loaded_rates_def sample_environment_def)
  have "map_option (map_option fst \<circ> api_answer) (api_get ref_lib [usd, eur] [usd_eur] [''exchange''] (GetQuery ref_lib ?rq)) =
    Some (Some 200)" by code_simp
  then obtain m body where "api_get ref_lib [usd, eur] [usd_eur] [''exchange''] (GetQuery ref_lib ?rq) = Some m"
    "api_answer m = Some (200, body)" by auto
  from service_get_api [OF start(2) rq parts this [folded rows]] start(1) show ?thesis by blast
qed

text \<open>
  C5: a \<open>GET\<close> of the lists is answered by the built server with status 200 and the text of the
  rows that were loaded: every currency once, with its last row, and every rate of two known
  currencies once, with its last row and the rows of its currencies, in some order.
\<close>

theorem service_get_lists:
  assumes "can_start L n orders env cfg cc rc" and "MakeHttpRequest L b = Inr rq"
    and "GetMethod L rq = kGet" and "GetBody rq = []"
    and "lib_parse_path L (GetPath rq) = Some [seg]" and "no_dots L [seg]"
    and "lib_pct_decode L seg \<in> {''currencies'', ''exchangerates''}"
  shows "\<exists>sv rs r. ServerBuilder_Build L n orders env (service_builder L cfg) = Up sv \<and>
    RequestHandler L (sv_context sv) b = ret (Finished (Some rs)) \<and> rs_calls rs = [Write r] \<and>
    beast_status_int (br_status r) = 200 \<and>
    (if lib_pct_decode L seg = ''currencies'' then lists_currencies L (loaded_currencies env) (br_body r)
     else lists_rates L (loaded_currencies env) (loaded_rates env) (br_body r))"
proof -
  note start = assms(1) [unfolded can_start_def orders_ok_def]
  then have laws: "bimap_laws L" "string_algo_laws L" by blast+
  from server_builds [OF assms(1)] obtain sv where
    sv: "ServerBuilder_Build L n orders env (service_builder L cfg) = Up sv" "service_started L env cfg cc rc sv" by blast
  have cc: "cc = CurrenciesCache_UpdateCache L (or_currencies orders) (loaded_currencies env) CurrenciesCache"
    and rc: "ExchangeRatesCache_UpdateCache L (or_rates orders) cc (loaded_rates env) ExchangeRatesCache = (rc, Inr ())"
    using start unfolding loads_well_def loaded_currencies_def loaded_rates_def by blast+
  have orders: "iteration_order (or_currencies orders)" "iteration_order (or_rates orders)" using start by blast+
  note listed = loaded_currencies_listed [OF laws(2) orders(1), of "loaded_currencies env", folded cc]
  note rates = loaded_rates_listed [OF laws(2) orders(2) listed(2,3) rc]
  let ?body = "if lib_pct_decode L seg = ''currencies'' then GetAllCurrenciesJson cc else GetAllExchangeRatesJson rc"
  have "GetBody (SetMatchResult rq bs) = []" for bs
    using assms(4) by (simp add: GetBody_def SetMatchResult_def)
  then have "RequestHandler L (sv_context sv) b = ret (answered (Send L ?body (fresh_response L rq)))"
    using assms(7) laws(1) request_reaches_handler [OF sv(2) assms(2,5) _ assms(6)] assms(3)
    by (auto simp: service_route_def service_handler_eqs HttpHandlerBase_Process_def get_currencies_def
        get_exchange_rates_def HttpHandlerJson_cases json_body_def get_currencies_HandleRequestJson_def
        get_exchange_rates_HandleRequestJson_def)
  note run = this
  from message_of_Send [OF laws(1), of ?body] obtain rs r where msg: "Send L ?body (fresh_response L rq) = (rs, Inr ())"
    "rs_calls rs = [Write r]" "beast_status_int (br_status r) = 200" "br_body r = ?body"
    unfolding fresh_response_def by blast
  from msg(4) have "if lib_pct_decode L seg = ''currencies'' then lists_currencies L (loaded_currencies env) (br_body r)
      else lists_rates L (loaded_currencies env) (loaded_rates env) (br_body r)"
    using listed(1) rates by simp
  with sv(1) run [unfolded msg(1) sent.simps] msg(2,3) show ?thesis by blast
qed

theorem service_get_lists_witness:
  "\<exists>cfg sv rs r. ParseConfig ref_lib service_yaml = Inr cfg \<and>
    ServerBuilder_Build ref_lib 3 sample_orders sample_environment (service_builder ref_lib cfg) = Up sv \<and>
    RequestHandler ref_lib (sv_context sv)
      \<lparr>bq_method = verb_get, bq_target = ''/exchangerates'', bq_version = 11, bq_keep_alive = True, bq_body = []\<rparr> =
      ret (Finished (Some rs)) \<and>
    rs_calls rs = [Write r] \<and> lists_rates ref_lib [usd, eur] [usd_eur] (br_body r)"
proof -
  let ?b = "\<lparr>bq_method = verb_get, bq_target = ''/exchangerates'', bq_version = 11, bq_keep_alive = True, bq_body = []\<rparr>"
  from sample_can_start obtain cfg cc rc where
    start: "ParseConfig ref_lib service_yaml = Inr cfg" "can_start ref_lib 3 sample_orders sample_environment cfg cc rc"
    by blast
  have rq: "MakeHttpRequest ref_lib ?b =
    Inr \<lparr>rq_match_result = [], rq_request = ?b, rq_path = ''/exchangerates'', rq_query = []\<rparr>"
    (is "_ = Inr ?rq") by code_simp
  have parts: "GetMethod ref_lib ?rq = kGet" "GetBody ?rq = []"
    "lib_parse_path ref_lib (GetPath ?rq) = Some [''exchangerates'']" "no_dots ref_lib [''exchangerates'']" by code_simp+
  have seg: "lib_pct_decode ref_lib ''exchangerates'' = ''exchangerates''" by code_simp
  then have "lib_pct_decode ref_lib ''exchangerates'' \<in> {''currencies'', ''exchangerates''}" by simp
  from service_get_lists [OF start(2) rq parts this] start(1) show ?thesis
    by (simp add: seg loaded_currencies_def loaded_rates_def sample_environment_def) blast
qed

end
