(* ===== verification/Spec2Isabelle.thy ===== *)
theory Spec2Isabelle
  imports Form_Data Logger Models Handlers_Post Pg_Cache_Init Router_Limits Router_Bindings Server Program Service_Api
begin

text \<open>
  The currency exchange service (\<open>src/src\<close>) and the HTTP engine it is built on
  (\<open>src/engine/src\<close>, with the URL router in \<open>src/engine/third_party/router\<close>), as HOL functions
  and step relations.

  \<^bold>\<open>The program.\<close>  \<open>main\<close> registers components and handlers by name and calls \<open>Main::Run\<close>.
  This reads the command line and the configuration, makes every component on demand (a
  component's constructor asks for others by name), loads the caches from PostgreSQL on a
  pool of threads, starts their periodic updates, fills one URL router for each HTTP method
  and the chains of filters, and starts a listener and the threads of the event loops.  A
  session reads one request at a time; the request handler looks up the path, runs the
  filters and the handler, and the handler answers through the session, at once or when a
  statement has its reply.

  \<^bold>\<open>Conventions.\<close>  A fallible operation returns \<open>'a res\<close>: \<open>Inl (Throws e)\<close> is a C++ exception,
  \<open>Inl Undefined\<close> undefined behaviour.  Definitions have the names of the code, with a
  prefix for the class where two classes use a name.  Unordered containers are association
  lists, and a loop over one takes an arbitrary \<open>iteration_order\<close>.  Boost, Beast, yaml-cpp,
  nlohmann-json, ozo and PostgreSQL are parameters: the record \<open>lib\<close> of \<open>Third_Party\<close>, and
  named laws (\<open>bimap_laws\<close>, \<open>string_algo_laws\<close>, \<open>yaml_laws\<close>, \<open>keep_alive_laws\<close>, \<open>split_laws\<close>,
  \<open>url_grammar_laws\<close>, \<open>postgres_laws\<close>) where a theorem needs their documented behaviour;
  \<open>ref_lib\<close> is one concrete library, for the witnesses.

  \<^bold>\<open>Text and tables.\<close>  \<open>Url_Coding\<close> and \<open>Form_Data\<close> (\<open>url_coding.cpp\<close>,
  \<open>x_www_form_urlencoded.cpp\<close>): percent coding on bytes, round trips.  \<open>Containers\<close> and
  \<open>Case_Insensitive\<close>: association lists under a key equality (the locale \<open>key_equality\<close>,
  interpreted for equality, for case-insensitive strings and for URL templates) and bimaps.
  \<open>Http_Status\<close>, \<open>Http_Tables\<close>, \<open>Logger\<close>, \<open>Config\<close>, \<open>Models\<close>: the enumerations with their tables,
  the logger, every section of the configuration, the rows, statements, calculations and
  documents.

  \<^bold>\<open>Requests and handlers.\<close>  \<open>Http_Message\<close> is the request and the response; a call of
  \<open>Send\<close> gives the response after it and the exception of \<open>prepare_payload\<close>, which a body with
  a status that has none (1xx, 204, 304) makes it throw.  \<open>Pg_Client\<close> and
  \<open>Http_Handler\<close> the \<open>flow\<close> of a handler (finished, raised, or waiting for the reply to a
  statement) and the frame that turns exceptions into answers; \<open>Http_Filters\<close> the chains of
  filters, refined to the configured list.  \<open>Handlers_Get\<close> and \<open>Handlers_Post\<close> are the eight
  handlers: how often each answers (once, but for \<open>POST /currencies\<close> after some errors), what
  it answers, and what it asks the database.  \<open>Api_Spec\<close> says what the API answers from the rows of the
  tables alone, and that the handlers refine it on caches that present these rows (the
  locale \<open>presented_rows\<close>).

  \<^bold>\<open>Caches.\<close>  \<open>Currencies_Cache\<close> and \<open>Exchange_Rates_Cache\<close> (\<open>src/src/caches\<close>): the caches
  mirror the table of the rows they received (the locale \<open>currency_directory\<close>).
  \<open>Cache_Readers\<close> takes an incremental update apart into its atomic writes (the locale
  \<open>staged_update\<close>) and shows what a handler that reads between two of them can see.  \<open>Pg_Cache\<close> (\<open>pg_cache.hpp\<close>): an updater is
  driven by timer, reply and strand steps; it has one activity at a time, stops for good if
  an update throws (\<open>steady_update\<close>: it runs for good if none does), and in this program never
  succeeds.  \<open>Pg_Cache_Init\<close>: the initial load
  by a pool of threads always ends, given a thread for each cache: all are loaded, or an
  error reply or an update that throws terminates the program.

  \<^bold>\<open>The URL router.\<close>  \<open>Url_Router\<close> has templates, the pool of nodes, insertion and the search with
  its match buffer of twenty entries; \<open>Child_Vector\<close> the vector of child indices with its
  inline storage.  \<open>Router_Pool\<close> and \<open>Router_Table\<close> show that insertion keeps the pool a tree
  that represents the table of its routes; \<open>Router_Search\<close> that the search ends (the fuel of
  \<open>find_impl\<close> is always enough); \<open>Router_Best\<close>, \<open>Router_Spec\<close> and \<open>Router_Bindings\<close> that it
  finds the best match, with the right fields; \<open>Router_Limits\<close> where it reports a field of
  another route, and two more limits.  \<open>Router\<close>
  and \<open>Router_Filling\<close> are the engine's routers, one for each method.

  \<^bold>\<open>Running.\<close>  \<open>Io_Context\<close> (event loops and threads, with the records of
  their exceptions as the level of the logger lets them through), \<open>Session\<close> (the reads and writes of a
  connection as a step relation; the locale \<open>answering\<close> is what it needs of a handler, and the
  service is shown to give it), \<open>Server\<close> (listener, server, signals), \<open>Components\<close> and
  \<open>Component_Start\<close> (the container, its fuel is more than the depth of the dependencies).

  \<^bold>\<open>The service as a whole.\<close>  \<open>Service_Components\<close>, \<open>Service_Routes\<close>, \<open>Service_Dispatch\<close>,
  \<open>Service_Context\<close> and \<open>Service_Build\<close> put the parts together as \<open>src/src/main.cpp\<close>,
  \<open>server_builder.cpp\<close> and \<open>configs/config.yaml\<close> do (\<open>valid_service\<close>: the settings its
  constructors take; a connection pool of capacity 0 is refused); \<open>Service_Requests\<close> and \<open>Program\<close> follow a
  request and the program from the command line on: the server is built, its router gives
  each request to the handler its method and path name, each request is answered once, and
  the data of the caches stay as they were loaded.  \<open>Service_Api\<close> joins these: the running
  server answers a \<open>GET\<close> as \<open>Api_Spec\<close> says of the rows it loaded.

  \<^bold>\<open>Not modelled.\<close>  Sockets, TLS and the wire format of HTTP (Beast), the event queue of Asio
  beyond the order of handlers, timers and the clock beyond their completions, the SQL
  engine beyond the laws of \<open>postgres_laws\<close>, log sinks (opening the log file is taken to
  succeed), the records handlers write, the text of JSON documents (\<open>nlohmann::json::dump\<close>), memory exhaustion, and data
  races: the operations of the concurrent maps and atomic pointers are atomic (a full update
  assigns whole maps, which is not), and outside \<open>Cache_Readers\<close> an operation sees a cache as
  it is while the operation runs.  \<open>PgCacheFullUpdater\<close> and the converting operations of \<open>OptRef\<close>
  are used by nothing and would not compile.  Tests, build files and deployment hold no
  program logic.
\<close>

end
